(* ===== verification/Prelude.thy ===== *)
theory Prelude
  imports Main "HOL-Library.Word" "HOL-Library.Multiset"
begin

text \<open>
  Shared ground of the CaaL model: bytes and C strings as HOL lists, the few libc string
  routines the sources use (\<open>strncpy\<close> into a zeroed buffer, \<open>snprintf "%s"\<close>, decimal
  \<open>%d\<close>), little-endian integers, the first-match scan of an array, and the rule
  collections the component theories fill.  A byte is a HOL \<open>char\<close> (exactly 8 bits), so
  that string literals of the sources can be written as they are.
\<close>

named_theorems cstr_simps "facts about C strings and fixed-size buffers"
named_theorems io_simps "equations of the byte-stream layer"
named_theorems handler_defs "definitions of the daemon's request handlers"
named_theorems client_defs "definitions of the client library"
named_theorems os_defs "definitions of the operating-system calls"

section \<open>Bytes and C strings\<close>

type_synonym byte = char

abbreviation NUL :: byte where
  "NUL \<equiv> CHR 0x00"

text \<open>The C string held by a buffer: everything before the first NUL.\<close>

definition cstr :: "byte list \<Rightarrow> string" where
  "cstr b = takeWhile (\<lambda>c. c \<noteq> NUL) b"

text \<open>A value that a \<open>char[n]\<close> can hold with its terminator.\<close>

definition fits :: "nat \<Rightarrow> string \<Rightarrow> bool" where
  "fits n s \<longleftrightarrow> length s < n \<and> NUL \<notin> set s"

text \<open>\<open>strncpy(buf, s, sizeof(buf) - 1)\<close> into a zero-initialised \<open>char buf[n]\<close>.\<close>

definition strncpy0 :: "nat \<Rightarrow> string \<Rightarrow> byte list" where
  "strncpy0 n s = (let t = take (n - 1) (cstr s) in t @ replicate (n - length t) NUL)"

text \<open>\<open>strncpy(dst, s, n)\<close> into a buffer with earlier contents \<open>dst\<close>.\<close>

definition strncpy_at :: "nat \<Rightarrow> byte list \<Rightarrow> string \<Rightarrow> byte list" where
  "strncpy_at n dst s =
     (let t = take n (cstr s) in t @ replicate (n - length t) NUL @ drop n dst)"

text \<open>The string that \<open>snprintf(buf, n, "%s", s)\<close> leaves in \<open>buf\<close>.\<close>

definition snprintf_s :: "nat \<Rightarrow> string \<Rightarrow> string" where
  "snprintf_s n s = take (n - 1) (cstr s)"

lemma cstr_id [simp, cstr_simps]: "NUL \<notin> set s \<Longrightarrow> cstr s = s"
  by (auto simp: cstr_def takeWhile_eq_all_conv)

lemma NUL_notin_cstr [simp, intro]: "NUL \<notin> set (cstr b)"
  by (auto simp: cstr_def dest: set_takeWhileD)

lemma cstr_append_NUL [cstr_simps]: "NUL \<notin> set s \<Longrightarrow> cstr (s @ NUL # r) = s"
  by (induction s) (auto simp: cstr_def)

lemma cstr_pad [cstr_simps]: "NUL \<notin> set s \<Longrightarrow> cstr (s @ replicate k NUL) = s"
  by (cases k) (auto simp: cstr_simps)

lemma length_strncpy0 [simp]: "0 < n \<Longrightarrow> length (strncpy0 n s) = n"
  by (simp add: strncpy0_def Let_def)

lemma length_strncpy_at [simp]: "n \<le> length dst \<Longrightarrow> length (strncpy_at n dst s) = length dst"
  by (simp add: strncpy_at_def Let_def)

lemma cstr_strncpy0 [simp, cstr_simps]: "cstr (strncpy0 n s) = take (n - 1) (cstr s)"
proof -
  have "NUL \<notin> set (take (n - 1) (cstr s))"
    using NUL_notin_cstr [of s] by (meson in_set_takeD)
  then show ?thesis by (simp add: strncpy0_def Let_def cstr_pad)
qed

lemma cstr_strncpy_at_zero [cstr_simps]:
  "cstr (strncpy_at n (replicate m NUL) s) = take n (cstr s)"
proof -
  have "NUL \<notin> set (take n (cstr s))"
    using NUL_notin_cstr [of s] by (meson in_set_takeD)
  then show ?thesis
    by (simp add: strncpy_at_def Let_def cstr_pad flip: replicate_add)
qed

lemma cstr_strncpy0_fits [cstr_simps]: "fits n s \<Longrightarrow> cstr (strncpy0 n s) = s"
  by (auto simp: fits_def)

lemma fits_snprintf_s [simp, intro]: "0 < n \<Longrightarrow> fits n (snprintf_s n s)"
  using NUL_notin_cstr [of s] by (auto simp: fits_def snprintf_s_def dest: in_set_takeD)

lemma snprintf_s_fits [cstr_simps]: "fits n s \<Longrightarrow> snprintf_s n s = s"
  by (auto simp: fits_def snprintf_s_def)

lemma fits_mono: "fits n s \<Longrightarrow> n \<le> m \<Longrightarrow> fits m s"
  by (simp add: fits_def)

text \<open>
  \<open>strcmp\<close> against a field that may lack its terminator: when one side fits in
  \<open>n - 1\<close> characters, the comparison is decided inside the first \<open>n\<close> bytes of the
  other, whatever follows them in memory.
\<close>

lemma strcmp_within_buffer:
  assumes "fits n s" and "length b = n"
  shows "(s = cstr (b @ rest)) = (s = cstr b)"
proof (cases "NUL \<in> set b")
  case True
  then show ?thesis by (simp add: cstr_def takeWhile_append1)
next
  case False
  then have "cstr b = b" by simp
  moreover have "length (cstr (b @ rest)) \<ge> length b"
    using False by (induction b) (auto simp: cstr_def)
  ultimately show ?thesis using assms by (auto simp: fits_def)
qed

section \<open>Little-endian integers\<close>

fun nat_le :: "nat \<Rightarrow> nat \<Rightarrow> byte list" where
  "nat_le 0 x = []"
| "nat_le (Suc n) x = char_of x # nat_le n (x div 256)"

fun le_nat :: "byte list \<Rightarrow> nat" where
  "le_nat [] = 0"
| "le_nat (b # bs) = of_char b + 256 * le_nat bs"

lemma length_nat_le [simp]: "length (nat_le n x) = n"
  by (induction n arbitrary: x) auto

lemma le_nat_nat_le: "le_nat (nat_le n x) = x mod 256 ^ n"
proof (induction n arbitrary: x)
  case 0
  show ?case by simp
next
  case (Suc n)
  have "x mod (256 * 256 ^ n) = 256 * (x div 256 mod 256 ^ n) + x mod 256"
    by (rule mod_mult2_eq)
  with Suc show ?case by simp
qed

lemma nat_le_le_nat: "nat_le (length bs) (le_nat bs) = bs"
proof (induction bs)
  case Nil
  show ?case by simp
next
  case (Cons b bs)
  have b: "of_char b < (256::nat)" by simp
  have "char_of (of_char b + 256 * le_nat bs) = b"
    by (simp add: char_of_eq_iff take_bit_eq_mod [of 8])
  moreover have "(of_char b + 256 * le_nat bs) div 256 = le_nat bs"
    using b by simp
  ultimately show ?case using Cons by simp
qed

lemma le_nat_bound: "le_nat bs < 256 ^ length bs"
  by (metis le_nat_nat_le mod_less_divisor nat_le_le_nat zero_less_numeral zero_less_power)

definition word8_bytes :: "8 word \<Rightarrow> byte list" where
  "word8_bytes w = nat_le 1 (unat w)"

definition word32_bytes :: "32 word \<Rightarrow> byte list" where
  "word32_bytes w = nat_le 4 (unat w)"

definition word64_bytes :: "64 word \<Rightarrow> byte list" where
  "word64_bytes w = nat_le 8 (unat w)"

lemma length_word_bytes [simp]:
  "length (word8_bytes a) = 1" "length (word32_bytes b) = 4" "length (word64_bytes c) = 8"
  by (simp_all add: word8_bytes_def word32_bytes_def word64_bytes_def)

lemma word8_roundtrip [simp]: "(of_nat (le_nat (word8_bytes w)) :: 8 word) = w"
proof -
  have "unat w < 2 ^ LENGTH(8)" by (rule unsigned_less)
  then show ?thesis by (simp add: word8_bytes_def le_nat_nat_le)
qed

lemma word32_roundtrip [simp]: "(of_nat (le_nat (word32_bytes w)) :: 32 word) = w"
proof -
  have "unat w < 2 ^ LENGTH(32)" by (rule unsigned_less)
  then show ?thesis by (simp add: word32_bytes_def le_nat_nat_le)
qed

lemma word64_roundtrip [simp]: "(of_nat (le_nat (word64_bytes w)) :: 64 word) = w"
proof -
  have "unat w < 2 ^ LENGTH(64)" by (rule unsigned_less)
  then show ?thesis by (simp add: word64_bytes_def le_nat_nat_le)
qed

lemma word8_bytes_inv: "length bs = 1 \<Longrightarrow> word8_bytes (of_nat (le_nat bs)) = bs"
  using le_nat_bound [of bs] nat_le_le_nat [of bs]
  by (simp add: word8_bytes_def unat_of_nat)

lemma word32_bytes_inv: "length bs = 4 \<Longrightarrow> word32_bytes (of_nat (le_nat bs)) = bs"
  using le_nat_bound [of bs] nat_le_le_nat [of bs]
  by (simp add: word32_bytes_def unat_of_nat)

lemma word64_bytes_inv: "length bs = 8 \<Longrightarrow> word64_bytes (of_nat (le_nat bs)) = bs"
  using le_nat_bound [of bs] nat_le_le_nat [of bs]
  by (simp add: word64_bytes_def unat_of_nat)

section \<open>First match in an array\<close>

primrec find_slot :: "('a \<Rightarrow> bool) \<Rightarrow> 'a list \<Rightarrow> nat option" where
  "find_slot P [] = None"
| "find_slot P (x # xs) = (if P x then Some 0 else map_option Suc (find_slot P xs))"

lemma find_slot_None: "find_slot P xs = None \<longleftrightarrow> (\<forall>x\<in>set xs. \<not> P x)"
  by (induction xs) auto

lemma find_slot_SomeD:
  "find_slot P xs = Some i \<Longrightarrow> i < length xs \<and> P (xs ! i) \<and> (\<forall>j<i. \<not> P (xs ! j))"
proof (induction xs arbitrary: i)
  case (Cons x xs)
  then show ?case by (auto split: if_splits simp: less_Suc_eq_0_disj)
qed simp

lemma find_slot_SomeI:
  "i < length xs \<Longrightarrow> P (xs ! i) \<Longrightarrow> (\<And>j. j < i \<Longrightarrow> \<not> P (xs ! j)) \<Longrightarrow> find_slot P xs = Some i"
proof (induction xs arbitrary: i)
  case (Cons x xs)
  show ?case
  proof (cases i)
    case 0
    with Cons.prems show ?thesis by simp
  next
    case (Suc k)
    have "\<not> P x" using Cons.prems(3) [of 0] Suc by simp
    moreover have "find_slot P xs = Some k"
    proof (rule Cons.IH)
      show "k < length xs" "P (xs ! k)" using Cons.prems Suc by auto
      show "\<not> P (xs ! j)" if "j < k" for j using Cons.prems(3) [of "Suc j"] Suc that by simp
    qed
    ultimately show ?thesis using Suc by simp
  qed
qed simp

lemma find_slot_ex: "x \<in> set xs \<Longrightarrow> P x \<Longrightarrow> \<exists>i. find_slot P xs = Some i"
  by (metis find_slot_None option.exhaust)

lemma find_slot_NoneI [simp]: "\<forall>x\<in>set xs. \<not> P x \<Longrightarrow> find_slot P xs = None"
  by (simp add: find_slot_None)

text \<open>Filtering after one update of the array, in multisets.\<close>

lemma filter_update_drop:
  assumes "i < length xs" and "P (xs ! i)" and "\<not> P y"
  shows "filter_mset P (mset (xs[i := y])) = filter_mset P (mset xs) - {#xs ! i#}"
  using assms by (simp add: mset_update)

lemma filter_update_add:
  assumes "i < length xs" and "\<not> P (xs ! i)" and "P y"
  shows "filter_mset P (mset (xs[i := y])) = add_mset y (filter_mset P (mset xs))"
  using assms by (simp add: mset_update)

section \<open>Decimal output\<close>

text \<open>\<open>%d\<close>, \<open>%ld\<close> and \<open>%02d\<close> of \<open>printf\<close>.\<close>

fun show_nat :: "nat \<Rightarrow> string" where
  "show_nat n = (if n < 10 then [char_of (48 + n)] else show_nat (n div 10) @ [char_of (48 + n mod 10)])"

declare show_nat.simps [simp del]

definition show_int :: "int \<Rightarrow> string" where
  "show_int i = (if i < 0 then CHR ''-'' # show_nat (nat (- i)) else show_nat (nat i))"

definition pad_right :: "nat \<Rightarrow> string \<Rightarrow> string" where
  "pad_right n s = s @ replicate (n - length s) CHR '' ''"

definition show_02d :: "int \<Rightarrow> string" where
  "show_02d i = (if 0 \<le> i \<and> i < 10 then CHR ''0'' # show_int i else show_int i)"

lemma show_nat_nonempty: "show_nat n \<noteq> []"
  by (subst show_nat.simps) simp

lemma show_nat_digits: "c \<in> set (show_nat n) \<Longrightarrow> \<exists>d<10. c = char_of (48 + d :: nat)"
proof (induction n rule: show_nat.induct)
  case (1 n)
  have last: "\<exists>d<10. (char_of (48 + n mod 10) :: char) = char_of (48 + d :: nat)"
    by (rule exI [of _ "n mod 10"]) simp
  show ?case
  proof (cases "n < 10")
    case True
    with "1.prems" show ?thesis by (auto simp: show_nat.simps [of n])
  next
    case False
    with "1.prems" have "c \<in> set (show_nat (n div 10)) \<or> c = char_of (48 + n mod 10)"
      by (auto simp: show_nat.simps [of n])
    with "1.IH" False last show ?thesis by metis
  qed
qed

lemma length_show_nat: "n < 10 ^ k \<Longrightarrow> 0 < k \<Longrightarrow> length (show_nat n) \<le> k"
proof (induction n arbitrary: k rule: show_nat.induct)
  case (1 n)
  show ?case
  proof (cases "n < 10")
    case True
    with "1.prems" show ?thesis by (simp add: show_nat.simps [of n])
  next
    case False
    then obtain j where j: "k = Suc j" "0 < j"
      using "1.prems" by (cases k; cases "k - 1") auto
    then have "n div 10 < 10 ^ j" using "1.prems" by auto
    with False j "1.IH" show ?thesis by (simp add: show_nat.simps [of n])
  qed
qed

end
