(* ===== verification/Byte_IO.thy ===== *)
theory Byte_IO
  imports Prelude
begin

text \<open>
  Transfer of exact byte counts over a descriptor: \<open>write_all\<close> and \<open>read_all\<close>, which
  \<open>src/src/caald.c\<close> and \<open>src/src/lib/caald_client.c\<close> both define.  A descriptor is a
  \<open>chan\<close>: the results that the next \<open>read\<close> and \<open>write\<close> system calls will return
  (chosen by the kernel, hence arbitrary), and the bytes written so far.  The locale
  \<open>codec\<close> is the interface of a fixed-size message format over such a descriptor.
\<close>

section \<open>Descriptors\<close>

text \<open>
  A \<open>read\<close> returns data, or fails (\<open>RErr\<close>: error, timeout, interruption); empty data
  and the end of the list are end-of-file.  A data item longer than the buffer is
  delivered in pieces.  A \<open>write\<close> returns the number of bytes it took; a value that is
  not positive is a failure, and so is the end of the list.
\<close>

datatype rd = RData "byte list" | RErr

record chan =
  rx :: "rd list"
  tx :: "int list"
  out :: "byte list"

fun read_loop :: "rd list \<Rightarrow> nat \<Rightarrow> byte list \<Rightarrow> byte list option \<times> rd list" where
  "read_loop rs 0 acc = (Some acc, rs)"
| "read_loop [] (Suc n) acc = (None, [])"
| "read_loop (RErr # rs) (Suc n) acc = (None, rs)"
| "read_loop (RData d # rs) (Suc n) acc =
     (if d = [] then (None, rs)
      else if length d \<le> Suc n then read_loop rs (Suc n - length d) (acc @ d)
      else (Some (acc @ take (Suc n) d), RData (drop (Suc n) d) # rs))"

definition read_all :: "chan \<Rightarrow> nat \<Rightarrow> byte list option \<times> chan" where
  "read_all ch n = (let (b, rs) = read_loop (rx ch) n [] in (b, ch\<lparr>rx := rs\<rparr>))"

fun write_loop :: "int list \<Rightarrow> byte list \<Rightarrow> byte list \<Rightarrow> bool \<times> int list \<times> byte list" where
  "write_loop ws [] sent = (True, ws, sent)"
| "write_loop [] (b # bs) sent = (False, [], sent)"
| "write_loop (w # ws) (b # bs) sent =
     (if w \<le> 0 then (False, ws, sent)
      else write_loop ws (drop (nat w) (b # bs)) (sent @ take (nat w) (b # bs)))"

definition write_all :: "chan \<Rightarrow> byte list \<Rightarrow> bool \<times> chan" where
  "write_all ch bs =
     (let (ok, ws, sent) = write_loop (tx ch) bs (out ch) in (ok, ch\<lparr>tx := ws, out := sent\<rparr>))"

section \<open>What the loops compute\<close>

text \<open>The bytes that reading can still deliver: all data before the first failure.\<close>

fun avail :: "rd list \<Rightarrow> byte list" where
  "avail [] = []"
| "avail (RErr # rs) = []"
| "avail (RData d # rs) = (if d = [] then [] else d @ avail rs)"

text \<open>
  \<open>read_all\<close> depends on the available bytes only, never on how they are split into
  reads: it takes exactly \<open>n\<close> of them, or fails when there are fewer.
\<close>

lemma read_loop_avail:
  "fst (read_loop rs n acc) = (if n \<le> length (avail rs) then Some (acc @ take n (avail rs)) else None)"
proof (induction rs n acc rule: read_loop.induct)
  case (4 d rs n acc)
  then show ?case by (auto simp: take_append)
qed auto

lemma read_loop_rest:
  "n \<le> length (avail rs) \<Longrightarrow> avail (snd (read_loop rs n acc)) = drop n (avail rs)"
proof (induction rs n acc rule: read_loop.induct)
  case (4 d rs n acc)
  then show ?case by (auto simp: drop_append)
qed auto

lemma read_all_ok [io_simps]:
  "n \<le> length (avail (rx ch)) \<Longrightarrow> fst (read_all ch n) = Some (take n (avail (rx ch)))"
  by (simp add: read_all_def read_loop_avail case_prod_unfold Let_def)

lemma read_all_short [io_simps]:
  "length (avail (rx ch)) < n \<Longrightarrow> fst (read_all ch n) = None"
  by (simp add: read_all_def read_loop_avail case_prod_unfold Let_def)

lemma read_all_rest [io_simps]:
  "n \<le> length (avail (rx ch)) \<Longrightarrow> avail (rx (snd (read_all ch n))) = drop n (avail (rx ch))"
  by (simp add: read_all_def read_loop_rest case_prod_unfold Let_def)

lemma read_all_frame [simp]:
  "tx (snd (read_all ch n)) = tx ch" "out (snd (read_all ch n)) = out ch"
  by (simp_all add: read_all_def case_prod_unfold Let_def)

lemma read_all_length: "fst (read_all ch n) = Some b \<Longrightarrow> length b = n"
  by (cases "n \<le> length (avail (rx ch))") (auto simp: io_simps)

text \<open>
  Writing: what reaches the peer is always a prefix of the message, and it is the whole
  message exactly when \<open>write_all\<close> reports success.
\<close>

fun accepts :: "int list \<Rightarrow> nat \<Rightarrow> bool" where
  "accepts ws 0 = True"
| "accepts [] (Suc n) = False"
| "accepts (w # ws) (Suc n) = (0 < w \<and> accepts ws (Suc n - nat w))"

lemma write_loop_prefix:
  "\<exists>k. snd (snd (write_loop ws bs sent)) = sent @ take k bs \<and>
       (fst (write_loop ws bs sent) \<longleftrightarrow> length bs \<le> k)"
proof (induction ws bs sent rule: write_loop.induct)
  case (1 ws sent)
  show ?case by simp
next
  case (2 b bs sent)
  show ?case by (rule exI [of _ 0]) simp
next
  case (3 w ws b bs sent)
  show ?case
  proof (cases "w \<le> 0")
    case True
    then show ?thesis by (intro exI [of _ 0]) simp
  next
    case False
    with "3.IH" obtain k where
      "snd (snd (write_loop (w # ws) (b # bs) sent)) =
         (sent @ take (nat w) (b # bs)) @ take k (drop (nat w) (b # bs))"
      "fst (write_loop (w # ws) (b # bs) sent) \<longleftrightarrow> length (drop (nat w) (b # bs)) \<le> k"
      by auto
    then show ?thesis
      by (intro exI [of _ "nat w + k"]) (auto simp: take_add)
  qed
qed

lemma write_loop_accepts: "fst (write_loop ws bs sent) = accepts ws (length bs)"
proof (induction ws bs sent rule: write_loop.induct)
  case (3 w ws b bs sent)
  then show ?case by (cases "w \<le> 0") auto
qed auto

lemma write_all_prefix:
  "\<exists>k. out (snd (write_all ch bs)) = out ch @ take k bs \<and> (fst (write_all ch bs) \<longleftrightarrow> length bs \<le> k)"
  using write_loop_prefix [of "tx ch" bs "out ch"]
  by (simp add: write_all_def case_prod_unfold Let_def)

lemma write_all_ok [io_simps]:
  "fst (write_all ch bs) \<Longrightarrow> out (snd (write_all ch bs)) = out ch @ bs"
  using write_all_prefix [of ch bs] by auto

lemma write_all_frame [simp]: "rx (snd (write_all ch bs)) = rx ch"
  by (simp add: write_all_def case_prod_unfold Let_def)

lemma write_all_iff: "fst (write_all ch bs) = accepts (tx ch) (length bs)"
  by (simp add: write_all_def write_loop_accepts case_prod_unfold Let_def)

text \<open>
  A peer that keeps taking data: every \<open>write\<close> makes some progress, and there are enough of
  them for \<open>n\<close> bytes even if each takes one byte only.
\<close>

definition willing :: "nat \<Rightarrow> chan \<Rightarrow> bool" where
  "willing n ch \<longleftrightarrow> (\<forall>w \<in> set (tx ch). 0 < w) \<and> n \<le> length (tx ch)"

lemma write_loop_willing:
  "\<forall>w \<in> set ws. 0 < w \<Longrightarrow> length bs \<le> length ws \<Longrightarrow>
     \<exists>ws'. write_loop ws bs sent = (True, ws', sent @ bs) \<and> set ws' \<subseteq> set ws \<and>
           length ws - length bs \<le> length ws'"
proof (induction ws bs sent rule: write_loop.induct)
  case (3 w ws b bs sent)
  then have w: "0 < w" and len: "length (drop (nat w) (b # bs)) \<le> length ws" by auto
  with 3 obtain ws' where
    "write_loop ws (drop (nat w) (b # bs)) (sent @ take (nat w) (b # bs)) =
       (True, ws', (sent @ take (nat w) (b # bs)) @ drop (nat w) (b # bs))"
    "set ws' \<subseteq> set ws" "length ws - length (drop (nat w) (b # bs)) \<le> length ws'"
    by (metis list.set_intros(2) not_le)
  with w show ?case by (intro exI [of _ ws']) auto
qed auto

lemma write_all_willing:
  assumes "willing (length bs + m) ch"
  shows "fst (write_all ch bs)" "out (snd (write_all ch bs)) = out ch @ bs"
    "willing m (snd (write_all ch bs))"
proof -
  obtain ws' where w: "write_loop (tx ch) bs (out ch) = (True, ws', out ch @ bs)"
    "set ws' \<subseteq> set (tx ch)" "length (tx ch) - length bs \<le> length ws'"
    using write_loop_willing [of "tx ch" bs "out ch"] assms by (auto simp: willing_def)
  then show "fst (write_all ch bs)" "out (snd (write_all ch bs)) = out ch @ bs"
    "willing m (snd (write_all ch bs))"
    using assms by (auto simp: write_all_def willing_def)
qed

lemma willing_read [simp]: "willing n (snd (read_all ch k)) = willing n ch"
  by (simp add: willing_def)

lemma willing_mono: "willing n ch \<Longrightarrow> m \<le> n \<Longrightarrow> willing m ch"
  by (simp add: willing_def)

section \<open>Fixed-size message formats\<close>

text \<open>
  The interface between the wire and its users: a message of \<open>sz\<close> bytes, written by
  \<open>enc\<close> and read back by \<open>dec\<close>.  The laws say that a well-formed message survives the
  trip and that every block of \<open>sz\<close> bytes is some message.
\<close>

locale codec =
  fixes enc :: "'a \<Rightarrow> byte list"
    and dec :: "byte list \<Rightarrow> 'a"
    and sz :: nat
    and ok :: "'a \<Rightarrow> bool"
  assumes enc_length: "ok x \<Longrightarrow> length (enc x) = sz"
    and dec_enc: "ok x \<Longrightarrow> dec (enc x) = x"
    and ok_dec: "length b = sz \<Longrightarrow> ok (dec b)"
    and enc_dec: "length b = sz \<Longrightarrow> enc (dec b) = b"
begin

lemma enc_inject: "ok x \<Longrightarrow> ok y \<Longrightarrow> enc x = enc y \<longleftrightarrow> x = y"
  by (metis dec_enc)

lemma recv_one:
  assumes "ok x" and "avail (rx ch) = enc x @ rest"
  shows "\<exists>ch'. read_all ch sz = (Some (enc x), ch') \<and> avail (rx ch') = rest \<and>
           tx ch' = tx ch \<and> out ch' = out ch"
proof -
  have "sz \<le> length (avail (rx ch))" using assms by (simp add: enc_length)
  then show ?thesis
    using assms read_all_ok [of sz ch] read_all_rest [of sz ch]
      read_all_frame [of ch sz] enc_length [OF assms(1)]
    by (cases "read_all ch sz") auto
qed

lemma recv_ok:
  assumes "read_all ch sz = (Some b, ch')"
  shows "ok (dec b) \<and> avail (rx ch) = enc (dec b) @ avail (rx ch')"
proof -
  have len: "length b = sz" using read_all_length [of ch sz b] assms by simp
  have "sz \<le> length (avail (rx ch))"
    using assms read_all_short [of ch sz] by (cases "sz \<le> length (avail (rx ch))") auto
  then have "avail (rx ch) = b @ avail (rx ch')"
    using assms read_all_ok [of sz ch] read_all_rest [of sz ch] by auto
  then show ?thesis using len by (simp add: ok_dec enc_dec)
qed

lemma concat_length: "\<forall>x\<in>set xs. ok x \<Longrightarrow> length (concat (map enc xs)) = sz * length xs"
  by (induction xs) (auto simp: enc_length)

end

end
