(* ===== verification/Proto.thy ===== *)
theory Proto
  imports Byte_IO
begin

text \<open>
  The wire protocol of \<open>src/src/lib/caald_proto.h\<close>: message types, the three packed
  structs and their byte layout.  Integer fields are kept at their C width; character
  arrays are the raw 64 bytes, since a peer may send them without a terminator.  Multi-byte
  integers are little-endian, the byte order of the hosts the daemon runs on; both ends
  are on the same host.
\<close>

definition CAALD_MAX_STR :: nat where
  "CAALD_MAX_STR = 64"

lemma CAALD_MAX_STR_pos [simp]: "0 < CAALD_MAX_STR"
  by (simp add: CAALD_MAX_STR_def)

section \<open>Message types\<close>

datatype msg_type =
    CAALD_SESSION_REGISTER
  | CAALD_SESSION_UNREGISTER
  | CAALD_SESSION_COUNT
  | CAALD_SESSION_LIST
  | CAALD_SESSION_KILL
  | CAALD_SESSION_KILL_USER

fun msg_code :: "msg_type \<Rightarrow> nat" where
  "msg_code CAALD_SESSION_REGISTER = 1"
| "msg_code CAALD_SESSION_UNREGISTER = 2"
| "msg_code CAALD_SESSION_COUNT = 3"
| "msg_code CAALD_SESSION_LIST = 4"
| "msg_code CAALD_SESSION_KILL = 5"
| "msg_code CAALD_SESSION_KILL_USER = 6"

text \<open>C enums are ordered by their value.\<close>

instantiation msg_type :: linorder
begin

definition less_eq_msg_type :: "msg_type \<Rightarrow> msg_type \<Rightarrow> bool" where
  "less_eq_msg_type a b \<longleftrightarrow> msg_code a \<le> msg_code b"

definition less_msg_type :: "msg_type \<Rightarrow> msg_type \<Rightarrow> bool" where
  "less_msg_type a b \<longleftrightarrow> msg_code a < msg_code b"

instance
proof
  fix x y z :: msg_type
  have inj: "msg_code x = msg_code y \<Longrightarrow> x = y"
    by (cases x; cases y) auto
  show "x < y \<longleftrightarrow> x \<le> y \<and> \<not> y \<le> x"
    by (auto simp: less_eq_msg_type_def less_msg_type_def)
  show "x \<le> x" by (simp add: less_eq_msg_type_def)
  show "x \<le> y \<Longrightarrow> y \<le> z \<Longrightarrow> x \<le> z" by (simp add: less_eq_msg_type_def)
  show "x \<le> y \<Longrightarrow> y \<le> x \<Longrightarrow> x = y" by (rule inj) (simp add: less_eq_msg_type_def)
  show "x \<le> y \<or> y \<le> x" by (auto simp: less_eq_msg_type_def)
qed

end

definition msg_types :: "msg_type list" where
  "msg_types = [CAALD_SESSION_REGISTER, CAALD_SESSION_UNREGISTER, CAALD_SESSION_COUNT,
     CAALD_SESSION_LIST, CAALD_SESSION_KILL, CAALD_SESSION_KILL_USER]"

lemma msg_types_sorted: "sorted_wrt (<) msg_types"
  by (simp add: msg_types_def less_msg_type_def)

definition type_byte :: "msg_type \<Rightarrow> 8 word" where
  "type_byte t = of_nat (msg_code t)"

text \<open>The \<open>switch\<close> on the type byte: \<open>None\<close> is its \<open>default\<close>.\<close>

definition msg_type_of :: "8 word \<Rightarrow> msg_type option" where
  "msg_type_of w = List.find (\<lambda>t. type_byte t = w) msg_types"

lemma msg_type_of_byte [simp]: "msg_type_of (type_byte t) = Some t"
  by (cases t) (simp_all add: msg_type_of_def msg_types_def type_byte_def)

lemma msg_type_of_SomeD: "msg_type_of w = Some t \<Longrightarrow> w = type_byte t"
  by (auto simp: msg_type_of_def find_Some_iff)

section \<open>The structs\<close>

record request =
  rq_type :: "8 word"
  rq_username :: "byte list"
  rq_container_id :: "byte list"
  rq_pid :: "32 word"

record response =
  rs_ok :: "8 word"
  rs_count :: "32 word"
  rs_error :: "byte list"

record session_info =
  si_username :: "byte list"
  si_container_id :: "byte list"
  si_pid :: "32 word"
  si_start_time :: "64 word"

definition zero_str :: "byte list" where
  "zero_str = replicate CAALD_MAX_STR NUL"

definition request0 :: request where
  "request0 = \<lparr>rq_type = 0, rq_username = zero_str, rq_container_id = zero_str, rq_pid = 0\<rparr>"

definition response0 :: response where
  "response0 = \<lparr>rs_ok = 0, rs_count = 0, rs_error = zero_str\<rparr>"

definition wf_request :: "request \<Rightarrow> bool" where
  "wf_request r \<longleftrightarrow> length (rq_username r) = CAALD_MAX_STR \<and> length (rq_container_id r) = CAALD_MAX_STR"

definition wf_response :: "response \<Rightarrow> bool" where
  "wf_response r \<longleftrightarrow> length (rs_error r) = CAALD_MAX_STR"

definition wf_info :: "session_info \<Rightarrow> bool" where
  "wf_info i \<longleftrightarrow> length (si_username i) = CAALD_MAX_STR \<and> length (si_container_id i) = CAALD_MAX_STR"

lemma length_zero_str [simp]: "length zero_str = CAALD_MAX_STR"
  by (simp add: zero_str_def)

lemma wf_zero [simp]: "wf_request request0" "wf_response response0"
  by (simp_all add: wf_request_def wf_response_def request0_def response0_def)

section \<open>Byte layout\<close>

definition REQUEST_SIZE :: nat where "REQUEST_SIZE = 133"

definition RESPONSE_SIZE :: nat where "RESPONSE_SIZE = 69"

definition INFO_SIZE :: nat where "INFO_SIZE = 140"

definition enc_request :: "request \<Rightarrow> byte list" where
  "enc_request r =
     word8_bytes (rq_type r) @ rq_username r @ rq_container_id r @ word32_bytes (rq_pid r)"

definition dec_request :: "byte list \<Rightarrow> request" where
  "dec_request b =
     \<lparr>rq_type = of_nat (le_nat (take 1 b)),
      rq_username = take 64 (drop 1 b),
      rq_container_id = take 64 (drop 65 b),
      rq_pid = of_nat (le_nat (drop 129 b))\<rparr>"

definition enc_response :: "response \<Rightarrow> byte list" where
  "enc_response r = word8_bytes (rs_ok r) @ word32_bytes (rs_count r) @ rs_error r"

definition dec_response :: "byte list \<Rightarrow> response" where
  "dec_response b =
     \<lparr>rs_ok = of_nat (le_nat (take 1 b)),
      rs_count = of_nat (le_nat (take 4 (drop 1 b))),
      rs_error = drop 5 b\<rparr>"

definition enc_info :: "session_info \<Rightarrow> byte list" where
  "enc_info i =
     si_username i @ si_container_id i @ word32_bytes (si_pid i) @ word64_bytes (si_start_time i)"

definition dec_info :: "byte list \<Rightarrow> session_info" where
  "dec_info b =
     \<lparr>si_username = take 64 b,
      si_container_id = take 64 (drop 64 b),
      si_pid = of_nat (le_nat (take 4 (drop 128 b))),
      si_start_time = of_nat (le_nat (drop 132 b))\<rparr>"

text \<open>Reassembling a block from its consecutive fields.\<close>

lemma take_drop_join: "take n (drop m b) @ drop (m + n) b = drop m b"
  by (metis add.commute append_take_drop_id drop_drop)

lemmas size_defs = REQUEST_SIZE_def RESPONSE_SIZE_def INFO_SIZE_def CAALD_MAX_STR_def

interpretation rq: codec enc_request dec_request REQUEST_SIZE wf_request
proof unfold_locales
  fix b :: "byte list"
  assume len: "length b = REQUEST_SIZE"
  have "drop 129 b = take 4 (drop 129 b)" using len by (simp add: size_defs)
  then show "enc_request (dec_request b) = b"
    using len take_drop_join [of 64 65 b] take_drop_join [of 64 1 b]
    by (simp add: enc_request_def dec_request_def size_defs word8_bytes_inv word32_bytes_inv)
qed (auto simp: enc_request_def dec_request_def wf_request_def size_defs)

interpretation rs: codec enc_response dec_response RESPONSE_SIZE wf_response
proof unfold_locales
  fix b :: "byte list"
  assume len: "length b = RESPONSE_SIZE"
  then show "enc_response (dec_response b) = b"
    using take_drop_join [of 4 1 b]
    by (simp add: enc_response_def dec_response_def size_defs word8_bytes_inv word32_bytes_inv)
qed (auto simp: enc_response_def dec_response_def wf_response_def size_defs)

interpretation si: codec enc_info dec_info INFO_SIZE wf_info
proof unfold_locales
  fix b :: "byte list"
  assume len: "length b = INFO_SIZE"
  then show "enc_info (dec_info b) = b"
    using take_drop_join [of 4 128 b] take_drop_join [of 64 64 b] append_take_drop_id [of 64 b]
    by (simp add: enc_info_def dec_info_def size_defs word32_bytes_inv word64_bytes_inv)
qed (auto simp: enc_info_def dec_info_def wf_info_def size_defs)

end
