(* ===== verification/Session_Store.thy ===== *)
theory Session_Store
  imports Prelude
begin

text \<open>
  The contract between the session table and its users, as a locale: what registering,
  removing by container ID and removing by user promise about the multiset of live
  entries.  Everything proved inside it holds for any table that keeps the contract;
  theory \<open>Sessions\<close> interprets it on the daemon's handlers, once for \<open>UNREGISTER\<close> and once
  for \<open>KILL\<close>.
\<close>

datatype ('a, 'r) store_op = Enter 'a | Leave 'r | Evict 'r

fun store_step :: "('a \<Rightarrow> 'd \<Rightarrow> 'd \<times> bool) \<Rightarrow> ('r \<Rightarrow> 'd \<Rightarrow> 'd \<times> bool) \<Rightarrow> ('r \<Rightarrow> 'd \<Rightarrow> 'd \<times> nat) \<Rightarrow>
    ('a, 'r) store_op \<Rightarrow> 'd \<Rightarrow> 'd" where
  "store_step enter leave evict (Enter a) d = fst (enter a d)"
| "store_step enter leave evict (Leave r) d = fst (leave r d)"
| "store_step enter leave evict (Evict r) d = fst (evict r d)"

lemma in_diffI_neq: "e \<in># M \<Longrightarrow> e \<noteq> x \<Longrightarrow> e \<in># M - {#x#}"
  by (simp add: in_diff_count)

lemma filter_mset_all: "\<forall>x \<in># M. P x \<Longrightarrow> filter_mset P M = M"
  by (auto simp: multiset_eq_iff not_in_iff)

locale session_store =
  fixes live :: "'d \<Rightarrow> 'e multiset"
    and cap :: "'d \<Rightarrow> nat"
    and inv :: "'d \<Rightarrow> bool"
    and id_of :: "'e \<Rightarrow> string"
    and owner :: "'e \<Rightarrow> string"
    and mk :: "'a \<Rightarrow> 'e"
    and key :: "'r \<Rightarrow> string"
    and who :: "'r \<Rightarrow> string"
    and enter :: "'a \<Rightarrow> 'd \<Rightarrow> 'd \<times> bool"
    and leave :: "'r \<Rightarrow> 'd \<Rightarrow> 'd \<times> bool"
    and evict :: "'r \<Rightarrow> 'd \<Rightarrow> 'd \<times> nat"
  assumes inv_cap: "inv d \<Longrightarrow> size (live d) \<le> cap d"
    and enter_inv: "inv d \<Longrightarrow> inv (fst (enter a d)) \<and> cap (fst (enter a d)) = cap d"
    and enter_room: "inv d \<Longrightarrow> size (live d) < cap d \<Longrightarrow>
           snd (enter a d) \<and> live (fst (enter a d)) = add_mset (mk a) (live d)"
    and enter_full: "inv d \<Longrightarrow> cap d \<le> size (live d) \<Longrightarrow>
           \<not> snd (enter a d) \<and> live (fst (enter a d)) = live d"
    and leave_inv: "inv d \<Longrightarrow> inv (fst (leave r d)) \<and> cap (fst (leave r d)) = cap d"
    and leave_hit: "inv d \<Longrightarrow> e \<in># live d \<Longrightarrow> id_of e = key r \<Longrightarrow>
           snd (leave r d) \<and> (\<exists>e'. e' \<in># live d \<and> id_of e' = key r \<and>
             live (fst (leave r d)) = live d - {#e'#})"
    and leave_miss: "inv d \<Longrightarrow> \<forall>e \<in># live d. id_of e \<noteq> key r \<Longrightarrow>
           \<not> snd (leave r d) \<and> live (fst (leave r d)) = live d"
    and evict_inv: "inv d \<Longrightarrow> inv (fst (evict r d)) \<and> cap (fst (evict r d)) = cap d"
    and evict_live: "inv d \<Longrightarrow> live (fst (evict r d)) = filter_mset (\<lambda>e. owner e \<noteq> who r) (live d)"
    and evict_count: "inv d \<Longrightarrow> snd (evict r d) = size (filter_mset (\<lambda>e. owner e = who r) (live d))"
begin

abbreviation step where
  "step \<equiv> store_step enter leave evict"

abbreviation run where
  "run ops d \<equiv> fold step ops d"

lemma enter_iff: "inv d \<Longrightarrow> snd (enter a d) \<longleftrightarrow> size (live d) < cap d"
  using enter_room enter_full by (cases "size (live d) < cap d") auto

lemma leave_iff: "inv d \<Longrightarrow> snd (leave r d) \<longleftrightarrow> (\<exists>e \<in># live d. id_of e = key r)"
  using leave_hit leave_miss by metis

lemma step_inv: "inv d \<Longrightarrow> inv (step op d) \<and> cap (step op d) = cap d"
  by (cases op) (auto simp: enter_inv leave_inv evict_inv)

lemma run_inv: "inv d \<Longrightarrow> inv (run ops d) \<and> cap (run ops d) = cap d"
proof (induction ops arbitrary: d)
  case (Cons op ops)
  then show ?case using step_inv [of d op] by simp
qed simp

lemma run_capacity: "inv d \<Longrightarrow> size (live (run ops d)) \<le> cap d"
  using run_inv inv_cap by metis

text \<open>An entry survives every operation that is not aimed at it.\<close>

definition aimed :: "'e \<Rightarrow> ('a, 'r) store_op \<Rightarrow> bool" where
  "aimed e op = (case op of Enter a \<Rightarrow> False | Leave r \<Rightarrow> key r = id_of e | Evict r \<Rightarrow> who r = owner e)"

lemma step_survives:
  assumes "inv d" and "e \<in># live d" and "\<not> aimed e op"
  shows "e \<in># live (step op d)"
proof (cases op)
  case (Enter a)
  then show ?thesis
    using assms enter_room [of d a] enter_full [of d a]
    by (cases "size (live d) < cap d") auto
next
  case (Leave r)
  show ?thesis
  proof (cases "\<exists>e \<in># live d. id_of e = key r")
    case True
    then obtain e' where "id_of e' = key r" "live (fst (leave r d)) = live d - {#e'#}"
      using leave_hit assms(1) by metis
    with assms Leave show ?thesis
      by (auto simp: aimed_def intro: in_diffI_neq)
  next
    case False
    with assms Leave show ?thesis using leave_miss [of d r] by auto
  qed
next
  case (Evict r)
  with assms show ?thesis by (auto simp: aimed_def evict_live)
qed

lemma run_survives:
  assumes "inv d" and "e \<in># live d" and "\<forall>op \<in> set ops. \<not> aimed e op"
  shows "e \<in># live (run ops d)"
  using assms
proof (induction ops arbitrary: d)
  case (Cons op ops)
  then show ?case using step_inv [of d op] step_survives [of d e op] by simp
qed simp

text \<open>
  A visit: an entry that got in can leave again, whatever others did in the meantime.
\<close>

lemma visit_leaves:
  assumes "inv d" and "snd (enter a d)" and "\<forall>op \<in> set ops. \<not> aimed (mk a) op"
    and "key r = id_of (mk a)"
  shows "snd (leave r (run ops (fst (enter a d))))"
proof -
  have "mk a \<in># live (fst (enter a d))"
    using assms(1,2) enter_iff enter_room by (metis union_single_eq_member)
  then have "mk a \<in># live (run ops (fst (enter a d)))"
    using assms enter_inv by (intro run_survives) auto
  then show ?thesis
    using assms leave_iff run_inv enter_inv by metis
qed

text \<open>With a fresh ID, leaving right after entering restores the live entries.\<close>

lemma enter_leave:
  assumes "inv d" and "snd (enter a d)" and "\<forall>e \<in># live d. id_of e \<noteq> id_of (mk a)"
    and "key r = id_of (mk a)"
  shows "live (fst (leave r (fst (enter a d)))) = live d"
proof -
  have l: "live (fst (enter a d)) = add_mset (mk a) (live d)"
    using assms(1,2) enter_iff enter_room by metis
  obtain e' where e': "e' \<in># live (fst (enter a d))" "id_of e' = key r"
    "live (fst (leave r (fst (enter a d)))) = live (fst (enter a d)) - {#e'#}"
    using leave_hit [of "fst (enter a d)" "mk a" r] l assms enter_inv by force
  then have "e' = mk a" using l assms by auto
  with e' l show ?thesis by simp
qed

text \<open>IDs stay distinct as long as only fresh ones are entered.\<close>

definition distinct_ids :: "'d \<Rightarrow> bool" where
  "distinct_ids d \<longleftrightarrow> (\<forall>k. size (filter_mset (\<lambda>e. id_of e = k) (live d)) \<le> 1)"

lemma enter_distinct:
  assumes "inv d" and "distinct_ids d" and "\<forall>e \<in># live d. id_of e \<noteq> id_of (mk a)"
  shows "distinct_ids (fst (enter a d))"
proof -
  have "filter_mset (\<lambda>e. id_of e = id_of (mk a)) (live d) = {#}"
    using assms(3) by (auto simp: multiset_eq_iff not_in_iff)
  then show ?thesis
    using assms enter_room [of d a] enter_full [of d a]
    by (cases "size (live d) < cap d") (auto simp: distinct_ids_def)
qed

lemma leave_distinct:
  assumes "inv d" and "distinct_ids d"
  shows "live (fst (leave r d)) = filter_mset (\<lambda>e. id_of e \<noteq> key r) (live d)"
proof (cases "\<exists>e \<in># live d. id_of e = key r")
  case True
  then obtain e where e: "e \<in># live d" "id_of e = key r"
    "live (fst (leave r d)) = live d - {#e#}"
    using leave_hit assms(1) by metis
  let ?F = "filter_mset (\<lambda>e. id_of e = key r) (live d)"
  have "e \<in># ?F" and "size ?F \<le> 1" using e assms(2) by (auto simp: distinct_ids_def)
  then have "?F = {#e#}"
    by (metis One_nat_def add_mset_remove_trivial_eq diff_is_0_eq' insert_DiffM size_Diff_singleton
        size_eq_0_iff_empty)
  then show ?thesis
    using e by (metis add_diff_cancel_right' multiset_partition union_commute)
next
  case False
  then show ?thesis using leave_miss [of d r] assms(1)
    by (simp add: filter_mset_all)
qed

end

end
