(* ===== verification/Sessions.thy ===== *)
theory Sessions
  imports Proto Session_Store
begin

text \<open>
  The session table of the daemon (\<open>src/src/caald.c\<close>): the array of slots with its fill
  mark and capacity, and the six request handlers that work on it.  \<open>sessions\<close> is the
  allocated array (empty while the C pointer is NULL); a slot's strings are the C strings it
  stores.  Beside the new table a handler returns the response and the effects it has on
  the rest of the host: log lines and signals.
\<close>

section \<open>State\<close>

record session =
  s_username :: string
  s_container_id :: string
  s_pid :: "32 word"
  s_start_time :: "64 word"
  s_active :: bool

definition session0 :: session where
  "session0 = \<lparr>s_username = [], s_container_id = [], s_pid = 0, s_start_time = 0, s_active = False\<rparr>"

record daemon =
  sessions :: "session list"
  session_count :: nat
  max_sessions :: nat

definition daemon0 :: daemon where
  "daemon0 = \<lparr>sessions = [], session_count = 0, max_sessions = 0\<rparr>"

datatype effect =
    LogEvent string string string  \<comment> \<open>\<open>log_event(event, user, container)\<close>\<close>
  | SigTerm "32 word"              \<comment> \<open>\<open>kill(pid, SIGTERM)\<close>\<close>
  | SysLog string                  \<comment> \<open>other \<open>syslog\<close> lines\<close>

text \<open>The slots that the loops of the handlers visit.\<close>

abbreviation used :: "daemon \<Rightarrow> session list" where
  "used d \<equiv> take (session_count d) (sessions d)"

section \<open>Handlers\<close>

definition log_event :: "string \<Rightarrow> string \<Rightarrow> string \<Rightarrow> effect" where
  "log_event event username container_id = LogEvent event username container_id"

definition set_error :: "response \<Rightarrow> string \<Rightarrow> response" where
  "set_error resp msg = resp\<lparr>rs_ok := 0, rs_error := strncpy_at (CAALD_MAX_STR - 1) (rs_error resp) msg\<rparr>"

definition find_session :: "daemon \<Rightarrow> byte list \<Rightarrow> nat option" where
  "find_session d container_id =
     find_slot (\<lambda>s. s_active s \<and> s_container_id s = cstr container_id) (used d)"

definition new_session :: "64 word \<Rightarrow> request \<Rightarrow> session" where
  "new_session now req =
     \<lparr>s_username = snprintf_s CAALD_MAX_STR (rq_username req),
      s_container_id = snprintf_s CAALD_MAX_STR (rq_container_id req),
      s_pid = rq_pid req, s_start_time = now, s_active = True\<rparr>"

definition fill_slot :: "64 word \<Rightarrow> request \<Rightarrow> nat \<Rightarrow> daemon \<Rightarrow> response \<Rightarrow>
    daemon \<times> response \<times> effect list" where
  "fill_slot now req i d resp =
     (let s = new_session now req in
      (d\<lparr>sessions := (sessions d)[i := s]\<rparr>, resp\<lparr>rs_ok := 1\<rparr>,
       [log_event ''SESSION_START'' (s_username s) (s_container_id s)]))"

definition handle_register :: "64 word \<Rightarrow> request \<Rightarrow> daemon \<Rightarrow> response \<Rightarrow>
    daemon \<times> response \<times> effect list" where
  "handle_register now req d resp =
     (case find_slot (\<lambda>s. \<not> s_active s) (used d) of
        Some i \<Rightarrow> fill_slot now req i d resp
      | None \<Rightarrow>
          if max_sessions d \<le> session_count d
          then (d, set_error resp ''max sessions reached'', [])
          else fill_slot now req (session_count d)
                 (d\<lparr>session_count := Suc (session_count d)\<rparr>) resp)"

definition deactivate :: "nat \<Rightarrow> daemon \<Rightarrow> daemon" where
  "deactivate i d = d\<lparr>sessions := (sessions d)[i := (sessions d ! i)\<lparr>s_active := False\<rparr>]\<rparr>"

definition handle_unregister :: "request \<Rightarrow> daemon \<Rightarrow> response \<Rightarrow>
    daemon \<times> response \<times> effect list" where
  "handle_unregister req d resp =
     (case find_session d (rq_container_id req) of
        None \<Rightarrow> (d, set_error resp ''session not found'', [])
      | Some i \<Rightarrow>
          (deactivate i d, resp\<lparr>rs_ok := 1\<rparr>,
           [log_event ''SESSION_END'' (s_username (sessions d ! i)) (s_container_id (sessions d ! i))]))"

fun count_loop :: "session list \<Rightarrow> nat \<Rightarrow> nat" where
  "count_loop [] n = n"
| "count_loop (s # ss) n = count_loop ss (if s_active s then Suc n else n)"

definition handle_count :: "daemon \<Rightarrow> response \<Rightarrow> response" where
  "handle_count d resp = resp\<lparr>rs_ok := 1, rs_count := of_nat (count_loop (used d) 0)\<rparr>"

definition info_of :: "session \<Rightarrow> session_info" where
  "info_of s =
     \<lparr>si_username = strncpy0 CAALD_MAX_STR (s_username s),
      si_container_id = strncpy0 CAALD_MAX_STR (s_container_id s),
      si_pid = s_pid s, si_start_time = s_start_time s\<rparr>"

fun send_infos :: "chan \<Rightarrow> session list \<Rightarrow> chan" where
  "send_infos ch [] = ch"
| "send_infos ch (s # ss) =
     (if \<not> s_active s then send_infos ch ss
      else send_infos (snd (write_all ch (enc_info (info_of s)))) ss)"

definition handle_list :: "daemon \<Rightarrow> chan \<Rightarrow> response \<Rightarrow> chan \<times> response" where
  "handle_list d ch resp =
     (let resp1 = resp\<lparr>rs_ok := 1, rs_count := of_nat (count_loop (used d) 0)\<rparr>;
          ch1 = snd (write_all ch (enc_response resp1))
      in (send_infos ch1 (used d), resp1\<lparr>rs_ok := 0\<rparr>))"

definition handle_kill :: "request \<Rightarrow> daemon \<Rightarrow> response \<Rightarrow>
    daemon \<times> response \<times> effect list" where
  "handle_kill req d resp =
     (case find_session d (rq_container_id req) of
        None \<Rightarrow> (d, set_error resp ''session not found'', [])
      | Some i \<Rightarrow>
          (deactivate i d, resp\<lparr>rs_ok := 1\<rparr>,
           [SigTerm (s_pid (sessions d ! i)),
            log_event ''SESSION_KILLED'' (s_username (sessions d ! i)) (s_container_id (sessions d ! i))]))"

fun kill_loop :: "string \<Rightarrow> session list \<Rightarrow> session list \<times> effect list \<times> nat" where
  "kill_loop u [] = ([], [], 0)"
| "kill_loop u (s # ss) =
     (let (ss', es, killed) = kill_loop u ss in
      if s_active s \<and> s_username s = u
      then (s\<lparr>s_active := False\<rparr> # ss',
            SigTerm (s_pid s) # log_event ''SESSION_KILLED'' u (s_container_id s) # es, Suc killed)
      else (s # ss', es, killed))"

definition handle_kill_user :: "request \<Rightarrow> daemon \<Rightarrow> response \<Rightarrow>
    daemon \<times> response \<times> effect list" where
  "handle_kill_user req d resp =
     (let (ss, es, killed) = kill_loop (cstr (rq_username req)) (used d);
          d' = d\<lparr>sessions := ss @ drop (session_count d) (sessions d)\<rparr>
      in if killed = 0 then (d', set_error resp ''no sessions found'', es)
         else (d', resp\<lparr>rs_ok := 1, rs_count := of_nat killed\<rparr>, es))"

lemmas table_defs = handle_register_def handle_unregister_def handle_kill_def handle_kill_user_def
  fill_slot_def deactivate_def log_event_def

section \<open>Invariant and abstraction\<close>

text \<open>
  What the table always satisfies: the array has the announced capacity, the fill mark is
  inside it, the stored strings fit their arrays, and no slot beyond the fill mark is in use.
\<close>

definition wf_session :: "session \<Rightarrow> bool" where
  "wf_session s \<longleftrightarrow> fits CAALD_MAX_STR (s_username s) \<and> fits CAALD_MAX_STR (s_container_id s)"

definition wf_daemon :: "daemon \<Rightarrow> bool" where
  "wf_daemon d \<longleftrightarrow>
     length (sessions d) = max_sessions d \<and> session_count d \<le> max_sessions d \<and>
     list_all wf_session (sessions d) \<and>
     list_all (\<lambda>s. \<not> s_active s) (drop (session_count d) (sessions d))"

text \<open>The abstract state: the active sessions, in slot order or as a multiset.\<close>

definition active :: "daemon \<Rightarrow> session list" where
  "active d = filter s_active (used d)"

definition live :: "daemon \<Rightarrow> session multiset" where
  "live d = mset (active d)"

lemma wf_daemonD:
  assumes "wf_daemon d"
  shows "length (sessions d) = max_sessions d" "session_count d \<le> max_sessions d"
    "s \<in> set (sessions d) \<Longrightarrow> wf_session s"
    "s \<in> set (drop (session_count d) (sessions d)) \<Longrightarrow> \<not> s_active s"
  using assms by (auto simp: wf_daemon_def list_all_iff)

lemma active_all: "wf_daemon d \<Longrightarrow> active d = filter s_active (sessions d)"
proof -
  assume "wf_daemon d"
  then have "filter s_active (drop (session_count d) (sessions d)) = []"
    by (auto simp: wf_daemon_def list_all_iff)
  then show ?thesis
    by (metis active_def append_take_drop_id append_Nil2 filter_append)
qed

lemma active_set: "s \<in> set (active d) \<longleftrightarrow> s \<in> set (used d) \<and> s_active s"
  by (auto simp: active_def)

lemma live_set: "s \<in># live d \<longleftrightarrow> s \<in> set (used d) \<and> s_active s"
  by (auto simp: live_def active_set)

lemma live_all: "wf_daemon d \<Longrightarrow> live d = filter_mset s_active (mset (sessions d))"
  by (simp add: live_def active_all)

lemma size_live: "size (live d) = length (active d)"
  by (simp add: live_def)

lemma live_capacity: "wf_daemon d \<Longrightarrow> size (live d) \<le> max_sessions d"
  by (metis active_all length_filter_le size_live wf_daemonD(1))

lemma count_loop_eq [simp]: "count_loop ss n = n + length (filter s_active ss)"
  by (induction ss arbitrary: n) auto

lemma wf_session0 [simp]: "wf_session session0"
  by (simp add: wf_session_def session0_def fits_def)

lemma wf_new_session [simp]: "wf_session (new_session now req)"
  by (simp add: wf_session_def new_session_def)

lemma wf_deactivated [simp]: "wf_session (s\<lparr>s_active := False\<rparr>) = wf_session s"
  by (simp add: wf_session_def)

text \<open>Writing one slot below the fill mark.\<close>

lemma wf_update_slot:
  assumes "wf_daemon d" and "i < session_count d" and "wf_session s"
  shows "wf_daemon (d\<lparr>sessions := (sessions d)[i := s]\<rparr>)"
  using assms
  by (auto simp: wf_daemon_def list_all_iff drop_update_cancel dest: set_update_subset_insert [THEN subsetD])

lemma find_session_SomeD:
  assumes "find_session d c = Some i"
  shows "i < session_count d" "i < length (sessions d)" "s_active (sessions d ! i)"
    "s_container_id (sessions d ! i) = cstr c"
  using find_slot_SomeD [OF assms [unfolded find_session_def]] by auto

lemma find_session_None:
  "find_session d c = None \<longleftrightarrow> (\<forall>s \<in># live d. s_container_id s \<noteq> cstr c)"
  by (auto simp: find_session_def live_set find_slot_None)

lemma live_deactivate:
  assumes "wf_daemon d" and "i < session_count d" and "s_active (sessions d ! i)"
  shows "live (deactivate i d) = live d - {#sessions d ! i#}"
    "sessions d ! i \<in># live d" "wf_daemon (deactivate i d)"
proof -
  have i: "i < length (sessions d)" using assms by (auto simp: wf_daemon_def)
  show wf: "wf_daemon (deactivate i d)"
    unfolding deactivate_def
    by (rule wf_update_slot) (use assms i in \<open>auto intro: wf_daemonD(3)\<close>)
  show "live (deactivate i d) = live d - {#sessions d ! i#}"
    using i assms wf by (simp add: live_all) (simp add: deactivate_def filter_update_drop)
  show "sessions d ! i \<in># live d"
    using i assms by (auto simp: live_set in_set_conv_nth)
qed

lemma max_sessions_deactivate [simp]:
  "max_sessions (deactivate i d) = max_sessions d" "session_count (deactivate i d) = session_count d"
  by (simp_all add: deactivate_def)

section \<open>What each handler does\<close>

text \<open>Registering.\<close>

lemma new_session_sel [simp]:
  "s_active (new_session now req)"
  "s_username (new_session now req) = snprintf_s CAALD_MAX_STR (rq_username req)"
  "s_container_id (new_session now req) = snprintf_s CAALD_MAX_STR (rq_container_id req)"
  "s_pid (new_session now req) = rq_pid req"
  "s_start_time (new_session now req) = now"
  by (simp_all add: new_session_def)

lemma register_no_hole:
  assumes "wf_daemon d" and "\<forall>s \<in> set (used d). s_active s"
  shows "size (live d) = session_count d"
proof -
  have "active d = used d" using assms(2) by (simp add: active_def)
  then show ?thesis using assms(1) by (simp add: size_live wf_daemon_def)
qed

lemma register_room:
  assumes wf: "wf_daemon d" and room: "size (live d) < max_sessions d"
    and res: "handle_register now req d resp = (d', resp', es)"
  shows "wf_daemon d'" "max_sessions d' = max_sessions d"
    "live d' = add_mset (new_session now req) (live d)" "resp' = resp\<lparr>rs_ok := 1\<rparr>"
    "es = [LogEvent ''SESSION_START'' (s_username (new_session now req)) (s_container_id (new_session now req))]"
proof -
  obtain i d1 where d1: "wf_daemon d1" "live d1 = live d" "max_sessions d1 = max_sessions d"
    and i: "i < session_count d1" "i < length (sessions d1)" "\<not> s_active (sessions d1 ! i)"
    and fill: "handle_register now req d resp = fill_slot now req i d1 resp"
  proof (cases "find_slot (\<lambda>s. \<not> s_active s) (used d)")
    case (Some i)
    with find_slot_SomeD [OF this] wf show ?thesis
      by (intro that [of d i]) (auto simp: handle_register_def wf_daemon_def)
  next
    case None
    let ?d1 = "d\<lparr>session_count := Suc (session_count d)\<rparr>"
    have c: "session_count d < max_sessions d"
      using None register_no_hole [OF wf] room by (simp add: find_slot_None)
    have drop: "drop (session_count d) (sessions d) =
        sessions d ! session_count d # drop (Suc (session_count d)) (sessions d)"
      using c wf by (simp add: wf_daemon_def Cons_nth_drop_Suc)
    have wf1: "wf_daemon ?d1" and off: "\<not> s_active (sessions d ! session_count d)"
      using wf c drop by (auto simp: wf_daemon_def)
    show ?thesis
      using None c wf wf1 off live_all [OF wf] live_all [OF wf1]
      by (intro that [of ?d1 "session_count d"]) (auto simp: handle_register_def wf_daemon_def)
  qed
  let ?s = "new_session now req"
  have d': "d' = d1\<lparr>sessions := (sessions d1)[i := ?s]\<rparr>"
    and "resp' = resp\<lparr>rs_ok := 1\<rparr>"
    and "es = [LogEvent ''SESSION_START'' (s_username ?s) (s_container_id ?s)]"
    using res fill by (auto simp: fill_slot_def log_event_def Let_def)
  then show "resp' = resp\<lparr>rs_ok := 1\<rparr>"
    "es = [LogEvent ''SESSION_START'' (s_username ?s) (s_container_id ?s)]" by auto
  show wf': "wf_daemon d'" using d' d1(1) i(1) by (simp add: wf_update_slot)
  show "max_sessions d' = max_sessions d" using d' d1(3) by simp
  show "live d' = add_mset ?s (live d)"
    using live_all [OF wf'] live_all [OF d1(1)] d1(2) d' i(2,3) by (simp add: filter_update_add)
qed

lemma register_full:
  assumes wf: "wf_daemon d" and full: "max_sessions d \<le> size (live d)"
  shows "handle_register now req d resp = (d, set_error resp ''max sessions reached'', [])"
proof -
  have "size (live d) \<le> session_count d"
    by (metis size_live active_def length_filter_le length_take min.cobounded2 order_trans)
  then have c: "session_count d = max_sessions d" and l: "length (active d) = length (used d)"
    using wf full by (auto simp: size_live wf_daemon_def)
  have all: "\<forall>s \<in> set (used d). s_active s"
    using l length_filter_less [of _ "used d" s_active] by (fastforce simp: active_def)
  have "find_slot (\<lambda>s. \<not> s_active s) (used d) = None" using all by simp
  with c show ?thesis by (simp add: handle_register_def)
qed

text \<open>Removing one session: both \<open>UNREGISTER\<close> and \<open>KILL\<close>.\<close>

lemma remove_found:
  assumes "wf_daemon d" and "find_session d c = Some i"
  shows "wf_daemon (deactivate i d)" "live (deactivate i d) = live d - {#sessions d ! i#}"
    "sessions d ! i \<in># live d" "s_container_id (sessions d ! i) = cstr c"
  using find_session_SomeD [OF assms(2)] live_deactivate [OF assms(1)] by auto

text \<open>Removing all sessions of a user.\<close>

lemma kill_loop_result:
  "kill_loop u ss = (ss', es, k) \<Longrightarrow>
     ss' = map (\<lambda>s. if s_active s \<and> s_username s = u then s\<lparr>s_active := False\<rparr> else s) ss \<and>
     k = length (filter (\<lambda>s. s_active s \<and> s_username s = u) ss) \<and>
     es = concat (map (\<lambda>s. [SigTerm (s_pid s), LogEvent ''SESSION_KILLED'' u (s_container_id s)])
            (filter (\<lambda>s. s_active s \<and> s_username s = u) ss))"
proof (induction ss arbitrary: ss' es k)
  case (Cons s ss)
  obtain a b c where r: "kill_loop u ss = (a, b, c)" by (cases "kill_loop u ss")
  from Cons.prems Cons.IH [OF r] r show ?case
    by (auto simp: log_event_def split: if_splits)
qed simp

lemma filter_after_kill:
  "filter s_active (map (\<lambda>s. if s_active s \<and> s_username s = u then s\<lparr>s_active := False\<rparr> else s) ss) =
   filter (\<lambda>s. s_username s \<noteq> u) (filter s_active ss)"
  by (induction ss) auto

lemma kill_user_result:
  fixes req :: request and d :: daemon
  defines "u \<equiv> cstr (rq_username req)"
  defines "hit \<equiv> filter (\<lambda>s. s_username s = u) (active d)"
  assumes wf: "wf_daemon d" and res: "handle_kill_user req d resp = (d', resp', es)"
  shows "wf_daemon d'" "max_sessions d' = max_sessions d"
    "active d' = filter (\<lambda>s. s_username s \<noteq> u) (active d)"
    "es = concat (map (\<lambda>s. [SigTerm (s_pid s), LogEvent ''SESSION_KILLED'' u (s_container_id s)]) hit)"
    "resp' = (if hit = [] then set_error resp ''no sessions found''
              else resp\<lparr>rs_ok := 1, rs_count := of_nat (length hit)\<rparr>)"
proof -
  obtain ss es' k where k: "kill_loop u (used d) = (ss, es', k)"
    by (cases "kill_loop u (used d)")
  note K = kill_loop_result [OF k]
  have hit: "filter (\<lambda>s. s_active s \<and> s_username s = u) (used d) = hit"
    unfolding hit_def active_def by (induction "used d" rule: list.induct) auto
  have d': "d' = d\<lparr>sessions := ss @ drop (session_count d) (sessions d)\<rparr>" and "es' = es"
    and r: "resp' = (if k = 0 then set_error resp ''no sessions found''
              else resp\<lparr>rs_ok := 1, rs_count := of_nat k\<rparr>)"
    using res k unfolding u_def by (auto simp: handle_kill_user_def Let_def split: if_splits)
  have len: "length ss = session_count d" using K wf by (simp add: wf_daemon_def)
  have wfu: "list_all wf_session (used d)" and wfd: "list_all wf_session (drop (session_count d) (sessions d))"
    using wf by (auto simp: wf_daemon_def list_all_iff dest: in_set_takeD in_set_dropD)
  show "wf_daemon d'"
    using wf len K d' wfu wfd by (auto simp: wf_daemon_def list_all_iff)
  show "max_sessions d' = max_sessions d" using d' by simp
  show "active d' = filter (\<lambda>s. s_username s \<noteq> u) (active d)"
    using d' len K by (simp add: active_def filter_after_kill del: filter_filter)
  show "es = concat (map (\<lambda>s. [SigTerm (s_pid s), LogEvent ''SESSION_KILLED'' u (s_container_id s)]) hit)"
    using K hit \<open>es' = es\<close> by simp
  show "resp' = (if hit = [] then set_error resp ''no sessions found''
              else resp\<lparr>rs_ok := 1, rs_count := of_nat (length hit)\<rparr>)"
    using r K hit by simp
qed

section \<open>The table keeps the store contract\<close>

text \<open>The handlers as store operations: request in, new table and success out.\<close>

definition tab_enter :: "64 word \<times> request \<Rightarrow> daemon \<Rightarrow> daemon \<times> bool" where
  "tab_enter a d = (let (d', resp, es) = handle_register (fst a) (snd a) d response0 in (d', rs_ok resp = 1))"

definition tab_leave :: "request \<Rightarrow> daemon \<Rightarrow> daemon \<times> bool" where
  "tab_leave r d = (let (d', resp, es) = handle_unregister r d response0 in (d', rs_ok resp = 1))"

definition tab_kill :: "request \<Rightarrow> daemon \<Rightarrow> daemon \<times> bool" where
  "tab_kill r d = (let (d', resp, es) = handle_kill r d response0 in (d', rs_ok resp = 1))"

definition tab_evict :: "request \<Rightarrow> daemon \<Rightarrow> daemon \<times> nat" where
  "tab_evict r d =
     (let (d', resp, es) = handle_kill_user r d response0 in
      (d', length (filter (\<lambda>e. case e of SigTerm p \<Rightarrow> True | _ \<Rightarrow> False) es)))"

lemma set_error_ok [simp]: "rs_ok (set_error resp m) = 0"
  by (simp add: set_error_def)

lemma tab_kill_leave: "tab_kill = tab_leave"
  by (rule ext)+ (simp add: tab_kill_def tab_leave_def handle_kill_def handle_unregister_def Let_def
      split: option.splits)

lemma tab_enter_room:
  assumes "wf_daemon d" and "size (live d) < max_sessions d"
  shows "wf_daemon (fst (tab_enter a d)) \<and> max_sessions (fst (tab_enter a d)) = max_sessions d \<and>
     snd (tab_enter a d) \<and> live (fst (tab_enter a d)) = add_mset (new_session (fst a) (snd a)) (live d)"
proof (cases "handle_register (fst a) (snd a) d response0")
  case (fields d' resp' es)
  with register_room [OF assms fields] show ?thesis by (simp add: tab_enter_def)
qed

lemma tab_enter_full:
  assumes "wf_daemon d" and "max_sessions d \<le> size (live d)"
  shows "tab_enter a d = (d, False)"
  using register_full [OF assms] by (simp add: tab_enter_def)

lemma tab_leave_cases:
  "tab_leave r d = (case find_session d (rq_container_id r) of
     None \<Rightarrow> (d, False) | Some i \<Rightarrow> (deactivate i d, True))"
  by (simp add: tab_leave_def handle_unregister_def split: option.splits)

lemma tab_evict_cases:
  assumes "wf_daemon d"
  shows "wf_daemon (fst (tab_evict r d)) \<and> max_sessions (fst (tab_evict r d)) = max_sessions d \<and>
    live (fst (tab_evict r d)) = filter_mset (\<lambda>s. s_username s \<noteq> cstr (rq_username r)) (live d) \<and>
    snd (tab_evict r d) = size (filter_mset (\<lambda>s. s_username s = cstr (rq_username r)) (live d))"
proof (cases "handle_kill_user r d response0")
  case (fields d' resp' es)
  have cnt: "length (filter (\<lambda>e. case e of SigTerm p \<Rightarrow> True | _ \<Rightarrow> False)
      (concat (map (\<lambda>s. [SigTerm (s_pid s), LogEvent ''SESSION_KILLED'' u (s_container_id s)]) xs))) =
    length xs" for u and xs :: "session list"
    by (induction xs) auto
  have "size (filter_mset (\<lambda>s. s_username s = cstr (rq_username r)) (live d)) =
      length (filter (\<lambda>s. s_username s = cstr (rq_username r)) (active d))"
    unfolding live_def by (metis mset_filter size_mset)
  with kill_user_result [OF assms fields] cnt fields show ?thesis
    by (simp add: tab_evict_def live_def)
qed

interpretation unreg: session_store live max_sessions wf_daemon s_container_id s_username
  "\<lambda>a. new_session (fst a) (snd a)" "\<lambda>r. cstr (rq_container_id r)" "\<lambda>r. cstr (rq_username r)"
  tab_enter tab_leave tab_evict
proof unfold_locales
  fix d :: daemon and r :: request and e :: session and a :: "64 word \<times> request"
  assume wf: "wf_daemon d"
  show "size (live d) \<le> max_sessions d" using wf by (rule live_capacity)
  show "wf_daemon (fst (tab_enter a d)) \<and> max_sessions (fst (tab_enter a d)) = max_sessions d"
    using tab_enter_room [OF wf] tab_enter_full [OF wf] wf
    by (cases "size (live d) < max_sessions d") auto
  show "size (live d) < max_sessions d \<Longrightarrow> snd (tab_enter a d) \<and>
      live (fst (tab_enter a d)) = add_mset (new_session (fst a) (snd a)) (live d)"
    using tab_enter_room [OF wf] by simp
  show "max_sessions d \<le> size (live d) \<Longrightarrow>
      \<not> snd (tab_enter a d) \<and> live (fst (tab_enter a d)) = live d"
    using tab_enter_full [OF wf] by simp
  show "wf_daemon (fst (tab_leave r d)) \<and> max_sessions (fst (tab_leave r d)) = max_sessions d"
    using wf remove_found [OF wf] by (auto simp: tab_leave_cases split: option.splits)
  show "e \<in># live d \<Longrightarrow> s_container_id e = cstr (rq_container_id r) \<Longrightarrow>
      snd (tab_leave r d) \<and> (\<exists>e'. e' \<in># live d \<and> s_container_id e' = cstr (rq_container_id r) \<and>
        live (fst (tab_leave r d)) = live d - {#e'#})"
    using remove_found [OF wf, of "rq_container_id r"] find_session_None [of d "rq_container_id r"]
    by (cases "find_session d (rq_container_id r)") (auto simp: tab_leave_cases)
  show "\<forall>e \<in># live d. s_container_id e \<noteq> cstr (rq_container_id r) \<Longrightarrow>
      \<not> snd (tab_leave r d) \<and> live (fst (tab_leave r d)) = live d"
    using find_session_None [of d "rq_container_id r"] by (simp add: tab_leave_cases)
  show "wf_daemon (fst (tab_evict r d)) \<and> max_sessions (fst (tab_evict r d)) = max_sessions d"
    "live (fst (tab_evict r d)) = filter_mset (\<lambda>s. s_username s \<noteq> cstr (rq_username r)) (live d)"
    "snd (tab_evict r d) = size (filter_mset (\<lambda>s. s_username s = cstr (rq_username r)) (live d))"
    using tab_evict_cases [OF wf] by auto
qed

interpretation kil: session_store live max_sessions wf_daemon s_container_id s_username
  "\<lambda>a. new_session (fst a) (snd a)" "\<lambda>r. cstr (rq_container_id r)" "\<lambda>r. cstr (rq_username r)"
  tab_enter tab_kill tab_evict
  unfolding tab_kill_leave by (rule unreg.session_store_axioms)

end
