(* ===== verification/Dictionary.thy ===== *)
theory Dictionary
  imports Prelude
begin

text \<open>
  The contract of an insert-only dictionary, which the parser and the readers of the
  configuration rely on: inserting a new key succeeds until the dictionary is full and is
  then found, other keys are unaffected, and a key is never inserted twice.  Theory
  \<open>Toml_Datum\<close> interprets it on the table primitives of \<open>tomlc17.c\<close>.
\<close>

locale dictionary =
  fixes lookup :: "'t \<Rightarrow> 'k \<Rightarrow> 'v option"
    and insert :: "'t \<Rightarrow> 'k \<Rightarrow> 'v \<Rightarrow> 'e + 't"
    and entries :: "'t \<Rightarrow> ('k \<times> 'v) list"
    and inv :: "'t \<Rightarrow> bool"
    and good :: "'v \<Rightarrow> bool"
    and limit :: nat
    and dup :: 'e
    and full :: 'e
  assumes lookup_entries: "inv t \<Longrightarrow> lookup t k = map_of (entries t) k"
    and entries_distinct: "inv t \<Longrightarrow> distinct (map fst (entries t))"
    and entries_limit: "inv t \<Longrightarrow> length (entries t) \<le> limit"
    and insert_new: "inv t \<Longrightarrow> good v \<Longrightarrow> lookup t k = None \<Longrightarrow> length (entries t) < limit \<Longrightarrow>
           \<exists>t'. insert t k v = Inr t' \<and> inv t' \<and> entries t' = entries t @ [(k, v)]"
    and insert_full: "inv t \<Longrightarrow> lookup t k = None \<Longrightarrow> length (entries t) = limit \<Longrightarrow>
           insert t k v = Inl full"
    and insert_dup: "inv t \<Longrightarrow> lookup t k \<noteq> None \<Longrightarrow> insert t k v = Inl dup"
begin

lemma insert_InrD:
  assumes "inv t" and "good v" and "insert t k v = Inr t'"
  shows "inv t'" "lookup t k = None" "entries t' = entries t @ [(k, v)]" "length (entries t) < limit"
proof -
  show none: "lookup t k = None" using assms insert_dup by fastforce
  show lim: "length (entries t) < limit"
    using assms insert_full [OF assms(1) none] entries_limit [OF assms(1)]
    by (cases "length (entries t) = limit") auto
  show "inv t'" "entries t' = entries t @ [(k, v)]"
    using insert_new [OF assms(1,2) none lim] assms(3) by auto
qed

lemma lookup_insert:
  assumes "inv t" and "good v" and "insert t k v = Inr t'"
  shows "lookup t' = (lookup t)(k \<mapsto> v)"
proof
  fix j
  show "lookup t' j = ((lookup t)(k \<mapsto> v)) j"
    using insert_InrD [OF assms] lookup_entries [OF assms(1), of j]
      lookup_entries [OF insert_InrD(1) [OF assms], of j] lookup_entries [OF assms(1), of k]
    by (auto simp: map_add_def split: option.splits)
qed

text \<open>Inserting a list of pairs in order, stopping at the first error.\<close>

fun insert_all :: "('k \<times> 'v) list \<Rightarrow> 't \<Rightarrow> 'e + 't" where
  "insert_all [] t = Inr t"
| "insert_all ((k, v) # kvs) t =
     (case insert t k v of Inl e \<Rightarrow> Inl e | Inr t' \<Rightarrow> insert_all kvs t')"

lemma insert_all_ok:
  assumes "inv t" and "\<forall>(k, v) \<in> set kvs. good v"
    and "distinct (map fst (entries t @ kvs))" and "length (entries t @ kvs) \<le> limit"
  shows "\<exists>t'. insert_all kvs t = Inr t' \<and> inv t' \<and> entries t' = entries t @ kvs"
  using assms
proof (induction kvs arbitrary: t)
  case (Cons kv kvs)
  obtain k v where kv: "kv = (k, v)" by (cases kv)
  have "lookup t k = None"
    using Cons.prems kv by (auto simp: lookup_entries map_of_eq_None_iff)
  then obtain t1 where t1: "insert t k v = Inr t1" "inv t1" "entries t1 = entries t @ [(k, v)]"
    using insert_new [of t v k] Cons.prems kv by auto
  then obtain t' where "insert_all kvs t1 = Inr t' \<and> inv t' \<and> entries t' = entries t1 @ kvs"
    using Cons.IH [of t1] Cons.prems kv by auto
  with t1 kv show ?case by auto
qed simp

lemma insert_all_dup:
  assumes "inv t" and "\<forall>(k, v) \<in> set kvs. good v"
    and "insert_all kvs t = Inr t'"
  shows "distinct (map fst (entries t @ kvs))"
  using assms
proof (induction kvs arbitrary: t)
  case Nil
  then show ?case by (simp add: entries_distinct)
next
  case (Cons kv kvs)
  obtain k v where kv: "kv = (k, v)" by (cases kv)
  then obtain t1 where t1: "insert t k v = Inr t1" "insert_all kvs t1 = Inr t'"
    using Cons.prems by (auto split: sum.splits)
  have "good v" using Cons.prems kv by auto
  from insert_InrD [OF Cons.prems(1) this t1(1)] Cons.IH [of t1] t1(2) Cons.prems kv
  show ?case by auto
qed

end

end
