(* ===== verification/Toml_Datum.thy ===== *)
theory Toml_Datum
  imports Dictionary
begin

text \<open>
  The tree of a parsed configuration (\<open>src/src/lib/tomlc17.h\<close>, \<open>src/src/lib/tomlc17.c\<close>): the
  datum type, the insertion primitives of tables and arrays, and the queries \<open>toml_get\<close> and
  \<open>toml_seek\<close> that \<open>caalsh\<close> and \<open>caald\<close> read their settings with.  A datum is a value
  here, so an operation that returns a pointer into a table returns the new table and the
  index.  Keys and strings are byte strings of known length, which may hold NULs; where
  the code uses \<open>strcmp\<close> the model compares their C prefixes.  Allocation is taken to
  succeed; the same operations with their storage are in \<open>Toml_Memory\<close>.
\<close>

unbundle bit_operations_syntax

section \<open>Data\<close>

type_synonym flag = "32 word"

definition FLAG_INLINED :: flag where "FLAG_INLINED = 1"

definition FLAG_STDEXPR :: flag where "FLAG_STDEXPR = 2"

definition FLAG_EXPLICIT :: flag where "FLAG_EXPLICIT = 4"

definition TABLE_MAX :: nat where "TABLE_MAX = 16384"

definition ARRAY_MAX :: nat where "ARRAY_MAX = 16384"

text \<open>Date and time fields; \<open>-1\<close> where the type has none.\<close>

record ts =
  ts_year :: int
  ts_month :: int
  ts_day :: int
  ts_hour :: int
  ts_minute :: int
  ts_second :: int
  ts_usec :: int
  ts_tz :: int

datatype toml_type =
    TOML_UNKNOWN | TOML_STRING | TOML_INT64 | TOML_FP64 | TOML_BOOLEAN
  | TOML_DATE | TOML_TIME | TOML_DATETIME | TOML_DATETIMETZ | TOML_ARRAY | TOML_TABLE

text \<open>
  The struct with its tag, flag and union.  A double is its IEEE-754 bit pattern.
\<close>

datatype datum =
    DUnknown flag
  | DString flag string
  | DInt64 flag "64 word"
  | DFp64 flag "64 word"
  | DBoolean flag bool
  | DDate flag ts
  | DTime flag ts
  | DDatetime flag ts
  | DDatetimetz flag ts
  | DArray flag "datum list"
  | DTable flag "(string \<times> datum) list"

definition DATUM_ZERO :: datum where
  "DATUM_ZERO = DUnknown 0"

fun dtype :: "datum \<Rightarrow> toml_type" where
  "dtype (DUnknown f) = TOML_UNKNOWN"
| "dtype (DString f s) = TOML_STRING"
| "dtype (DInt64 f i) = TOML_INT64"
| "dtype (DFp64 f x) = TOML_FP64"
| "dtype (DBoolean f b) = TOML_BOOLEAN"
| "dtype (DDate f t) = TOML_DATE"
| "dtype (DTime f t) = TOML_TIME"
| "dtype (DDatetime f t) = TOML_DATETIME"
| "dtype (DDatetimetz f t) = TOML_DATETIMETZ"
| "dtype (DArray f xs) = TOML_ARRAY"
| "dtype (DTable f kvs) = TOML_TABLE"

fun dflag :: "datum \<Rightarrow> flag" where
  "dflag (DUnknown f) = f"
| "dflag (DString f s) = f"
| "dflag (DInt64 f i) = f"
| "dflag (DFp64 f x) = f"
| "dflag (DBoolean f b) = f"
| "dflag (DDate f t) = f"
| "dflag (DTime f t) = f"
| "dflag (DDatetime f t) = f"
| "dflag (DDatetimetz f t) = f"
| "dflag (DArray f xs) = f"
| "dflag (DTable f kvs) = f"

fun set_flag :: "flag \<Rightarrow> datum \<Rightarrow> datum" where
  "set_flag g (DUnknown f) = DUnknown (f OR g)"
| "set_flag g (DString f s) = DString (f OR g) s"
| "set_flag g (DInt64 f i) = DInt64 (f OR g) i"
| "set_flag g (DFp64 f x) = DFp64 (f OR g) x"
| "set_flag g (DBoolean f b) = DBoolean (f OR g) b"
| "set_flag g (DDate f t) = DDate (f OR g) t"
| "set_flag g (DTime f t) = DTime (f OR g) t"
| "set_flag g (DDatetime f t) = DDatetime (f OR g) t"
| "set_flag g (DDatetimetz f t) = DDatetimetz (f OR g) t"
| "set_flag g (DArray f xs) = DArray (f OR g) xs"
| "set_flag g (DTable f kvs) = DTable (f OR g) kvs"

definition has_flag :: "flag \<Rightarrow> datum \<Rightarrow> bool" where
  "has_flag g d \<longleftrightarrow> dflag d AND g \<noteq> 0"

definition ts_none :: ts where
  "ts_none = \<lparr>ts_year = -1, ts_month = -1, ts_day = -1, ts_hour = -1, ts_minute = -1,
     ts_second = -1, ts_usec = -1, ts_tz = -1\<rparr>"

fun mkdatum :: "toml_type \<Rightarrow> datum" where
  "mkdatum TOML_UNKNOWN = DUnknown 0"
| "mkdatum TOML_STRING = DString 0 []"
| "mkdatum TOML_INT64 = DInt64 0 0"
| "mkdatum TOML_FP64 = DFp64 0 0"
| "mkdatum TOML_BOOLEAN = DBoolean 0 False"
| "mkdatum TOML_DATE = DDate 0 ts_none"
| "mkdatum TOML_TIME = DTime 0 ts_none"
| "mkdatum TOML_DATETIME = DDatetime 0 ts_none"
| "mkdatum TOML_DATETIMETZ = DDatetimetz 0 ts_none"
| "mkdatum TOML_ARRAY = DArray 0 []"
| "mkdatum TOML_TABLE = DTable 0 []"

lemma dtype_mkdatum [simp]: "dtype (mkdatum t) = t" "dflag (mkdatum t) = 0"
  by (cases t; simp)+

lemma dtype_set_flag [simp]: "dtype (set_flag g d) = dtype d" "dflag (set_flag g d) = dflag d OR g"
  by (cases d; simp)+

lemma dtype_table: "dtype d = TOML_TABLE \<longleftrightarrow> (\<exists>f kvs. d = DTable f kvs)"
  by (cases d) auto

lemma dtype_zero [simp]: "dtype DATUM_ZERO = TOML_UNKNOWN"
  by (simp add: DATUM_ZERO_def)

lemma dtype_unknown: "dtype d = TOML_UNKNOWN \<longleftrightarrow> (\<exists>f. d = DUnknown f)"
  by (cases d) auto

section \<open>Insertion\<close>

text \<open>The assertions \<open>tab->type == TOML_TABLE\<close> hold at every call; elsewhere: not found.\<close>

fun tab_find :: "datum \<Rightarrow> string \<Rightarrow> nat option" where
  "tab_find (DTable f kvs) key = find_slot (\<lambda>kv. fst kv = key) kvs"
| "tab_find d key = None"

fun tab_emplace :: "datum \<Rightarrow> string \<Rightarrow> string + datum \<times> nat" where
  "tab_emplace (DTable f kvs) key =
     (case find_slot (\<lambda>kv. fst kv = key) kvs of
        Some i \<Rightarrow> Inr (DTable f kvs, i)
      | None \<Rightarrow>
          if TABLE_MAX \<le> length kvs then Inl ''table too large''
          else Inr (DTable f (kvs @ [(key, DATUM_ZERO)]), length kvs))"
| "tab_emplace d key = Inl ''not a table''"

fun tab_set :: "datum \<Rightarrow> nat \<Rightarrow> datum \<Rightarrow> datum" where
  "tab_set (DTable f kvs) i v = DTable f (kvs[i := (fst (kvs ! i), v)])"
| "tab_set d i v = d"

fun tab_value :: "datum \<Rightarrow> nat \<Rightarrow> datum" where
  "tab_value (DTable f kvs) i = (if i < length kvs then snd (kvs ! i) else DATUM_ZERO)"
| "tab_value d i = DATUM_ZERO"

definition tab_add :: "datum \<Rightarrow> string \<Rightarrow> datum \<Rightarrow> string + datum" where
  "tab_add tab newkey newvalue =
     (case tab_emplace tab newkey of
        Inl reason \<Rightarrow> Inl reason
      | Inr (tab', i) \<Rightarrow>
          if dtype (tab_value tab' i) \<noteq> TOML_UNKNOWN then Inl ''duplicate key''
          else Inr (tab_set tab' i newvalue))"

fun arr_emplace :: "datum \<Rightarrow> string + datum \<times> nat" where
  "arr_emplace (DArray f xs) =
     (if ARRAY_MAX \<le> length xs then Inl ''array too large''
      else Inr (DArray f (xs @ [DATUM_ZERO]), length xs))"
| "arr_emplace d = Inl ''not an array''"

fun set_flag_recursive :: "flag \<Rightarrow> datum \<Rightarrow> datum" where
  "set_flag_recursive g (DArray f xs) = DArray (f OR g) (map (set_flag_recursive g) xs)"
| "set_flag_recursive g (DTable f kvs) =
     DTable (f OR g) (map (\<lambda>(k, v). (k, set_flag_recursive g v)) kvs)"
| "set_flag_recursive g d = set_flag g d"

section \<open>Queries\<close>

fun get_loop :: "(string \<times> datum) list \<Rightarrow> string \<Rightarrow> datum" where
  "get_loop [] key = DATUM_ZERO"
| "get_loop ((k, v) # kvs) key = (if cstr k = cstr key then v else get_loop kvs key)"

fun toml_get :: "datum \<Rightarrow> string \<Rightarrow> datum" where
  "toml_get (DTable f kvs) key = get_loop kvs key"
| "toml_get d key = DATUM_ZERO"

text \<open>\<open>copystring\<close>: the copy, or failure when it does not fit with its terminator.\<close>

definition copystring :: "nat \<Rightarrow> string \<Rightarrow> string option" where
  "copystring dstsz src = (if length (cstr src) + 1 > dstsz then None else Some (cstr src))"

text \<open>\<open>strchr(p, '.')\<close>: what precedes and what follows the first dot.\<close>

fun split_dot :: "string \<Rightarrow> (string \<times> string) option" where
  "split_dot [] = None"
| "split_dot (c # cs) =
     (if c = CHR ''.'' then Some ([], cs)
      else map_option (\<lambda>(a, b). (c # a, b)) (split_dot cs))"

lemma split_dot_length: "split_dot p = Some (a, b) \<Longrightarrow> length b < length p"
  by (induction p arbitrary: a) (auto split: if_splits)

function seek_loop :: "datum \<Rightarrow> string \<Rightarrow> datum" where
  "seek_loop d p =
     (if dtype d = TOML_TABLE
      then (case split_dot p of
              Some (a, b) \<Rightarrow> seek_loop (toml_get d a) b
            | None \<Rightarrow> toml_get d p)
      else DATUM_ZERO)"
  by pat_completeness auto
termination
  by (relation "measure (\<lambda>(d, p). length p)") (auto simp: split_dot_length)

declare seek_loop.simps [simp del]

definition toml_seek :: "datum \<Rightarrow> string \<Rightarrow> datum" where
  "toml_seek table multipart_key =
     (if dtype table \<noteq> TOML_TABLE then DATUM_ZERO
      else case copystring 256 multipart_key of
             None \<Rightarrow> DATUM_ZERO
           | Some buf \<Rightarrow> seek_loop table buf)"

section \<open>Insertion laws\<close>

text \<open>The keys of a table; a well-formed tree has distinct keys and respects the size limits.\<close>

fun tab_keys :: "datum \<Rightarrow> string list" where
  "tab_keys (DTable f kvs) = map fst kvs"
| "tab_keys d = []"

function wf_datum :: "datum \<Rightarrow> bool" where
  "wf_datum (DTable f kvs) \<longleftrightarrow>
     distinct (map fst kvs) \<and> length kvs \<le> TABLE_MAX \<and> (\<forall>kv \<in> set kvs. wf_datum (snd kv))"
| "wf_datum (DArray f xs) \<longleftrightarrow> length xs \<le> ARRAY_MAX \<and> (\<forall>x \<in> set xs. wf_datum x)"
| "wf_datum (DUnknown f) = True"
| "wf_datum (DString f s) = True"
| "wf_datum (DInt64 f i) = True"
| "wf_datum (DFp64 f x) = True"
| "wf_datum (DBoolean f b) = True"
| "wf_datum (DDate f t) = True"
| "wf_datum (DTime f t) = True"
| "wf_datum (DDatetime f t) = True"
| "wf_datum (DDatetimetz f t) = True"
  by pat_completeness auto
termination
proof (relation "measure size", goal_cases)
  case (2 f kvs kv)
  then have "size (snd kv) < Suc (size_list (size_prod (\<lambda>_. 0) size) kvs)"
    by (induction kvs) (auto split: prod.splits)
  then show ?case by (simp add: size_list_conv_sum_list)
qed (auto simp: less_Suc_eq_le size_list_estimation')

text \<open>What a table holds under a key, in terms of the C operations.\<close>

definition tab_lookup :: "datum \<Rightarrow> string \<Rightarrow> datum option" where
  "tab_lookup d key = map_option (tab_value d) (tab_find d key)"

fun tab_entries :: "datum \<Rightarrow> (string \<times> datum) list" where
  "tab_entries (DTable f kvs) = kvs"
| "tab_entries d = []"

text \<open>A table whose entries all have a type: what every successful parse step leaves behind.\<close>

definition good_value :: "datum \<Rightarrow> bool" where
  "good_value v \<longleftrightarrow> dtype v \<noteq> TOML_UNKNOWN"

definition good_table :: "datum \<Rightarrow> bool" where
  "good_table d \<longleftrightarrow>
     dtype d = TOML_TABLE \<and> distinct (map fst (tab_entries d)) \<and>
     length (tab_entries d) \<le> TABLE_MAX \<and> (\<forall>kv \<in> set (tab_entries d). good_value (snd kv))"

lemma find_slot_map_of:
  "map_of kvs k = map_option (\<lambda>i. snd (kvs ! i)) (find_slot (\<lambda>kv. fst kv = k) kvs)"
  by (induction kvs) (auto simp: option.map_comp comp_def)

lemma tab_lookup_map_of: "tab_lookup (DTable f kvs) k = map_of kvs k"
proof (cases "find_slot (\<lambda>kv. fst kv = k) kvs")
  case (Some i)
  with find_slot_SomeD [OF this] show ?thesis by (simp add: tab_lookup_def find_slot_map_of)
qed (simp add: tab_lookup_def find_slot_map_of)

lemma tab_add_new:
  assumes "map_of kvs k = None" and "length kvs < TABLE_MAX"
  shows "tab_add (DTable f kvs) k v = Inr (DTable f (kvs @ [(k, v)]))"
proof -
  have "find_slot (\<lambda>kv. fst kv = k) kvs = None"
    using assms(1) by (simp add: find_slot_map_of)
  with assms(2) show ?thesis by (simp add: tab_add_def nth_append)
qed

lemma tab_add_full:
  "map_of kvs k = None \<Longrightarrow> TABLE_MAX \<le> length kvs \<Longrightarrow> tab_add (DTable f kvs) k v = Inl ''table too large''"
  by (simp add: tab_add_def find_slot_map_of)

lemma tab_add_dup:
  assumes "map_of kvs k = Some w" and "good_value w"
  shows "tab_add (DTable f kvs) k v = Inl ''duplicate key''"
proof -
  obtain i where i: "find_slot (\<lambda>kv. fst kv = k) kvs = Some i" "snd (kvs ! i) = w"
    using assms(1) by (auto simp: find_slot_map_of)
  with find_slot_SomeD [OF i(1)] assms(2) show ?thesis
    by (simp add: tab_add_def good_value_def)
qed

interpretation tab: dictionary tab_lookup tab_add tab_entries good_table good_value TABLE_MAX
  "''duplicate key''" "''table too large''"
proof unfold_locales
  fix t :: datum and k :: string and v :: datum
  assume inv: "good_table t"
  then obtain f kvs where t: "t = DTable f kvs" by (auto simp: good_table_def dtype_table)
  show "tab_lookup t k = map_of (tab_entries t) k" using t by (simp add: tab_lookup_map_of)
  show "distinct (map fst (tab_entries t))" "length (tab_entries t) \<le> TABLE_MAX"
    using inv by (auto simp: good_table_def)
  show "good_value v \<Longrightarrow> tab_lookup t k = None \<Longrightarrow> length (tab_entries t) < TABLE_MAX \<Longrightarrow>
      \<exists>t'. tab_add t k v = Inr t' \<and> good_table t' \<and> tab_entries t' = tab_entries t @ [(k, v)]"
    using inv t by (auto simp: tab_lookup_map_of tab_add_new good_table_def map_of_eq_None_iff)
  show "tab_lookup t k = None \<Longrightarrow> length (tab_entries t) = TABLE_MAX \<Longrightarrow>
      tab_add t k v = Inl ''table too large''"
    using t by (simp add: tab_lookup_map_of tab_add_full)
  show "tab_lookup t k \<noteq> None \<Longrightarrow> tab_add t k v = Inl ''duplicate key''"
    using inv t by (auto simp: tab_lookup_map_of good_table_def dest: map_of_SomeD
        intro!: tab_add_dup)
qed

text \<open>Adding a key, in terms of lookups.\<close>

lemma table_insert:
  assumes "good_table t" and "good_value v"
  shows "(case tab_add t k v of
      Inr t' \<Rightarrow> tab_lookup t k = None \<and> length (tab_entries t) < TABLE_MAX \<and> good_table t' \<and>
        tab_lookup t' = (tab_lookup t)(k \<mapsto> v)
    | Inl reason \<Rightarrow> reason = (if tab_lookup t k \<noteq> None then ''duplicate key'' else ''table too large'') \<and>
        (tab_lookup t k \<noteq> None \<or> length (tab_entries t) = TABLE_MAX))"
proof (cases "tab_add t k v")
  case (Inl reason)
  show ?thesis
  proof (cases "tab_lookup t k = None")
    case True
    then have "length (tab_entries t) = TABLE_MAX"
      using tab.insert_new [OF assms True] tab.entries_limit [OF assms(1)] Inl by fastforce
    with True Inl tab.insert_full [OF assms(1) True] show ?thesis by simp
  next
    case False
    with Inl tab.insert_dup [OF assms(1) False] show ?thesis by simp
  qed
next
  case (Inr t')
  with tab.insert_InrD [OF assms Inr] tab.lookup_insert [OF assms Inr] show ?thesis by simp
qed

section \<open>Query laws\<close>

text \<open>\<open>toml_get\<close> is the lookup of a key, for keys without embedded NULs.\<close>

definition c_keys :: "datum \<Rightarrow> bool" where
  "c_keys d \<longleftrightarrow> (\<forall>kv \<in> set (tab_entries d). NUL \<notin> set (fst kv))"

lemma get_loop_map_of:
  "\<forall>kv \<in> set kvs. NUL \<notin> set (fst kv) \<Longrightarrow> NUL \<notin> set key \<Longrightarrow>
     get_loop kvs key = (case map_of kvs key of None \<Rightarrow> DATUM_ZERO | Some v \<Rightarrow> v)"
  by (induction kvs) auto

lemma toml_get_lookup:
  assumes "c_keys d" and "NUL \<notin> set key"
  shows "toml_get d key = (case tab_lookup d key of None \<Rightarrow> DATUM_ZERO | Some v \<Rightarrow> v)"
  using assms
  by (cases d) (auto simp: c_keys_def get_loop_map_of tab_lookup_map_of, simp_all add: tab_lookup_def)

lemma toml_get_nontable [simp]: "dtype d \<noteq> TOML_TABLE \<Longrightarrow> toml_get d key = DATUM_ZERO"
  by (cases d) auto

text \<open>The path a dotted key denotes, and the value at a path.\<close>

function split_dots :: "string \<Rightarrow> string list" where
  "split_dots p = (case split_dot p of None \<Rightarrow> [p] | Some (a, b) \<Rightarrow> a # split_dots b)"
  by pat_completeness auto
termination
  by (relation "measure length") (auto simp: split_dot_length)

declare split_dots.simps [simp del]

primrec path_get :: "datum \<Rightarrow> string list \<Rightarrow> datum" where
  "path_get d [] = d"
| "path_get d (k # ks) = path_get (toml_get d k) ks"

lemma path_get_zero [simp]: "path_get DATUM_ZERO ks = DATUM_ZERO"
  by (induction ks) auto

lemma split_dots_nonempty: "split_dots p \<noteq> []"
  by (subst split_dots.simps) (auto split: option.splits)

lemma seek_loop_path: "seek_loop d p = path_get d (split_dots p)"
proof (induction d p rule: seek_loop.induct)
  case (1 d p)
  show ?case
  proof (cases "dtype d = TOML_TABLE")
    case True
    with 1 show ?thesis
      by (simp add: seek_loop.simps [of d p] split_dots.simps [of p] split: option.splits)
  next
    case False
    then show ?thesis
      using split_dots_nonempty [of p] by (cases "split_dots p") (simp_all add: seek_loop.simps [of d p])
  qed
qed

lemma split_dot_none: "CHR ''.'' \<notin> set a \<Longrightarrow> split_dot a = None"
  by (induction a) auto

lemma split_dot_append: "CHR ''.'' \<notin> set a \<Longrightarrow> split_dot (a @ CHR ''.'' # b) = Some (a, b)"
  by (induction a) auto

lemma split_dots_single: "CHR ''.'' \<notin> set a \<Longrightarrow> split_dots a = [a]"
  by (simp add: split_dots.simps [of a] split_dot_none)

lemma split_dots_append: "CHR ''.'' \<notin> set a \<Longrightarrow> split_dots (a @ CHR ''.'' # b) = a # split_dots b"
  by (simp add: split_dots.simps [of "a @ CHR ''.'' # b"] split_dot_append)

lemma toml_seek_eq:
  "length p \<le> 255 \<Longrightarrow> NUL \<notin> set p \<Longrightarrow> toml_seek d p = path_get d (split_dots p)"
  using split_dots_nonempty [of p]
  by (cases "split_dots p") (auto simp: toml_seek_def copystring_def seek_loop_path)

lemma toml_seek_long: "255 < length (cstr p) \<Longrightarrow> toml_seek d p = DATUM_ZERO"
  by (simp add: toml_seek_def copystring_def)

lemma toml_seek_field:
  assumes "length u + length f \<le> 254" and "NUL \<notin> set u" and "NUL \<notin> set f"
    and "CHR ''.'' \<notin> set u" and "CHR ''.'' \<notin> set f"
  shows "toml_seek d (u @ CHR ''.'' # f) = toml_get (toml_get d u) f"
  using assms by (subst toml_seek_eq) (auto simp: split_dots_append split_dots_single)

end
