(* ===== verification/Config.thy ===== *)
theory Config
  imports Main
begin

text \<open>The paths compiled into every program (\<open>src/src/config.h\<close>).\<close>

definition CONFIG_PATH :: string where
  "CONFIG_PATH = ''/etc/caal/caal.toml''"

definition SESSION_DIR :: string where
  "SESSION_DIR = ''/var/lib/caal/sessions''"

definition CAALD_PID_PATH :: string where
  "CAALD_PID_PATH = ''/run/caald.pid''"

definition CAALD_SOCK_PATH :: string where
  "CAALD_SOCK_PATH = ''/run/caald.sock''"

end
