(* ===== verification/Daemon.thy ===== *)
theory Daemon
  imports Sessions Toml_Datum Config
begin

text \<open>
  The daemon process (\<open>src/src/caald.c\<close>): configuration reload, dispatch of one client, the
  accept loop and the start-up sequence of \<open>main\<close>.  The configuration file enters as the
  outcome of opening and parsing it; allocation success, accepted connections, their bytes
  and the arrival of \<open>SIGHUP\<close> are chosen by the environment.
\<close>

section \<open>Reloading the configuration\<close>

datatype cfg_read = CfgMissing | CfgBad | CfgOk datum

text \<open>The value of \<open>max_sessions\<close> in the file, after the cast of the \<open>int64\<close> to \<open>int\<close>.\<close>

definition config_max :: "datum \<Rightarrow> int" where
  "config_max toptab =
     (case toml_seek toptab ''max_sessions'' of
        DInt64 f i \<Rightarrow> if 0 < sint i then sint (ucast i :: 32 word) else 1024
      | _ \<Rightarrow> 1024)"

definition reload_config :: "cfg_read \<Rightarrow> bool \<Rightarrow> daemon \<Rightarrow> daemon \<times> effect list" where
  "reload_config cfg alloc_ok d =
     (case cfg of
        CfgMissing \<Rightarrow> (d, [SysLog ''[reload] could not open config''])
      | CfgBad \<Rightarrow> (d, [SysLog ''[reload] could not parse config, keeping current values''])
      | CfgOk toptab \<Rightarrow>
          let new_max = config_max toptab; old_max = int (max_sessions d) in
          if new_max = old_max
          then (d, [SysLog (''[reload] max_sessions unchanged ('' @ show_int old_max @ '')'')])
          else if new_max < old_max
          then (d, [SysLog (''[reload] new max_sessions ('' @ show_int new_max @
                      '') is lower than current ('' @ show_int old_max @ ''), ignoring shrink'')])
          else if \<not> alloc_ok
          then (d, [SysLog ''[reload] realloc failed, keeping current table''])
          else (d\<lparr>sessions := sessions d @ replicate (nat (new_max - old_max)) session0,
                  max_sessions := nat new_max\<rparr>,
                [SysLog (''[reload] max_sessions updated to '' @ show_int new_max)]))"

section \<open>One client\<close>

definition reply :: "chan \<Rightarrow> daemon \<times> response \<times> effect list \<Rightarrow> daemon \<times> chan \<times> effect list" where
  "reply ch r = (case r of (d, resp, es) \<Rightarrow> (d, snd (write_all ch (enc_response resp)), es))"

definition handle_client :: "64 word \<Rightarrow> daemon \<Rightarrow> chan \<Rightarrow> daemon \<times> chan \<times> effect list" where
  "handle_client now d ch =
     (case read_all ch REQUEST_SIZE of
        (None, ch1) \<Rightarrow> (d, ch1, [])
      | (Some b, ch1) \<Rightarrow>
          let req = dec_request b; resp = response0 in
          case msg_type_of (rq_type req) of
            Some CAALD_SESSION_REGISTER \<Rightarrow> reply ch1 (handle_register now req d resp)
          | Some CAALD_SESSION_UNREGISTER \<Rightarrow> reply ch1 (handle_unregister req d resp)
          | Some CAALD_SESSION_COUNT \<Rightarrow> reply ch1 (d, handle_count d resp, [])
          | Some CAALD_SESSION_LIST \<Rightarrow> (d, fst (handle_list d ch1 resp), [])
          | Some CAALD_SESSION_KILL \<Rightarrow> reply ch1 (handle_kill req d resp)
          | Some CAALD_SESSION_KILL_USER \<Rightarrow> reply ch1 (handle_kill_user req d resp)
          | None \<Rightarrow> reply ch1 (d, set_error resp ''unknown type'', []))"

section \<open>The accept loop\<close>

record dsys =
  dm :: daemon
  g_reload_config :: bool

text \<open>
  What the environment does: deliver \<open>SIGHUP\<close>, or let one iteration of the loop run with a
  given configuration file, allocator answer and result of \<open>accept\<close> (nothing: it failed or
  was interrupted; otherwise the time and the descriptor).
\<close>

datatype devent = Sighup | Iteration cfg_read bool "(64 word \<times> chan) option"

definition on_sighup :: "dsys \<Rightarrow> dsys" where
  "on_sighup s = s\<lparr>g_reload_config := True\<rparr>"

definition loop_reload :: "cfg_read \<Rightarrow> bool \<Rightarrow> dsys \<Rightarrow> dsys \<times> effect list" where
  "loop_reload cfg alloc_ok s =
     (if g_reload_config s
      then (let (d, es) = reload_config cfg alloc_ok (dm s)
            in (\<lparr>dm = d, g_reload_config = False\<rparr>, es))
      else (s, []))"

definition loop_body :: "cfg_read \<Rightarrow> bool \<Rightarrow> (64 word \<times> chan) option \<Rightarrow> dsys \<Rightarrow>
    dsys \<times> chan option \<times> effect list" where
  "loop_body cfg alloc_ok conn s =
     (let (s1, es1) = loop_reload cfg alloc_ok s in
      case conn of
        None \<Rightarrow> (s1, None, es1)
      | Some (now, ch) \<Rightarrow>
          let (d, ch', es2) = handle_client now (dm s1) ch
          in (s1\<lparr>dm := d\<rparr>, Some ch', es1 @ es2))"

inductive dstep :: "dsys \<Rightarrow> devent \<Rightarrow> effect list \<Rightarrow> dsys \<Rightarrow> bool" where
  sighup: "dstep s Sighup [] (on_sighup s)"
| iteration: "loop_body cfg alloc_ok conn s = (s', ch, es) \<Longrightarrow>
    dstep s (Iteration cfg alloc_ok conn) es s'"

inductive_cases dstep_sighupE: "dstep s Sighup es s'"
inductive_cases dstep_iterationE: "dstep s (Iteration cfg alloc_ok conn) es s'"
inductive_simps dstep_simps: "dstep s ev es s'"

section \<open>Start-up\<close>

record boot_env =
  open_pid_ok :: bool
  flock_ok :: bool
  fork_result :: int
  own_pid :: int
  socket_ok :: bool
  bind_ok :: bool
  listen_ok :: bool
  boot_cfg :: cfg_read
  boot_alloc_ok :: bool

datatype boot_call =
    CallOpen string | CallFlock | CallFork | CallSetsid | CallChdir string | CallCloseStd
  | CallTruncate | CallWritePid string | CallSocket | CallUnlink string | CallBind string
  | CallChmod string nat | CallListen nat | CallSigaction string

datatype boot_result = Exited int | Accepting dsys

text \<open>
  \<open>main\<close> in three stretches: up to the daemon process, the socket, and the session table.
  The mode \<open>384\<close> is the octal \<open>0600\<close> of the source.
\<close>

definition caald_serve :: "boot_env \<Rightarrow> boot_call list \<times> boot_result" where
  "caald_serve e =
     (let (d, es) = reload_config (boot_cfg e) (boot_alloc_ok e) daemon0 in
      if sessions d = [] then ([], Exited 1)
      else ([CallSigaction ''SIGHUP''], Accepting \<lparr>dm = d, g_reload_config = False\<rparr>))"

definition caald_socket :: "boot_env \<Rightarrow> boot_call list \<times> boot_result" where
  "caald_socket e =
     (if \<not> socket_ok e then ([CallSocket], Exited 1)
      else if \<not> bind_ok e
      then ([CallSocket, CallUnlink CAALD_SOCK_PATH, CallBind CAALD_SOCK_PATH], Exited 1)
      else if \<not> listen_ok e
      then ([CallSocket, CallUnlink CAALD_SOCK_PATH, CallBind CAALD_SOCK_PATH,
             CallChmod CAALD_SOCK_PATH 384, CallListen 128], Exited 1)
      else (let (calls, r) = caald_serve e in
            ([CallSocket, CallUnlink CAALD_SOCK_PATH, CallBind CAALD_SOCK_PATH,
              CallChmod CAALD_SOCK_PATH 384, CallListen 128] @ calls, r)))"

definition caald_main :: "boot_env \<Rightarrow> boot_call list \<times> boot_result" where
  "caald_main e =
     (if \<not> open_pid_ok e then ([CallOpen CAALD_PID_PATH], Exited 1)
      else if \<not> flock_ok e then ([CallOpen CAALD_PID_PATH, CallFlock], Exited 0)
      else if fork_result e \<noteq> 0 then ([CallOpen CAALD_PID_PATH, CallFlock, CallFork], Exited 0)
      else (let (calls, r) = caald_socket e in
            ([CallOpen CAALD_PID_PATH, CallFlock, CallFork, CallSetsid, CallChdir ''/'', CallCloseStd,
              CallTruncate, CallWritePid (show_int (own_pid e) @ [CHR 0x0A])] @ calls, r)))"

text \<open>The states of the accept loop that can be reached from some start-up.\<close>

inductive reachable :: "dsys \<Rightarrow> bool" where
  boot: "caald_main e = (calls, Accepting s) \<Longrightarrow> reachable s"
| step: "reachable s \<Longrightarrow> dstep s ev es s' \<Longrightarrow> reachable s'"

section \<open>Properties of reloading\<close>

lemma config_max_range: "- (2 ^ 31) \<le> config_max t" "config_max t < 2 ^ 31"
proof -
  have "- (2 ^ 31) \<le> sint (w :: 32 word) \<and> sint w < 2 ^ 31" for w
    using sint_ge [of w] sint_lt [of w] by simp
  then show "- (2 ^ 31) \<le> config_max t" "config_max t < 2 ^ 31"
    by (auto simp: config_max_def split: datum.splits)
qed

text \<open>What a reload can do: nothing, or append inactive slots up to the configured number.\<close>

lemma reload_cases:
  assumes "reload_config cfg alloc_ok d = (d', es)"
  obtains "d' = d"
  | toptab where "cfg = CfgOk toptab" "alloc_ok" "int (max_sessions d) < config_max toptab"
      "d' = d\<lparr>sessions := sessions d @ replicate (nat (config_max toptab) - max_sessions d) session0,
              max_sessions := nat (config_max toptab)\<rparr>"
  using assms
  by (auto simp: reload_config_def Let_def nat_diff_distrib' split: cfg_read.splits if_splits)

lemma reload_wf:
  assumes "wf_daemon d" and "reload_config cfg alloc_ok d = (d', es)"
  shows "wf_daemon d'" "live d' = live d" "active d' = active d" "max_sessions d \<le> max_sessions d'"
proof -
  have "wf_daemon d' \<and> live d' = live d \<and> active d' = active d \<and> max_sessions d \<le> max_sessions d'"
    using assms(2)
  proof (cases rule: reload_cases)
    case 1
    with assms(1) show ?thesis by simp
  next
    case (2 toptab)
    have wf: "wf_daemon d'"
      using 2 assms(1) by (auto simp: wf_daemon_def list_all_iff session0_def
          wf_session_def fits_def)
    have "filter s_active (replicate n session0) = []" for n by (simp add: session0_def)
    then have "active d' = active d"
      using 2 active_all [OF wf] active_all [OF assms(1)] by simp
    with 2 wf show ?thesis by (simp add: live_def)
  qed
  then show "wf_daemon d'" "live d' = live d" "active d' = active d" "max_sessions d \<le> max_sessions d'"
    by auto
qed

lemma reload_bound:
  assumes "reload_config cfg alloc_ok d = (d', es)" and "max_sessions d < 2 ^ 31"
  shows "max_sessions d' < 2 ^ 31"
  using assms(1)
proof (cases rule: reload_cases)
  case (2 toptab)
  then show ?thesis using config_max_range(2) [of toptab] by auto
qed (use assms(2) in simp)

section \<open>Properties of one client\<close>

text \<open>
  What one request does, without the channel: new table, bytes to send, other effects.  The
  bytes of \<open>LIST\<close> are the header and then one struct per active session.
\<close>

definition list_bytes :: "daemon \<Rightarrow> byte list" where
  "list_bytes d =
     enc_response (response0\<lparr>rs_ok := 1, rs_count := of_nat (length (active d))\<rparr>) @
     concat (map (\<lambda>s. enc_info (info_of s)) (active d))"

definition serve :: "64 word \<Rightarrow> daemon \<Rightarrow> request \<Rightarrow> daemon \<times> byte list \<times> effect list" where
  "serve now d req =
     (let answer = (\<lambda>(d', resp, es). (d', enc_response resp, es)) in
      case msg_type_of (rq_type req) of
        Some CAALD_SESSION_REGISTER \<Rightarrow> answer (handle_register now req d response0)
      | Some CAALD_SESSION_UNREGISTER \<Rightarrow> answer (handle_unregister req d response0)
      | Some CAALD_SESSION_COUNT \<Rightarrow> answer (d, handle_count d response0, [])
      | Some CAALD_SESSION_LIST \<Rightarrow> (d, list_bytes d, [])
      | Some CAALD_SESSION_KILL \<Rightarrow> answer (handle_kill req d response0)
      | Some CAALD_SESSION_KILL_USER \<Rightarrow> answer (handle_kill_user req d response0)
      | None \<Rightarrow> answer (d, set_error response0 ''unknown type'', []))"

lemma wf_info_of [simp]: "wf_info (info_of s)"
  by (simp add: wf_info_def info_of_def)

lemma send_infos_filter: "send_infos ch ss = send_infos ch (filter s_active ss)"
  by (induction ss arbitrary: ch) auto

lemma send_infos_willing:
  assumes "willing (INFO_SIZE * length (filter s_active ss)) ch"
  shows "out (send_infos ch ss) = out ch @ concat (map (\<lambda>s. enc_info (info_of s)) (filter s_active ss))"
  using assms
proof (induction ss arbitrary: ch)
  case (Cons s ss)
  show ?case
  proof (cases "s_active s")
    case True
    have len: "length (enc_info (info_of s)) = INFO_SIZE" by (simp add: si.enc_length)
    have "willing (length (enc_info (info_of s)) + INFO_SIZE * length (filter s_active ss)) ch"
      using Cons.prems True len by simp
    note w = write_all_willing [OF this]
    from Cons.IH [OF w(3)] w(2) True show ?thesis by simp
  next
    case False
    with Cons show ?thesis by simp
  qed
qed simp

lemma send_infos_prefix:
  "\<exists>k. out (send_infos ch ss) = out ch @ k"
proof (induction ss arbitrary: ch)
  case (Cons s ss)
  obtain j where "out (snd (write_all ch (enc_info (info_of s)))) = out ch @ take j (enc_info (info_of s))"
    using write_all_prefix by blast
  with Cons.IH [of "snd (write_all ch (enc_info (info_of s)))"] Cons.IH [of ch] show ?case
    by (cases "s_active s") auto
qed simp

lemma handle_list_bytes:
  assumes "willing (RESPONSE_SIZE + INFO_SIZE * length (active d)) ch"
  shows "out (fst (handle_list d ch response0)) = out ch @ list_bytes d"
proof -
  let ?r = "response0\<lparr>rs_ok := 1, rs_count := of_nat (length (active d))\<rparr>"
  have "wf_response ?r" by (simp add: wf_response_def response0_def)
  then have len: "length (enc_response ?r) = RESPONSE_SIZE" by (rule rs.enc_length)
  have "willing (length (enc_response ?r) + INFO_SIZE * length (active d)) ch"
    using assms len by simp
  note w = write_all_willing [OF this]
  show ?thesis
    using send_infos_willing [of "used d" "snd (write_all ch (enc_response ?r))"] w
    by (simp add: handle_list_def list_bytes_def Let_def flip: active_def)
qed

text \<open>
  \<open>handle_client\<close> refines \<open>serve\<close>: on a full request it makes exactly the state change
  and effects of \<open>serve\<close>, and a peer that keeps reading receives exactly its bytes.
\<close>

lemma handle_client_state:
  assumes "wf_request req" and "avail (rx ch) = enc_request req @ rest"
  shows "fst (handle_client now d ch) = fst (serve now d req)"
    "snd (snd (handle_client now d ch)) = snd (snd (serve now d req))"
proof -
  obtain ch' where "read_all ch REQUEST_SIZE = (Some (enc_request req), ch')"
    using rq.recv_one [OF assms] by auto
  then show "fst (handle_client now d ch) = fst (serve now d req)"
    "snd (snd (handle_client now d ch)) = snd (snd (serve now d req))"
    using assms(1)
    by (auto simp: handle_client_def serve_def rq.dec_enc Let_def reply_def case_prod_unfold
        split: option.splits msg_type.splits)
qed

lemma set_error_wf [simp]: "wf_response r \<Longrightarrow> wf_response (set_error r m)"
  by (simp add: wf_response_def set_error_def CAALD_MAX_STR_def)

lemma response_update_wf [simp]:
  "wf_response (r\<lparr>rs_ok := a\<rparr>) = wf_response r" "wf_response (r\<lparr>rs_count := n\<rparr>) = wf_response r"
  by (simp_all add: wf_response_def)

lemma handler_response_wf:
  assumes "wf_response resp"
  shows "wf_response (fst (snd (handle_register now req d resp)))"
    "wf_response (fst (snd (handle_unregister req d resp)))"
    "wf_response (handle_count d resp)"
    "wf_response (fst (snd (handle_kill req d resp)))"
    "wf_response (fst (snd (handle_kill_user req d resp)))"
  using assms
  by (auto simp: table_defs handle_count_def Let_def case_prod_unfold split: option.splits)

lemma handle_client_bytes:
  assumes "wf_request req" and "avail (rx ch) = enc_request req @ rest"
    and "willing (length (fst (snd (serve now d req)))) ch"
  shows "out (fst (snd (handle_client now d ch))) = out ch @ fst (snd (serve now d req))"
proof -
  obtain ch' where ch': "read_all ch REQUEST_SIZE = (Some (enc_request req), ch')"
    "tx ch' = tx ch" "out ch' = out ch"
    using rq.recv_one [OF assms(1,2)] by auto
  have single: "out (fst (snd (reply ch' r))) = out ch @ enc_response (fst (snd r))"
    if "willing (length (enc_response (fst (snd r)))) ch" for r
    using write_all_willing(2) [of "enc_response (fst (snd r))" 0 ch'] that ch'(2,3)
    by (simp add: reply_def willing_def case_prod_unfold)
  have lb: "length (list_bytes d) = RESPONSE_SIZE + INFO_SIZE * length (active d)"
    using rs.enc_length [of "response0\<lparr>rs_ok := 1, rs_count := of_nat (length (active d))\<rparr>"]
      si.concat_length [of "map info_of (active d)"]
    by (simp add: list_bytes_def comp_def)
  have lst: "out (fst (handle_list d ch' response0)) = out ch @ list_bytes d"
    if "willing (length (list_bytes d)) ch"
    using handle_list_bytes [of d ch'] that ch'(2,3) lb by (simp add: willing_def)
  show ?thesis
    using assms(1,3) ch'(1) single lst
    by (auto simp: handle_client_def serve_def rq.dec_enc Let_def case_prod_unfold
        split: option.splits msg_type.splits)
qed

lemma handle_client_short:
  assumes "length (avail (rx ch)) < REQUEST_SIZE"
  shows "fst (handle_client now d ch) = d \<and> out (fst (snd (handle_client now d ch))) = out ch \<and>
     snd (snd (handle_client now d ch)) = []"
proof -
  have "fst (read_all ch REQUEST_SIZE) = None" using assms by (rule read_all_short)
  then show ?thesis
    using read_all_frame(2) [of ch REQUEST_SIZE]
    by (cases "read_all ch REQUEST_SIZE") (simp add: handle_client_def)
qed

text \<open>Every client, whatever it sends, leaves a well-formed table of the same capacity.\<close>

lemma serve_wf:
  assumes "wf_daemon d"
  shows "wf_daemon (fst (serve now d req)) \<and> max_sessions (fst (serve now d req)) = max_sessions d"
proof -
  have reg: "wf_daemon (fst (handle_register now req d response0)) \<and>
      max_sessions (fst (handle_register now req d response0)) = max_sessions d"
    using unreg.enter_inv [OF assms, of "(now, req)"] by (simp add: tab_enter_def case_prod_unfold Let_def)
  have unr: "wf_daemon (fst (handle_unregister req d response0)) \<and>
      max_sessions (fst (handle_unregister req d response0)) = max_sessions d"
    using unreg.leave_inv [OF assms, of req] by (simp add: tab_leave_def case_prod_unfold Let_def)
  have kl: "wf_daemon (fst (handle_kill req d response0)) \<and>
      max_sessions (fst (handle_kill req d response0)) = max_sessions d"
    using kil.leave_inv [OF assms, of req] by (simp add: tab_kill_def case_prod_unfold Let_def)
  have ku: "wf_daemon (fst (handle_kill_user req d response0)) \<and>
      max_sessions (fst (handle_kill_user req d response0)) = max_sessions d"
    using unreg.evict_inv [OF assms, of req] by (simp add: tab_evict_def case_prod_unfold Let_def)
  show ?thesis
    using assms reg unr kl ku
    by (auto simp: serve_def Let_def case_prod_unfold split: option.splits msg_type.splits)
qed

lemma handle_client_wf:
  assumes "wf_daemon d"
  shows "wf_daemon (fst (handle_client now d ch)) \<and>
     max_sessions (fst (handle_client now d ch)) = max_sessions d"
proof (cases "length (avail (rx ch)) < REQUEST_SIZE")
  case True
  with assms show ?thesis using handle_client_short [OF True, of now d] by simp
next
  case False
  then obtain b ch' where r: "read_all ch REQUEST_SIZE = (Some b, ch')"
    using read_all_ok [of REQUEST_SIZE ch] by (cases "read_all ch REQUEST_SIZE") auto
  from rq.recv_ok [OF r] have ok: "wf_request (dec_request b)"
    "avail (rx ch) = enc_request (dec_request b) @ avail (rx ch')" by auto
  show ?thesis
    using serve_wf [OF assms, of now "dec_request b"] handle_client_state(1) [OF ok, of now d] by simp
qed

section \<open>The reachable states\<close>

definition daemon_inv :: "dsys \<Rightarrow> bool" where
  "daemon_inv s \<longleftrightarrow> wf_daemon (dm s) \<and> 0 < max_sessions (dm s) \<and> max_sessions (dm s) < 2 ^ 31"

lemma loop_reload_inv:
  assumes "daemon_inv s" and "loop_reload cfg alloc_ok s = (s', es)"
  shows "daemon_inv s'" "live (dm s') = live (dm s)" "max_sessions (dm s) \<le> max_sessions (dm s')"
proof -
  have "daemon_inv s' \<and> live (dm s') = live (dm s) \<and> max_sessions (dm s) \<le> max_sessions (dm s')"
  proof (cases "g_reload_config s")
    case True
    obtain d es' where r: "reload_config cfg alloc_ok (dm s) = (d, es')"
      by (cases "reload_config cfg alloc_ok (dm s)")
    with assms True have "s' = \<lparr>dm = d, g_reload_config = False\<rparr>"
      by (simp add: loop_reload_def)
    then show ?thesis
      using reload_wf [OF _ r] reload_bound [OF r] assms(1) by (auto simp: daemon_inv_def)
  qed (use assms in \<open>simp add: loop_reload_def\<close>)
  then show "daemon_inv s'" "live (dm s') = live (dm s)" "max_sessions (dm s) \<le> max_sessions (dm s')"
    by auto
qed

lemma loop_body_inv:
  assumes "daemon_inv s" and "loop_body cfg alloc_ok conn s = (s', ch, es)"
  shows "daemon_inv s'" "max_sessions (dm s) \<le> max_sessions (dm s')"
proof -
  obtain s1 es1 where r: "loop_reload cfg alloc_ok s = (s1, es1)"
    by (cases "loop_reload cfg alloc_ok s")
  note R = loop_reload_inv [OF assms(1) r]
  have "daemon_inv s' \<and> max_sessions (dm s) \<le> max_sessions (dm s')"
  proof (cases conn)
    case None
    with assms(2) r R show ?thesis by (simp add: loop_body_def)
  next
    case (Some c)
    obtain now k where c: "c = (now, k)" by (cases c)
    have "s' = s1\<lparr>dm := fst (handle_client now (dm s1) k)\<rparr>"
      using assms(2) r Some c by (auto simp: loop_body_def case_prod_unfold Let_def)
    then show ?thesis
      using R handle_client_wf [of "dm s1" now k] by (simp add: daemon_inv_def)
  qed
  then show "daemon_inv s'" "max_sessions (dm s) \<le> max_sessions (dm s')" by auto
qed

lemma dstep_inv:
  "dstep s ev es s' \<Longrightarrow> daemon_inv s \<Longrightarrow> daemon_inv s' \<and> max_sessions (dm s) \<le> max_sessions (dm s')"
proof (induction rule: dstep.induct)
  case (sighup s)
  then show ?case by (simp add: on_sighup_def daemon_inv_def)
next
  case (iteration cfg alloc_ok conn s s' ch es)
  then show ?case using loop_body_inv [OF _ iteration.hyps] by simp
qed

lemma boot_inv:
  assumes "caald_main e = (calls, Accepting s)"
  shows "daemon_inv s \<and> live (dm s) = {#} \<and> \<not> g_reload_config s"
proof -
  obtain d es where r: "reload_config (boot_cfg e) (boot_alloc_ok e) daemon0 = (d, es)"
    by (cases "reload_config (boot_cfg e) (boot_alloc_ok e) daemon0")
  have s: "s = \<lparr>dm = d, g_reload_config = False\<rparr>" "sessions d \<noteq> []"
    using assms r by (auto simp: caald_main_def caald_socket_def caald_serve_def split: if_splits)
  have wf0: "wf_daemon daemon0" by (simp add: wf_daemon_def daemon0_def)
  have "live daemon0 = {#}" by (simp add: live_def active_def daemon0_def)
  then show ?thesis
    using reload_wf [OF wf0 r] reload_bound [OF r] s
    by (cases "sessions d") (auto simp: daemon_inv_def daemon0_def wf_daemon_def)
qed

lemma reachable_inv: "reachable s \<Longrightarrow> daemon_inv s"
  by (induction rule: reachable.induct) (auto dest: boot_inv dstep_inv)

section \<open>The two readings of \<open>max_sessions\<close>\<close>

text \<open>What a boot that reaches the accept loop has done.\<close>

lemma boot_calls:
  assumes "caald_main e = (calls, Accepting s)"
  shows "calls = [CallOpen CAALD_PID_PATH, CallFlock, CallFork, CallSetsid, CallChdir ''/'', CallCloseStd,
      CallTruncate, CallWritePid (show_int (own_pid e) @ [CHR 0x0A]), CallSocket, CallUnlink CAALD_SOCK_PATH,
      CallBind CAALD_SOCK_PATH, CallChmod CAALD_SOCK_PATH 384, CallListen 128, CallSigaction ''SIGHUP''] \<and>
    flock_ok e \<and> fork_result e = 0 \<and>
    (\<exists>t. boot_cfg e = CfgOk t \<and> 0 < config_max t \<and> max_sessions (dm s) = nat (config_max t))"
proof -
  obtain d es where r: "reload_config (boot_cfg e) (boot_alloc_ok e) daemon0 = (d, es)"
    by (cases "reload_config (boot_cfg e) (boot_alloc_ok e) daemon0")
  have s: "s = \<lparr>dm = d, g_reload_config = False\<rparr>" "sessions d \<noteq> []"
    using assms r by (auto simp: caald_main_def caald_socket_def caald_serve_def split: if_splits)
  have "\<exists>t. boot_cfg e = CfgOk t \<and> 0 < config_max t \<and> max_sessions d = nat (config_max t)"
    using r
  proof (cases rule: reload_cases)
    case 1
    with s show ?thesis by (simp add: daemon0_def)
  next
    case (2 toptab)
    then show ?thesis by (auto simp: daemon0_def)
  qed
  with assms s r show ?thesis
    by (auto simp: caald_main_def caald_socket_def caald_serve_def split: if_splits)
qed

end
