(* ===== verification/Client.thy ===== *)
theory Client
  imports Daemon
begin

text \<open>
  The client library (\<open>src/src/lib/caald_client.c\<close>), used by \<open>caalsh\<close> and \<open>caalctl\<close>: one
  function per request, over a connected descriptor.  The locale \<open>rpc_server\<close> is what the
  library needs of the process at the other end; the daemon's \<open>serve\<close> provides it.
\<close>

section \<open>The library\<close>

text \<open>\<open>caald_connect\<close>: the descriptor, or nothing when \<open>socket\<close> or \<open>connect\<close> fails.\<close>

definition caald_connect :: "bool \<Rightarrow> bool \<Rightarrow> chan \<Rightarrow> chan option" where
  "caald_connect sock connected fd =
     (if \<not> sock then None else if \<not> connected then None else Some fd)"

definition send_request :: "chan \<Rightarrow> request \<Rightarrow> bool \<times> chan" where
  "send_request fd req = write_all fd (enc_request req)"

definition recv_response :: "chan \<Rightarrow> response option \<times> chan" where
  "recv_response fd =
     (case read_all fd RESPONSE_SIZE of
        (None, fd') \<Rightarrow> (None, fd')
      | (Some b, fd') \<Rightarrow> (Some (dec_response b), fd'))"

text \<open>The shape all functions share: send, give up on failure, receive, give up on failure.\<close>

definition transact :: "chan \<Rightarrow> request \<Rightarrow> response option \<times> chan" where
  "transact fd req =
     (case send_request fd req of
        (False, fd') \<Rightarrow> (None, fd')
      | (True, fd') \<Rightarrow> recv_response fd')"

definition resp_ok :: "response option \<times> chan \<Rightarrow> bool \<times> chan" where
  "resp_ok r = (case r of (None, fd) \<Rightarrow> (False, fd) | (Some resp, fd) \<Rightarrow> (rs_ok resp \<noteq> 0, fd))"

definition put_str :: "string \<Rightarrow> byte list" where
  "put_str s = strncpy_at (CAALD_MAX_STR - 1) zero_str s"

definition register_request :: "string \<Rightarrow> string \<Rightarrow> 32 word \<Rightarrow> request" where
  "register_request username container_id pid =
     request0\<lparr>rq_type := type_byte CAALD_SESSION_REGISTER, rq_username := put_str username,
              rq_container_id := put_str container_id, rq_pid := pid\<rparr>"

definition unregister_request :: "string \<Rightarrow> request" where
  "unregister_request container_id =
     request0\<lparr>rq_type := type_byte CAALD_SESSION_UNREGISTER, rq_container_id := put_str container_id\<rparr>"

definition count_request :: request where
  "count_request = request0\<lparr>rq_type := type_byte CAALD_SESSION_COUNT\<rparr>"

definition list_request :: request where
  "list_request = request0\<lparr>rq_type := type_byte CAALD_SESSION_LIST\<rparr>"

definition kill_request :: "string \<Rightarrow> request" where
  "kill_request container_id =
     request0\<lparr>rq_type := type_byte CAALD_SESSION_KILL, rq_container_id := put_str container_id\<rparr>"

definition kill_user_request :: "string \<Rightarrow> request" where
  "kill_user_request username =
     request0\<lparr>rq_type := type_byte CAALD_SESSION_KILL_USER, rq_username := put_str username\<rparr>"

lemmas request_defs = register_request_def unregister_request_def count_request_def list_request_def
  kill_request_def kill_user_request_def

definition caald_session_register :: "chan \<Rightarrow> string \<Rightarrow> string \<Rightarrow> 32 word \<Rightarrow> bool \<times> chan" where
  "caald_session_register fd username container_id pid =
     resp_ok (transact fd (register_request username container_id pid))"

definition caald_session_unregister :: "chan \<Rightarrow> string \<Rightarrow> bool \<times> chan" where
  "caald_session_unregister fd container_id = resp_ok (transact fd (unregister_request container_id))"

definition caald_session_count :: "chan \<Rightarrow> int \<times> chan" where
  "caald_session_count fd =
     (case transact fd count_request of
        (None, fd') \<Rightarrow> (-1, fd')
      | (Some resp, fd') \<Rightarrow> (if rs_ok resp \<noteq> 0 then sint (rs_count resp) else -1, fd'))"

fun read_infos :: "chan \<Rightarrow> nat \<Rightarrow> session_info list option \<times> chan" where
  "read_infos fd 0 = (Some [], fd)"
| "read_infos fd (Suc n) =
     (case read_all fd INFO_SIZE of
        (None, fd') \<Rightarrow> (None, fd')
      | (Some b, fd') \<Rightarrow>
          (case read_infos fd' n of
             (None, fd'') \<Rightarrow> (None, fd'')
           | (Some infos, fd'') \<Rightarrow> (Some (dec_info b # infos), fd'')))"

text \<open>The result and the part of the caller's array that was filled.\<close>

definition caald_session_list :: "chan \<Rightarrow> int \<Rightarrow> int \<times> session_info list \<times> chan" where
  "caald_session_list fd max_sess =
     (case transact fd list_request of
        (None, fd') \<Rightarrow> (-1, [], fd')
      | (Some resp, fd') \<Rightarrow>
          if rs_ok resp = 0 then (-1, [], fd')
          else let n = (if sint (rs_count resp) > max_sess then max_sess else sint (rs_count resp)) in
               case read_infos fd' (nat n) of
                 (None, fd'') \<Rightarrow> (-1, [], fd'')
               | (Some infos, fd'') \<Rightarrow> (n, infos, fd''))"

definition caald_session_kill :: "chan \<Rightarrow> string \<Rightarrow> bool \<times> chan" where
  "caald_session_kill fd container_id = resp_ok (transact fd (kill_request container_id))"

definition caald_session_kill_user :: "chan \<Rightarrow> string \<Rightarrow> bool \<times> chan" where
  "caald_session_kill_user fd username = resp_ok (transact fd (kill_user_request username))"

lemmas session_call_defs = caald_session_register_def caald_session_unregister_def
  caald_session_kill_def caald_session_kill_user_def

section \<open>Requests\<close>

lemma length_put_str [simp]: "length (put_str s) = CAALD_MAX_STR"
  by (simp add: put_str_def)

lemma cstr_put_str [simp]: "cstr (put_str s) = take (CAALD_MAX_STR - 1) (cstr s)"
  by (simp add: put_str_def zero_str_def cstr_strncpy_at_zero)

lemma wf_requests [simp]:
  "wf_request (register_request u c p)" "wf_request (unregister_request c)"
  "wf_request count_request" "wf_request list_request" "wf_request (kill_request c)"
  "wf_request (kill_user_request u)"
  by (simp_all add: request_defs wf_request_def request0_def)

lemma request_types [simp]:
  "rq_type (register_request u c p) = type_byte CAALD_SESSION_REGISTER"
  "rq_type (unregister_request c) = type_byte CAALD_SESSION_UNREGISTER"
  "rq_type count_request = type_byte CAALD_SESSION_COUNT"
  "rq_type list_request = type_byte CAALD_SESSION_LIST"
  "rq_type (kill_request c) = type_byte CAALD_SESSION_KILL"
  "rq_type (kill_user_request u) = type_byte CAALD_SESSION_KILL_USER"
  by (simp_all add: request_defs)

lemma request_fields [simp]:
  "cstr (rq_username (register_request u c p)) = take (CAALD_MAX_STR - 1) (cstr u)"
  "cstr (rq_container_id (register_request u c p)) = take (CAALD_MAX_STR - 1) (cstr c)"
  "rq_pid (register_request u c p) = p"
  "cstr (rq_container_id (unregister_request c)) = take (CAALD_MAX_STR - 1) (cstr c)"
  "cstr (rq_container_id (kill_request c)) = take (CAALD_MAX_STR - 1) (cstr c)"
  "cstr (rq_username (kill_user_request u)) = take (CAALD_MAX_STR - 1) (cstr u)"
  by (simp_all add: request_defs)

section \<open>What the library needs of the server\<close>

text \<open>
  The server answers a request with one response and, for \<open>LIST\<close>, the announced number of
  structs after it.
\<close>

locale rpc_server =
  fixes answer :: "'s \<Rightarrow> request \<Rightarrow> byte list"
    and resp :: "'s \<Rightarrow> request \<Rightarrow> response"
    and items :: "'s \<Rightarrow> request \<Rightarrow> session_info list"
    and inv :: "'s \<Rightarrow> bool"
  assumes answer_bytes: "inv s \<Longrightarrow>
        answer s r = enc_response (resp s r) @ concat (map enc_info (items s r))"
    and resp_wf: "inv s \<Longrightarrow> wf_response (resp s r)"
    and items_wf: "inv s \<Longrightarrow> i \<in> set (items s r) \<Longrightarrow> wf_info i"
    and list_ok: "inv s \<Longrightarrow> rq_type r = type_byte CAALD_SESSION_LIST \<Longrightarrow>
        rs_ok (resp s r) \<noteq> 0 \<and> sint (rs_count (resp s r)) = int (length (items s r))"
begin

text \<open>A descriptor on which the server in state \<open>s\<close> reads the request and answers it.\<close>

definition linked :: "'s \<Rightarrow> request \<Rightarrow> chan \<Rightarrow> bool" where
  "linked s r fd \<longleftrightarrow> willing REQUEST_SIZE fd \<and> avail (rx fd) = answer s r"

lemma transact_ok:
  assumes "inv s" and "wf_request r" and "linked s r fd"
  shows "\<exists>fd'. transact fd r = (Some (resp s r), fd') \<and> out fd' = out fd @ enc_request r \<and>
           avail (rx fd') = concat (map enc_info (items s r))"
proof -
  have "willing (length (enc_request r) + 0) fd"
    using assms by (simp add: linked_def rq.enc_length)
  note w = write_all_willing [OF this]
  obtain fd1 where send: "send_request fd r = (True, fd1)" "out fd1 = out fd @ enc_request r"
    "rx fd1 = rx fd"
    using w write_all_frame [of fd "enc_request r"]
    by (cases "write_all fd (enc_request r)") (auto simp: send_request_def)
  then have "avail (rx fd1) = enc_response (resp s r) @ concat (map enc_info (items s r))"
    using assms answer_bytes by (simp add: linked_def)
  from rs.recv_one [OF resp_wf [OF assms(1)] this]
  obtain fd2 where "read_all fd1 RESPONSE_SIZE = (Some (enc_response (resp s r)), fd2)"
    "avail (rx fd2) = concat (map enc_info (items s r))" "out fd2 = out fd1"
    by auto
  with send resp_wf [OF assms(1), of r] show ?thesis
    by (auto simp: transact_def recv_response_def rs.dec_enc)
qed

lemma call_result:
  assumes "inv s" and "wf_request r" and "linked s r fd"
  shows "fst (resp_ok (transact fd r)) = (rs_ok (resp s r) \<noteq> 0)"
    "out (snd (resp_ok (transact fd r))) = out fd @ enc_request r"
  using transact_ok [OF assms] by (auto simp: resp_ok_def)

lemma count_result:
  assumes "inv s" and "linked s count_request fd"
  shows "fst (caald_session_count fd) =
    (if rs_ok (resp s count_request) \<noteq> 0 then sint (rs_count (resp s count_request)) else -1)"
  using transact_ok [OF assms(1) _ assms(2)] by (auto simp: caald_session_count_def)

lemma read_infos_ok:
  assumes "\<forall>i \<in> set is. wf_info i" and "avail (rx fd) = concat (map enc_info is)" and "n \<le> length is"
  shows "fst (read_infos fd n) = Some (take n is)"
  using assms
proof (induction n arbitrary: "is" fd)
  case (Suc n)
  then obtain i js where "is": "is = i # js" by (cases "is") auto
  then obtain fd' where "read_all fd INFO_SIZE = (Some (enc_info i), fd')"
    "avail (rx fd') = concat (map enc_info js)"
    using si.recv_one [of i fd "concat (map enc_info js)"] Suc.prems by auto
  moreover from this have "fst (read_infos fd' n) = Some (take n js)"
    using Suc.prems "is" by (intro Suc.IH) auto
  ultimately show ?case
    using "is" Suc.prems by (cases "read_infos fd' n") (auto simp: si.dec_enc)
qed simp

lemma list_result:
  assumes "inv s" and "linked s list_request fd" and "0 \<le> m"
  shows "fst (caald_session_list fd m) = min (int (length (items s list_request))) m"
    "fst (snd (caald_session_list fd m)) = take (nat m) (items s list_request)"
proof -
  let ?is = "items s list_request"
  obtain fd' where t: "transact fd list_request = (Some (resp s list_request), fd')"
    "avail (rx fd') = concat (map enc_info ?is)"
    using transact_ok [OF assms(1) _ assms(2)] by auto
  have l: "rs_ok (resp s list_request) \<noteq> 0"
    "sint (rs_count (resp s list_request)) = int (length ?is)"
    using list_ok [OF assms(1), of list_request] by auto
  let ?n = "min (int (length ?is)) m"
  have n: "(if sint (rs_count (resp s list_request)) > m then m
      else sint (rs_count (resp s list_request))) = ?n" using l by simp
  have "fst (read_infos fd' (nat ?n)) = Some (take (nat ?n) ?is)"
    using items_wf assms(1) t(2) by (intro read_infos_ok) auto
  moreover have "take (nat ?n) ?is = take (nat m) ?is"
    using assms(3) by (cases "int (length ?is) \<le> m") (auto simp: min_def)
  ultimately show "fst (caald_session_list fd m) = ?n"
    "fst (snd (caald_session_list fd m)) = take (nat m) ?is"
    using t l n by (cases "read_infos fd' (nat ?n)"; simp add: caald_session_list_def Let_def)+
qed

end

section \<open>The daemon is such a server\<close>

definition daemon_resp :: "64 word \<times> daemon \<Rightarrow> request \<Rightarrow> response" where
  "daemon_resp s r =
     (case msg_type_of (rq_type r) of
        Some CAALD_SESSION_REGISTER \<Rightarrow> fst (snd (handle_register (fst s) r (snd s) response0))
      | Some CAALD_SESSION_UNREGISTER \<Rightarrow> fst (snd (handle_unregister r (snd s) response0))
      | Some CAALD_SESSION_COUNT \<Rightarrow> handle_count (snd s) response0
      | Some CAALD_SESSION_LIST \<Rightarrow> response0\<lparr>rs_ok := 1, rs_count := of_nat (length (active (snd s)))\<rparr>
      | Some CAALD_SESSION_KILL \<Rightarrow> fst (snd (handle_kill r (snd s) response0))
      | Some CAALD_SESSION_KILL_USER \<Rightarrow> fst (snd (handle_kill_user r (snd s) response0))
      | None \<Rightarrow> set_error response0 ''unknown type'')"

definition daemon_items :: "64 word \<times> daemon \<Rightarrow> request \<Rightarrow> session_info list" where
  "daemon_items s r =
     (if rq_type r = type_byte CAALD_SESSION_LIST then map info_of (active (snd s)) else [])"

definition daemon_answer :: "64 word \<times> daemon \<Rightarrow> request \<Rightarrow> byte list" where
  "daemon_answer s r = fst (snd (serve (fst s) (snd s) r))"

definition daemon_ok :: "64 word \<times> daemon \<Rightarrow> bool" where
  "daemon_ok s \<longleftrightarrow> wf_daemon (snd s) \<and> max_sessions (snd s) < 2 ^ 31"

lemma sint_of_nat32: "n < 2 ^ 31 \<Longrightarrow> sint (of_nat n :: 32 word) = int n"
  by (simp add: signed_of_nat signed_take_bit_int_eq_self)

lemma active_bound: "daemon_ok s \<Longrightarrow> length (active (snd s)) < 2 ^ 31"
  using live_capacity [of "snd s"] by (simp add: daemon_ok_def size_live)

interpretation caald: rpc_server daemon_answer daemon_resp daemon_items daemon_ok
proof unfold_locales
  fix s :: "64 word \<times> daemon" and r :: request and i :: session_info
  assume ok: "daemon_ok s"
  show "daemon_answer s r = enc_response (daemon_resp s r) @ concat (map enc_info (daemon_items s r))"
    by (auto simp: daemon_answer_def serve_def daemon_resp_def daemon_items_def list_bytes_def comp_def
        case_prod_unfold Let_def dest!: msg_type_of_SomeD split: option.splits msg_type.splits)
  show "wf_response (daemon_resp s r)"
    by (auto simp: daemon_resp_def handler_response_wf split: option.splits msg_type.splits)
  show "i \<in> set (daemon_items s r) \<Longrightarrow> wf_info i"
    by (auto simp: daemon_items_def split: if_splits)
  show "rq_type r = type_byte CAALD_SESSION_LIST \<Longrightarrow>
      rs_ok (daemon_resp s r) \<noteq> 0 \<and> sint (rs_count (daemon_resp s r)) = int (length (daemon_items s r))"
    using sint_of_nat32 [OF active_bound [OF ok]] by (simp add: daemon_resp_def daemon_items_def)
qed

end
