(* ===== verification/Service.thy ===== *)
theory Service
  imports Client
begin

text \<open>
  The session service as its clients see it: sequences of requests served by the daemon,
  mapped to the operations of the store contract, and each library call against the daemon
  at the other end of its descriptor.
\<close>

section \<open>Sequences of requests\<close>

text \<open>The store operation that a request stands for; the other types leave the table alone.\<close>

definition op_of :: "64 word \<times> request \<Rightarrow> (64 word \<times> request, request) store_op option" where
  "op_of a =
     (case msg_type_of (rq_type (snd a)) of
        Some CAALD_SESSION_REGISTER \<Rightarrow> Some (Enter a)
      | Some CAALD_SESSION_UNREGISTER \<Rightarrow> Some (Leave (snd a))
      | Some CAALD_SESSION_KILL \<Rightarrow> Some (Leave (snd a))
      | Some CAALD_SESSION_KILL_USER \<Rightarrow> Some (Evict (snd a))
      | _ \<Rightarrow> None)"

fun serve_all :: "(64 word \<times> request) list \<Rightarrow> daemon \<Rightarrow> daemon" where
  "serve_all [] d = d"
| "serve_all (a # as) d = serve_all as (fst (serve (fst a) d (snd a)))"

lemma serve_step:
  "fst (serve (fst a) d (snd a)) =
     (case op_of a of None \<Rightarrow> d | Some op \<Rightarrow> store_step tab_enter tab_leave tab_evict op d)"
proof -
  have kl: "fst (handle_kill r d response0) = fst (tab_leave r d)" for r
    using tab_kill_leave by (simp add: tab_kill_def tab_leave_def fun_eq_iff case_prod_unfold Let_def)
  show ?thesis
    by (auto simp: op_of_def serve_def Let_def case_prod_unfold tab_enter_def tab_leave_def tab_evict_def kl
        split: option.split msg_type.split)
qed

lemma serve_all_run:
  "serve_all as d = fold (store_step tab_enter tab_leave tab_evict) (List.map_filter op_of as) d"
  by (induction as arbitrary: d) (auto simp: serve_step List.map_filter_simps split: option.split)

text \<open>A request that may end the session of this ID and user.\<close>

definition aimed_at :: "string \<Rightarrow> string \<Rightarrow> request \<Rightarrow> bool" where
  "aimed_at cid user r \<longleftrightarrow>
     (msg_type_of (rq_type r) \<in> {Some CAALD_SESSION_UNREGISTER, Some CAALD_SESSION_KILL} \<and>
        cstr (rq_container_id r) = cid) \<or>
     (msg_type_of (rq_type r) = Some CAALD_SESSION_KILL_USER \<and> cstr (rq_username r) = user)"

lemma aimed_at_store:
  assumes "\<forall>a \<in> set as. \<not> aimed_at (s_container_id e) (s_username e) (snd a)"
  shows "\<forall>op \<in> set (List.map_filter op_of as). \<not> unreg.aimed e op"
  using assms
  by (induction as)
    (auto simp: op_of_def aimed_at_def unreg.aimed_def List.map_filter_simps
      split: option.splits msg_type.splits)

lemma serve_all_inv: "wf_daemon d \<Longrightarrow> wf_daemon (serve_all as d) \<and> max_sessions (serve_all as d) = max_sessions d"
  unfolding serve_all_run by (rule unreg.run_inv)

lemma serve_all_survives:
  assumes "wf_daemon d" and "s \<in># live d"
    and "\<forall>a \<in> set as. \<not> aimed_at (s_container_id s) (s_username s) (snd a)"
  shows "s \<in># live (serve_all as d)"
  unfolding serve_all_run by (rule unreg.run_survives [OF assms(1,2) aimed_at_store [OF assms(3)]])

section \<open>Library calls against the daemon\<close>

text \<open>
  A descriptor whose other end is the daemon in state \<open>d\<close> at time \<open>now\<close>: it accepts the
  request and the bytes that come back are those that the daemon sends for it.
\<close>

definition connected :: "64 word \<Rightarrow> daemon \<Rightarrow> request \<Rightarrow> chan \<Rightarrow> bool" where
  "connected now d r fd \<longleftrightarrow> caald.linked (now, d) r fd"

definition served :: "64 word \<Rightarrow> daemon \<Rightarrow> request \<Rightarrow> daemon" where
  "served now d r = fst (serve now d r)"

lemma daemon_okI: "wf_daemon d \<Longrightarrow> max_sessions d < 2 ^ 31 \<Longrightarrow> daemon_ok (now, d)"
  by (simp add: daemon_ok_def)

lemma call_daemon:
  assumes "wf_daemon d" and "max_sessions d < 2 ^ 31" and "wf_request r" and "connected now d r fd"
  shows "fst (resp_ok (transact fd r)) = (rs_ok (daemon_resp (now, d) r) \<noteq> 0)"
    "out (snd (resp_ok (transact fd r))) = out fd @ enc_request r"
  using caald.call_result [OF daemon_okI [OF assms(1,2)] assms(3)] assms(4)
  by (simp_all add: connected_def)

text \<open>The session that a registration through the library creates.\<close>

definition registered :: "64 word \<Rightarrow> string \<Rightarrow> string \<Rightarrow> 32 word \<Rightarrow> session" where
  "registered now u c pid =
     \<lparr>s_username = take (CAALD_MAX_STR - 1) (cstr u), s_container_id = take (CAALD_MAX_STR - 1) (cstr c),
      s_pid = pid, s_start_time = now, s_active = True\<rparr>"

lemma snprintf_put_str: "snprintf_s CAALD_MAX_STR (put_str s) = take (CAALD_MAX_STR - 1) (cstr s)"
  by (simp add: snprintf_s_def)

lemma new_session_registered: "new_session now (register_request u c pid) = registered now u c pid"
  by (simp add: new_session_def registered_def register_request_def snprintf_put_str)

lemma served_register:
  "served now d (register_request u c pid) = fst (tab_enter (now, register_request u c pid) d)"
  "rs_ok (daemon_resp (now, d) (register_request u c pid)) \<noteq> 0 \<longleftrightarrow>
     snd (tab_enter (now, register_request u c pid) d)"
  using serve_step [of "(now, register_request u c pid)" d]
  by (auto simp: served_def op_of_def daemon_resp_def tab_enter_def case_prod_unfold Let_def
      handle_register_def fill_slot_def split: option.split)

lemma served_unregister:
  "served now d (unregister_request c) = fst (tab_leave (unregister_request c) d)"
  "rs_ok (daemon_resp (now, d) (unregister_request c)) \<noteq> 0 \<longleftrightarrow> snd (tab_leave (unregister_request c) d)"
  using serve_step [of "(now, unregister_request c)" d]
  by (auto simp: served_def op_of_def daemon_resp_def tab_leave_def case_prod_unfold Let_def
      handle_unregister_def split: option.split)

lemma served_kill:
  "served now d (kill_request c) = fst (tab_leave (kill_request c) d)"
  "rs_ok (daemon_resp (now, d) (kill_request c)) \<noteq> 0 \<longleftrightarrow> snd (tab_leave (kill_request c) d)"
  using serve_step [of "(now, kill_request c)" d] 
  by (auto simp: served_def op_of_def daemon_resp_def tab_leave_def case_prod_unfold Let_def
      handle_unregister_def handle_kill_def split: option.split)

lemma registered_sel [simp]:
  "s_container_id (registered now u c pid) = take (CAALD_MAX_STR - 1) (cstr c)"
  "s_username (registered now u c pid) = take (CAALD_MAX_STR - 1) (cstr u)"
  "s_pid (registered now u c pid) = pid"
  by (simp_all add: registered_def)

lemma register_call:
  assumes "wf_daemon d" and "max_sessions d < 2 ^ 31" and "connected now d (register_request u c pid) fd"
  shows "(fst (caald_session_register fd u c pid) \<longleftrightarrow> size (live d) < max_sessions d) \<and>
    live (served now d (register_request u c pid)) =
      (if size (live d) < max_sessions d then add_mset (registered now u c pid) (live d) else live d) \<and>
    out (snd (caald_session_register fd u c pid)) = out fd @ enc_request (register_request u c pid)"
  using call_daemon [OF assms(1,2) _ assms(3)] unreg.enter_iff [OF assms(1)]
    unreg.enter_room [OF assms(1), of "(now, register_request u c pid)"]
    unreg.enter_full [OF assms(1), of "(now, register_request u c pid)"]
  by (auto simp: caald_session_register_def served_register new_session_registered)

lemma unregister_call:
  assumes "wf_daemon d" and "max_sessions d < 2 ^ 31" and "connected now d (unregister_request c) fd"
  shows "fst (caald_session_unregister fd c) \<longleftrightarrow>
    (\<exists>s \<in># live d. s_container_id s = take (CAALD_MAX_STR - 1) (cstr c))"
  using call_daemon [OF assms(1,2) _ assms(3)] unreg.leave_iff [OF assms(1), of "unregister_request c"]
  by (simp add: caald_session_unregister_def served_unregister)

lemma served_register_inv:
  "wf_daemon d \<Longrightarrow> wf_daemon (served now d r) \<and> max_sessions (served now d r) = max_sessions d"
  unfolding served_def by (rule serve_wf)

lemma visit_survives:
  assumes "wf_daemon d" and "max_sessions d < 2 ^ 31"
    and "connected now d (register_request u c pid) fd" and "fst (caald_session_register fd u c pid)"
    and "\<forall>a \<in> set others. \<not> aimed_at (take 63 (cstr c)) (take 63 (cstr u)) (snd a)"
    and "connected later (serve_all others (served now d (register_request u c pid))) (unregister_request c) fd'"
  shows "registered now u c pid \<in># live (serve_all others (served now d (register_request u c pid))) \<and>
    fst (caald_session_unregister fd' c)"
proof -
  let ?d1 = "served now d (register_request u c pid)"
  have wf1: "wf_daemon ?d1" "max_sessions ?d1 = max_sessions d" using served_register_inv [OF assms(1)] by auto
  have "registered now u c pid \<in># live ?d1" using register_call [OF assms(1-3)] assms(4) by auto
  then have in2: "registered now u c pid \<in># live (serve_all others ?d1)"
    using serve_all_survives [OF wf1(1), of "registered now u c pid" others] assms(5)
    by (simp add: CAALD_MAX_STR_def)
  have wf2: "wf_daemon (serve_all others ?d1)" "max_sessions (serve_all others ?d1) < 2 ^ 31"
    using serve_all_inv [OF wf1(1), of others] wf1(2) assms(2) by auto
  have "s_container_id (registered now u c pid) = take (CAALD_MAX_STR - 1) (cstr c)" by simp
  with in2 have "fst (caald_session_unregister fd' c)"
    unfolding unregister_call [OF wf2 assms(6)] by blast
  with in2 show ?thesis by simp
qed

lemma visit_restores:
  assumes wf: "wf_daemon d" and room: "size (live d) < max_sessions d"
    and "\<forall>s \<in># live d. s_container_id s \<noteq> take 63 (cstr c)"
  shows "live (served later (served now d (register_request u c pid)) (unregister_request c)) = live d"
  unfolding served_register served_unregister
  by (rule unreg.enter_leave [OF wf])
    (use room assms(3) unreg.enter_iff [OF wf] in \<open>simp_all add: new_session_registered CAALD_MAX_STR_def\<close>)

lemma count_call:
  assumes "wf_daemon d" and "max_sessions d < 2 ^ 31" and "connected now d count_request fd"
  shows "fst (caald_session_count fd) = int (size (live d))"
  using caald.count_result [OF daemon_okI [OF assms(1,2)] assms(3) [unfolded connected_def]]
    sint_of_nat32 [OF active_bound [OF daemon_okI [OF assms(1,2)]]]
  by (simp add: daemon_resp_def handle_count_def size_live active_def)

lemma kill_cases:
  assumes "wf_daemon d"
  shows "(\<exists>s. s \<in># live d \<and> s_container_id s = cstr (rq_container_id req) \<and>
      live (fst (handle_kill req d response0)) = live d - {#s#} \<and>
      snd (handle_kill req d response0) =
        (response0\<lparr>rs_ok := 1\<rparr>,
         [SigTerm (s_pid s), LogEvent ''SESSION_KILLED'' (s_username s) (s_container_id s)])) \<or>
    (\<forall>s \<in># live d. s_container_id s \<noteq> cstr (rq_container_id req)) \<and>
      handle_kill req d response0 = (d, set_error response0 ''session not found'', [])"
proof (cases "find_session d (rq_container_id req)")
  case None
  then show ?thesis using find_session_None [of d "rq_container_id req"] by (simp add: handle_kill_def)
next
  case (Some i)
  note R = remove_found [OF assms Some]
  show ?thesis
    by (rule disjI1, rule exI [of _ "sessions d ! i"])
      (use R Some in \<open>simp add: handle_kill_def log_event_def\<close>)
qed

text \<open>The processes that a request signalled.\<close>

fun signalled :: "effect list \<Rightarrow> 32 word list" where
  "signalled [] = []"
| "signalled (SigTerm p # es) = p # signalled es"
| "signalled (LogEvent a b c # es) = signalled es"
| "signalled (SysLog a # es) = signalled es"

lemma signalled_kills:
  "signalled (concat (map (\<lambda>s. [SigTerm (s_pid s), LogEvent ev u (s_container_id s)]) ss)) = map s_pid ss"
  by (induction ss) auto

section \<open>The limit of the shell and of the daemon\<close>

text \<open>A cast to \<open>int\<close> keeps the values below \<open>2 ^ 31\<close>.\<close>

lemma sint_low_half:
  fixes i :: "64 word"
  assumes "0 \<le> sint i" and "sint i < 2 ^ 31"
  shows "sint (ucast i :: 32 word) = sint i"
proof -
  have "(ucast i :: 32 word) = scast i" by (rule bit_word_eqI) (auto simp: bit_simps)
  then have "sint (ucast i :: 32 word) = signed_take_bit 31 (sint i)" by (simp add: signed_scast_eq)
  then show ?thesis using assms by (simp add: signed_take_bit_int_eq_self)
qed

end
