(* ===== verification/Os.thy ===== *)
theory Os
  imports Prelude
begin

text \<open>
  The part of the operating system that a session uses: directories, files with their
  sizes, the mount table, containers known to \<open>crun\<close>, and the trace of calls.  Every call
  that can fail asks the environment for its verdict (\<open>verdicts\<close>, consumed in order; when
  the list is exhausted calls are permitted); a permitted call still fails where its
  documented precondition does not hold.  A failed call changes nothing but the trace.
\<close>

datatype os_call =
    Mkdir string | OpenExcl string | Fallocate string int | Spawn "string list"
  | MountOverlay string string | Umount string | Unlink string
  | NewSocket | Bind string | Listen | SpawnAsync "string list"
  | Clearenv | Setenv string string | StartTimer nat | KillTimer
  | Registered string | Unregistered string | PtyRun

datatype mount_kind =
    LoopMount string        \<comment> \<open>the image\<close>
  | Overlay "mount_kind option" string string
      \<comment> \<open>what the lower directory resolved to (a mount on top of it, or none), upper, work\<close>

text \<open>
  A mount remembers the directories that existed when it was made: those it covers come
  back when it is detached, those made on it since then go with it.
\<close>

record mount =
  m_point :: string
  m_kind :: mount_kind
  m_covered :: "string list"

record os =
  dirs :: "string list"
  files :: "(string \<times> int) list"
  mnts :: "mount list"  \<comment> \<open>topmost first\<close>
  containers :: "string list"
  verdicts :: "bool list"
  calls :: "os_call list"

text \<open>Log a call and take the environment's verdict on it.\<close>

definition ask :: "os_call \<Rightarrow> os \<Rightarrow> bool \<times> os" where
  "ask c w =
     (case verdicts w of
        [] \<Rightarrow> (True, w\<lparr>calls := calls w @ [c]\<rparr>)
      | v # vs \<Rightarrow> (v, w\<lparr>calls := calls w @ [c], verdicts := vs\<rparr>))"

definition log_call :: "os_call \<Rightarrow> os \<Rightarrow> os" where
  "log_call c w = w\<lparr>calls := calls w @ [c]\<rparr>"

text \<open>A call with a precondition and an effect on success.\<close>

definition attempt :: "os_call \<Rightarrow> (os \<Rightarrow> bool) \<Rightarrow> (os \<Rightarrow> os) \<Rightarrow> os \<Rightarrow> bool \<times> os" where
  "attempt c pre eff w =
     (case ask c w of
        (False, w1) \<Rightarrow> (False, w1)
      | (True, w1) \<Rightarrow> if pre w1 then (True, eff w1) else (False, w1))"

text \<open>Statements of the form \<open>if (call fails) return -1;\<close> in a row.\<close>

fun all_ok :: "(os \<Rightarrow> bool \<times> os) list \<Rightarrow> os \<Rightarrow> bool \<times> os" where
  "all_ok [] w = (True, w)"
| "all_ok (f # fs) w = (case f w of (False, w') \<Rightarrow> (False, w') | (True, w') \<Rightarrow> all_ok fs w')"

section \<open>Paths\<close>

definition below :: "string \<Rightarrow> string \<Rightarrow> bool" where
  "below d p \<longleftrightarrow> take (Suc (length d)) p = d @ ''/''"

lemma below_append [simp]: "below d (d @ CHR ''/'' # r)"
  by (simp add: below_def)

lemma not_below_self [simp]: "\<not> below d d"
  by (simp add: below_def)

section \<open>Calls\<close>

definition os_mkdir :: "string \<Rightarrow> os \<Rightarrow> bool \<times> os" where
  "os_mkdir p = attempt (Mkdir p) (\<lambda>w. p \<notin> set (dirs w)) (\<lambda>w. w\<lparr>dirs := p # dirs w\<rparr>)"

definition os_open_excl :: "string \<Rightarrow> os \<Rightarrow> bool \<times> os" where
  "os_open_excl p =
     attempt (OpenExcl p) (\<lambda>w. p \<notin> fst ` set (files w)) (\<lambda>w. w\<lparr>files := (p, 0) # files w\<rparr>)"

text \<open>\<open>fallocate\<close> refuses a length that is not positive.\<close>

definition os_fallocate :: "string \<Rightarrow> int \<Rightarrow> os \<Rightarrow> bool \<times> os" where
  "os_fallocate p n =
     attempt (Fallocate p n) (\<lambda>w. 0 < n)
       (\<lambda>w. w\<lparr>files := map (\<lambda>(q, m). (q, if q = p then n else m)) (files w)\<rparr>)"

text \<open>Fork, exec and wait: success is \<open>exit(0)\<close> of the child.  Here: helpers without an
  effect on the tables (\<open>mkfs.ext4\<close>).\<close>

definition os_run :: "string list \<Rightarrow> os \<Rightarrow> bool \<times> os" where
  "os_run argv = attempt (Spawn argv) (\<lambda>w. True) (\<lambda>w. w)"

definition os_mount_loop :: "string \<Rightarrow> string \<Rightarrow> os \<Rightarrow> bool \<times> os" where
  "os_mount_loop img dir =
     attempt (Spawn [''mount'', ''-o'', ''loop,nodev,nosuid'', img, dir]) (\<lambda>w. True)
       (\<lambda>w. w\<lparr>mnts := \<lparr>m_point = dir, m_kind = LoopMount img, m_covered = dirs w\<rparr> # mnts w\<rparr>)"

text \<open>The lower directory of an overlay is looked up through the mounts on top of it.\<close>

definition mounted :: "string \<Rightarrow> os \<Rightarrow> bool" where
  "mounted p w \<longleftrightarrow> p \<in> m_point ` set (mnts w)"

definition top_kind :: "string \<Rightarrow> mount list \<Rightarrow> mount_kind option" where
  "top_kind p ms = map_option m_kind (List.find (\<lambda>m. m_point m = p) ms)"

definition os_mount_overlay :: "string \<Rightarrow> string \<Rightarrow> string \<Rightarrow> string \<Rightarrow> os \<Rightarrow> bool \<times> os" where
  "os_mount_overlay point opts upper work =
     attempt (MountOverlay point opts) (\<lambda>w. True)
       (\<lambda>w. w\<lparr>mnts := \<lparr>m_point = point, m_kind = Overlay (top_kind point (mnts w)) upper work,
                        m_covered = dirs w\<rparr> # mnts w\<rparr>)"

fun drop_mount :: "string \<Rightarrow> mount list \<Rightarrow> mount list" where
  "drop_mount p [] = []"
| "drop_mount p (m # ms) = (if m_point m = p then ms else m # drop_mount p ms)"

definition uncover :: "string \<Rightarrow> mount list \<Rightarrow> string list \<Rightarrow> string list" where
  "uncover p ms ds =
     (case List.find (\<lambda>m. m_point m = p) ms of
        None \<Rightarrow> ds
      | Some m \<Rightarrow> filter (\<lambda>d. below p d \<longrightarrow> d \<in> set (m_covered m)) ds)"

text \<open>\<open>umount2\<close> detaches the topmost mount at the path.\<close>

definition os_umount :: "string \<Rightarrow> os \<Rightarrow> bool \<times> os" where
  "os_umount p =
     attempt (Umount p) (mounted p)
       (\<lambda>w. w\<lparr>mnts := drop_mount p (mnts w), dirs := uncover p (mnts w) (dirs w)\<rparr>)"

definition os_unlink :: "string \<Rightarrow> os \<Rightarrow> bool \<times> os" where
  "os_unlink p =
     attempt (Unlink p) (\<lambda>w. p \<in> fst ` set (files w))
       (\<lambda>w. w\<lparr>files := filter (\<lambda>f. fst f \<noteq> p) (files w)\<rparr>)"

text \<open>\<open>rm -rf\<close> empties a directory, and removes it unless something is mounted there.\<close>

definition os_rm_rf :: "string \<Rightarrow> os \<Rightarrow> bool \<times> os" where
  "os_rm_rf p =
     attempt (Spawn [''rm'', ''-rf'', p]) (\<lambda>w. True)
       (\<lambda>w. w\<lparr>dirs := filter (\<lambda>d. \<not> below p d \<and> (d = p \<longrightarrow> mounted p w)) (dirs w),
              files := filter (\<lambda>f. \<not> below p (fst f)) (files w)\<rparr>)"

definition os_socket :: "os \<Rightarrow> bool \<times> os" where
  "os_socket = attempt NewSocket (\<lambda>w. True) (\<lambda>w. w)"

definition os_bind :: "string \<Rightarrow> os \<Rightarrow> bool \<times> os" where
  "os_bind p = attempt (Bind p) (\<lambda>w. p \<notin> fst ` set (files w)) (\<lambda>w. w\<lparr>files := (p, 0) # files w\<rparr>)"

definition os_listen :: "os \<Rightarrow> bool \<times> os" where
  "os_listen = attempt Listen (\<lambda>w. True) (\<lambda>w. w)"

text \<open>Fork and exec without waiting: \<open>crun run\<close>, with the container ID as last argument.\<close>

definition os_crun_run :: "string list \<Rightarrow> string \<Rightarrow> os \<Rightarrow> bool \<times> os" where
  "os_crun_run argv cid =
     attempt (SpawnAsync argv) (\<lambda>w. True) (\<lambda>w. w\<lparr>containers := cid # containers w\<rparr>)"

definition os_crun_delete :: "string \<Rightarrow> os \<Rightarrow> bool \<times> os" where
  "os_crun_delete cid =
     attempt (Spawn [''crun'', ''delete'', ''--force'', cid]) (\<lambda>w. True)
       (\<lambda>w. w\<lparr>containers := filter (\<lambda>c. c \<noteq> cid) (containers w)\<rparr>)"

lemmas call_defs = os_mkdir_def os_open_excl_def os_fallocate_def os_run_def os_mount_loop_def
  os_mount_overlay_def os_umount_def os_unlink_def os_rm_rf_def os_socket_def os_bind_def
  os_listen_def os_crun_run_def os_crun_delete_def

declare call_defs [os_defs]

section \<open>Facts about calls\<close>

text \<open>The resources, apart from trace and verdicts, and the refusals still to come.\<close>

definition res :: "os \<Rightarrow> string list \<times> (string \<times> int) list \<times> mount list \<times> string list" where
  "res w = (dirs w, files w, mnts w, containers w)"

definition refusals :: "os \<Rightarrow> nat" where
  "refusals w = length (filter Not (verdicts w))"

lemma res_eq: "res w = res w' \<longleftrightarrow>
    dirs w = dirs w' \<and> files w = files w' \<and> mnts w = mnts w' \<and> containers w = containers w'"
  by (simp add: res_def)

lemma ask_frame: "ask c w = (v, w') \<Longrightarrow>
    res w' = res w \<and> refusals w = refusals w' + (if v then 0 else 1)"
  by (auto simp: ask_def res_def refusals_def split: list.splits)

text \<open>The effect of each call on the resources, when it works.\<close>

definition call_spec :: "(os \<Rightarrow> bool \<times> os) \<Rightarrow> (os \<Rightarrow> bool) \<Rightarrow> (os \<Rightarrow> os) \<Rightarrow> bool" where
  "call_spec f pre eff \<longleftrightarrow> (\<forall>w ok w'. f w = (ok, w') \<longrightarrow>
     (if ok then pre w \<and> res w' = res (eff w) \<and> refusals w' = refusals w
      else res w' = res w \<and> (refusals w = Suc (refusals w') \<or> \<not> pre w \<and> refusals w = refusals w')))"

lemma call_specD:
  assumes "call_spec f pre eff" and "f w = (ok, w')"
  shows "ok \<Longrightarrow> pre w" "ok \<Longrightarrow> res w' = res (eff w)" "ok \<Longrightarrow> refusals w' = refusals w"
    "\<not> ok \<Longrightarrow> res w' = res w"
    "\<not> ok \<Longrightarrow> refusals w = Suc (refusals w') \<or> \<not> pre w \<and> refusals w = refusals w'"
  using assms by (auto simp: call_spec_def split: if_splits)

text \<open>With no refusal left, a call does what its precondition says.\<close>

lemma call_permitted:
  assumes "call_spec f pre eff" and "refusals w = 0"
  shows "res (snd (f w)) = (if pre w then res (eff w) else res w)" "refusals (snd (f w)) = 0"
    "fst (f w) = pre w"
proof -
  obtain ok w' where "f w = (ok, w')" by (cases "f w")
  with call_specD [OF assms(1) this] assms(2)
  show "res (snd (f w)) = (if pre w then res (eff w) else res w)" "refusals (snd (f w)) = 0"
    "fst (f w) = pre w"
    by (cases ok; auto)+
qed

lemma attempt_spec:
  assumes "\<And>w w1. res w1 = res w \<Longrightarrow> pre w1 = pre w"
    and "\<And>w w1. res w1 = res w \<Longrightarrow> res (eff w1) = res (eff w)"
    and "\<And>w. verdicts (eff w) = verdicts w"
  shows "call_spec (attempt c pre eff) pre eff"
  unfolding call_spec_def
proof (intro allI impI)
  fix w ok w'
  assume a: "attempt c pre eff w = (ok, w')"
  obtain v w1 where q: "ask c w = (v, w1)" by (cases "ask c w")
  note f = ask_frame [OF q]
  have r: "res w1 = res w" using f by blast
  have e1: "pre w1 = pre w" by (rule assms(1) [OF r])
  have e2: "res (eff w1) = res (eff w)" by (rule assms(2) [OF r])
  have e3: "refusals (eff w1) = refusals w1" unfolding refusals_def by (subst assms(3)) (rule refl)
  show "if ok then pre w \<and> res w' = res (eff w) \<and> refusals w' = refusals w
      else res w' = res w \<and> (refusals w = Suc (refusals w') \<or> \<not> pre w \<and> refusals w = refusals w')"
  proof (cases v)
    case True
    then show ?thesis using a f e1 e2 e3 by (cases "pre w") (auto simp: attempt_def q)
  next
    case False
    then show ?thesis using a f by (auto simp: attempt_def q)
  qed
qed

lemma call_specs:
  "call_spec (os_mkdir p) (\<lambda>w. p \<notin> set (dirs w)) (\<lambda>w. w\<lparr>dirs := p # dirs w\<rparr>)"
  "call_spec (os_open_excl p) (\<lambda>w. p \<notin> fst ` set (files w)) (\<lambda>w. w\<lparr>files := (p, 0) # files w\<rparr>)"
  "call_spec (os_fallocate p n) (\<lambda>w. 0 < n)
     (\<lambda>w. w\<lparr>files := map (\<lambda>(q, m). (q, if q = p then n else m)) (files w)\<rparr>)"
  "call_spec (os_run argv) (\<lambda>w. True) (\<lambda>w. w)"
  "call_spec (os_mount_loop img dir) (\<lambda>w. True)
     (\<lambda>w. w\<lparr>mnts := \<lparr>m_point = dir, m_kind = LoopMount img, m_covered = dirs w\<rparr> # mnts w\<rparr>)"
  "call_spec (os_mount_overlay pt opts up wk) (\<lambda>w. True)
     (\<lambda>w. w\<lparr>mnts := \<lparr>m_point = pt, m_kind = Overlay (top_kind pt (mnts w)) up wk, m_covered = dirs w\<rparr> # mnts w\<rparr>)"
  "call_spec (os_umount p) (mounted p)
     (\<lambda>w. w\<lparr>mnts := drop_mount p (mnts w), dirs := uncover p (mnts w) (dirs w)\<rparr>)"
  "call_spec (os_unlink p) (\<lambda>w. p \<in> fst ` set (files w))
     (\<lambda>w. w\<lparr>files := filter (\<lambda>f. fst f \<noteq> p) (files w)\<rparr>)"
  "call_spec (os_rm_rf p) (\<lambda>w. True)
     (\<lambda>w. w\<lparr>dirs := filter (\<lambda>d. \<not> below p d \<and> (d = p \<longrightarrow> mounted p w)) (dirs w),
            files := filter (\<lambda>f. \<not> below p (fst f)) (files w)\<rparr>)"
  "call_spec os_socket (\<lambda>w. True) (\<lambda>w. w)"
  "call_spec (os_bind p) (\<lambda>w. p \<notin> fst ` set (files w)) (\<lambda>w. w\<lparr>files := (p, 0) # files w\<rparr>)"
  "call_spec os_listen (\<lambda>w. True) (\<lambda>w. w)"
  "call_spec (os_crun_run argv cid) (\<lambda>w. True) (\<lambda>w. w\<lparr>containers := cid # containers w\<rparr>)"
  "call_spec (os_crun_delete cid) (\<lambda>w. True) (\<lambda>w. w\<lparr>containers := filter (\<lambda>c. c \<noteq> cid) (containers w)\<rparr>)"
  unfolding call_defs by (rule attempt_spec; auto simp: res_def mounted_def)+

lemma all_ok_Cons: "all_ok (f # fs) w = (True, w') \<longleftrightarrow> (\<exists>w1. f w = (True, w1) \<and> all_ok fs w1 = (True, w'))"
  by (auto split: prod.splits bool.splits)

text \<open>Once nothing is refused any more, calls behave as their preconditions and effects say.\<close>

lemmas call_granted = call_specs [THEN call_permitted(1)]
lemmas call_refusals = call_specs [THEN call_permitted(2)]
lemmas call_succeeds = call_specs [THEN call_permitted(3)]

lemma res_sel:
  "res w = (ds, fs, ms, cs) \<longleftrightarrow> dirs w = ds \<and> files w = fs \<and> mnts w = ms \<and> containers w = cs"
  by (simp add: res_def)

lemma granted_step:
  assumes "call_spec f pre eff" and "refusals w = 0" and "pre w"
  obtains w' where "f w = (True, w')" "res w' = res (eff w)" "refusals w' = 0"
  using call_permitted [OF assms(1,2)] assms(3) by (cases "f w") auto

lemma granted_unlink:
  assumes "refusals w = 0"
  shows "res (snd (os_unlink p w)) = (dirs w, filter (\<lambda>f. fst f \<noteq> p) (files w), mnts w, containers w)"
    "refusals (snd (os_unlink p w)) = 0"
proof -
  have "filter (\<lambda>f. fst f \<noteq> p) (files w) = files w" if "p \<notin> fst ` set (files w)"
    using that by (auto simp: filter_id_conv)
  then show "res (snd (os_unlink p w)) = (dirs w, filter (\<lambda>f. fst f \<noteq> p) (files w), mnts w, containers w)"
    "refusals (snd (os_unlink p w)) = 0"
    using call_granted(8) [OF assms, of p] call_refusals(8) [OF assms, of p]
    by (simp_all add: res_def split: if_splits)
qed

text \<open>Detaching the topmost mount, when no directory was made under it since.\<close>

lemma granted_umount:
  assumes "refusals w = 0" and "mnts w = m # ms" and "m_point m = p" and "m_covered m = dirs w"
  shows "res (snd (os_umount p w)) = (dirs w, files w, ms, containers w)"
    "refusals (snd (os_umount p w)) = 0"
proof -
  have "filter (\<lambda>d. below p d \<longrightarrow> d \<in> set (dirs w)) (dirs w) = dirs w" by (simp add: filter_id_conv)
  then show "res (snd (os_umount p w)) = (dirs w, files w, ms, containers w)"
    "refusals (snd (os_umount p w)) = 0"
    using call_granted(7) [OF assms(1), of p] call_refusals(7) [OF assms(1), of p] assms(2-)
    by (auto simp: res_def mounted_def uncover_def)
qed

text \<open>A row of calls that succeeds uses up no refusal; one that fails uses up at most one.\<close>

definition counts :: "(os \<Rightarrow> bool \<times> os) \<Rightarrow> bool" where
  "counts f \<longleftrightarrow> (\<forall>w ok w'. f w = (ok, w') \<longrightarrow> refusals w' \<le> refusals w \<and> (ok \<longrightarrow> refusals w' = refusals w))"

lemma countsI: "call_spec f pre eff \<Longrightarrow> counts f"
  by (fastforce simp: call_spec_def counts_def split: if_splits)

lemma countsD:
  assumes "counts f" and "f w = (ok, w')"
  shows "refusals w' \<le> refusals w" "ok \<Longrightarrow> refusals w' = refusals w"
  using assms by (auto simp: counts_def)

lemma all_ok_counts: "\<forall>f \<in> set fs. counts f \<Longrightarrow> counts (all_ok fs)"
proof (induction fs)
  case Nil
  then show ?case by (simp add: counts_def)
next
  case (Cons f fs)
  show ?case
    unfolding counts_def
  proof (intro allI impI)
    fix w ok w'
    assume a: "all_ok (f # fs) w = (ok, w')"
    obtain o1 w1 where f: "f w = (o1, w1)" by (cases "f w")
    have "counts f" and "counts (all_ok fs)" using Cons by auto
    note c = countsD [OF \<open>counts f\<close> f]
    then show "refusals w' \<le> refusals w \<and> (ok \<longrightarrow> refusals w' = refusals w)"
      using a f c countsD [OF \<open>counts (all_ok fs)\<close>, of w1 ok w'] by (cases o1) auto
  qed
qed

section \<open>The trace only grows\<close>

definition extends :: "os \<Rightarrow> os \<Rightarrow> bool" where
  "extends w w' \<longleftrightarrow> (\<exists>cs. calls w' = calls w @ cs)"

lemma extends_refl [simp, intro]: "extends w w"
  by (simp add: extends_def)

lemma extends_trans: "extends w1 w2 \<Longrightarrow> extends w2 w3 \<Longrightarrow> extends w1 w3"
  by (auto simp: extends_def)

lemma extends_log [simp]: "extends w (log_call c w)"
  by (simp add: extends_def log_call_def)

lemma ask_extends: "calls (snd (ask c w)) = calls w @ [c]"
  by (simp add: ask_def split: list.split)

lemma attempt_calls:
  assumes "\<And>w. calls (eff w) = calls w"
  shows "calls (snd (attempt c pre eff w)) = calls w @ [c]"
  using ask_extends [of c w] assms
  by (cases "ask c w") (auto simp: attempt_def split: bool.split)

definition tracing :: "(os \<Rightarrow> bool \<times> os) \<Rightarrow> bool" where
  "tracing f \<longleftrightarrow> (\<forall>w ok w'. f w = (ok, w') \<longrightarrow> extends w w')"

lemma tracing_attempt: "(\<And>w. calls (eff w) = calls w) \<Longrightarrow> tracing (attempt c pre eff)"
  by (metis attempt_calls extends_def snd_conv tracing_def)

lemma tracing_calls [simp]:
  "tracing (os_mkdir p)" "tracing (os_open_excl p)" "tracing (os_fallocate p n)" "tracing (os_run argv)"
  "tracing (os_mount_loop img d)" "tracing (os_mount_overlay pt opts up wk)" "tracing (os_umount p)"
  "tracing (os_unlink p)" "tracing (os_rm_rf p)" "tracing os_socket" "tracing (os_bind p)" "tracing os_listen"
  "tracing (os_crun_run argv cid)" "tracing (os_crun_delete cid)"
  unfolding call_defs by (rule tracing_attempt; simp)+

lemma tracingD: "tracing f \<Longrightarrow> f w = (ok, w') \<Longrightarrow> extends w w'"
  by (simp add: tracing_def)

lemma tracing_snd: "tracing f \<Longrightarrow> extends w (snd (f w))"
  by (cases "f w") (simp add: tracing_def)

lemma tracing_all_ok: "\<forall>f \<in> set fs. tracing f \<Longrightarrow> tracing (all_ok fs)"
proof (induction fs)
  case (Cons f fs)
  then have "tracing f" "tracing (all_ok fs)" by auto
  then show ?case
    unfolding tracing_def
    by (auto split: prod.splits bool.splits) (meson extends_trans)+
qed (simp add: tracing_def)

end
