(* ===== verification/Session_Disk.thy ===== *)
theory Session_Disk
  imports Os
begin

text \<open>
  The per-session disk image (\<open>src/src/lib/session_disk.c\<close>): create, reserve, format and
  mount it, and take it down again.
\<close>

definition image_bytes :: "64 word \<Rightarrow> int" where
  "image_bytes size_mb = sint (size_mb * 1024 * 1024)"

definition session_disk_setup :: "string \<Rightarrow> string \<Rightarrow> 64 word \<Rightarrow> os \<Rightarrow> bool \<times> os" where
  "session_disk_setup session_dir image_path size_mb =
     all_ok
      [os_mkdir session_dir,
       os_open_excl image_path,
       os_fallocate image_path (image_bytes size_mb),
       os_run [''mkfs.ext4'', ''-q'', image_path],
       os_mount_loop image_path session_dir,
       os_mkdir (snprintf_s 256 (session_dir @ ''/upper'')),
       os_mkdir (snprintf_s 256 (session_dir @ ''/work''))]"

text \<open>Every step is tried, whatever the others returned.\<close>

definition session_disk_cleanup :: "string \<Rightarrow> string \<Rightarrow> os \<Rightarrow> os" where
  "session_disk_cleanup session_dir image_path w =
     (let w1 = snd (os_umount session_dir w);
          w2 = snd (os_unlink image_path w1)
      in snd (os_rm_rf session_dir w2))"

section \<open>What a successful setup leaves\<close>

text \<open>The resources with the image mounted on its directory, over those given.\<close>

definition with_disk :: "string \<Rightarrow> string \<Rightarrow> int \<Rightarrow> os \<Rightarrow> string list \<times> (string \<times> int) list \<times> mount list \<times> string list" where
  "with_disk sd img n w =
     ((sd @ ''/work'') # (sd @ ''/upper'') # sd # dirs w, (img, n) # files w,
      \<lparr>m_point = sd, m_kind = LoopMount img, m_covered = sd # dirs w\<rparr> # mnts w, containers w)"

lemma subdir_exact:
  assumes "fits 128 sd"
  shows "snprintf_s 256 (sd @ ''/upper'') = sd @ ''/upper''" "snprintf_s 256 (sd @ ''/work'') = sd @ ''/work''"
  using assms by (simp_all add: snprintf_s_fits fits_def)

lemma setup_ok:
  assumes sd: "fits 128 sd" and run: "session_disk_setup sd img mb w = (True, w')"
  shows "res w' = with_disk sd img (image_bytes mb) w" "refusals w' = refusals w"
    "sd \<notin> set (dirs w)" "img \<notin> fst ` set (files w)" "0 < image_bytes mb"
proof -
  obtain w1 w2 w3 w4 w5 w6 where steps:
    "os_mkdir sd w = (True, w1)" "os_open_excl img w1 = (True, w2)"
    "os_fallocate img (image_bytes mb) w2 = (True, w3)"
    "os_run [''mkfs.ext4'', ''-q'', img] w3 = (True, w4)" "os_mount_loop img sd w4 = (True, w5)"
    "os_mkdir (sd @ ''/upper'') w5 = (True, w6)" "os_mkdir (sd @ ''/work'') w6 = (True, w')"
    using run by (auto simp: session_disk_setup_def subdir_exact [OF sd] all_ok_Cons simp del: all_ok.simps(2))
  note S = call_specD [OF call_specs(1) steps(1), simplified] call_specD [OF call_specs(2) steps(2), simplified]
    call_specD [OF call_specs(3) steps(3), simplified] call_specD [OF call_specs(4) steps(4), simplified]
    call_specD [OF call_specs(5) steps(5), simplified] call_specD [OF call_specs(1) steps(6), simplified]
    call_specD [OF call_specs(1) steps(7), simplified]
  have keep: "map (\<lambda>(q, m). (q, if q = img then n else m)) fs = fs" if "img \<notin> fst ` set fs" for n :: int and fs
    using that by (induction fs) (auto simp: image_iff)
  show "res w' = with_disk sd img (image_bytes mb) w" "refusals w' = refusals w"
    "sd \<notin> set (dirs w)" "img \<notin> fst ` set (files w)" "0 < image_bytes mb"
    using S keep [of "files w"] by (auto simp: res_def with_disk_def)
qed

text \<open>Nothing of the session is there yet.\<close>

definition fresh_disk :: "string \<Rightarrow> string \<Rightarrow> os \<Rightarrow> bool" where
  "fresh_disk sd img w \<longleftrightarrow>
     (\<forall>d \<in> set (dirs w). d \<noteq> sd \<and> \<not> below sd d) \<and> (\<forall>f \<in> set (files w). fst f \<noteq> img \<and> \<not> below sd (fst f)) \<and>
     \<not> mounted sd w \<and> \<not> below sd img"

lemma cleanup_undoes:
  assumes fresh: "fresh_disk sd img w0"
    and ds: "dirs w = (sd @ ''/work'') # (sd @ ''/upper'') # sd # dirs w0"
    and ms: "mnts w = \<lparr>m_point = sd, m_kind = LoopMount img, m_covered = sd # dirs w0\<rparr> # mnts w0"
    and z: "refusals w = 0"
  shows "res (session_disk_cleanup sd img w) =
      (dirs w0, filter (\<lambda>f. fst f \<noteq> img \<and> \<not> below sd (fst f)) (files w), mnts w0, containers w)"
    "refusals (session_disk_cleanup sd img w) = 0"
proof -
  define w1 where "w1 = snd (os_umount sd w)"
  define w2 where "w2 = snd (os_unlink img w1)"
  have zs: "refusals w1 = 0" "refusals w2 = 0" unfolding w1_def w2_def by (simp_all add: call_refusals z)
  have keep: "filter (\<lambda>d. below sd d \<longrightarrow> d = sd \<or> d \<in> set ds) ds = ds" for ds :: "string list"
    by (simp add: filter_id_conv)
  have 1: "dirs w1 = sd # dirs w0" "files w1 = files w" "mnts w1 = mnts w0" "containers w1 = containers w"
    using call_granted(7) [OF z, of sd] fresh
    by (auto simp: w1_def [symmetric] res_def ds ms mounted_def uncover_def keep fresh_disk_def below_def)
  have 2: "dirs w2 = sd # dirs w0" "files w2 = filter (\<lambda>f. fst f \<noteq> img) (files w)" "mnts w2 = mnts w0"
    "containers w2 = containers w"
    using 1 granted_unlink [OF zs(1), of img] by (auto simp: w2_def [symmetric] res_def)
  have 3: "res (snd (os_rm_rf sd w2)) =
      (dirs w0, filter (\<lambda>f. fst f \<noteq> img \<and> \<not> below sd (fst f)) (files w), mnts w0, containers w)"
    using 2 call_granted(9) [OF zs(2), of sd] fresh
    by (auto simp: res_def fresh_disk_def filter_id_conv mounted_def intro: filter_cong)
  then show "res (session_disk_cleanup sd img w) =
      (dirs w0, filter (\<lambda>f. fst f \<noteq> img \<and> \<not> below sd (fst f)) (files w), mnts w0, containers w)"
    "refusals (session_disk_cleanup sd img w) = 0"
    using zs call_refusals(9) [OF zs(2)]
    by (simp_all add: session_disk_cleanup_def Let_def flip: w1_def w2_def)
qed

text \<open>Over the files of \<open>w0\<close>, the last filter removes nothing but the image.\<close>

lemma fresh_files:
  assumes "fresh_disk sd img w0"
  shows "filter (\<lambda>f. fst f \<noteq> img \<and> \<not> below sd (fst f)) (files w0) = files w0"
    "filter (\<lambda>f. fst f \<noteq> p) (files w0) =
     filter (\<lambda>f. fst f \<noteq> img \<and> \<not> below sd (fst f)) (filter (\<lambda>f. fst f \<noteq> p) (files w0))"
  using assms by (auto simp: fresh_disk_def filter_id_conv intro!: filter_cong)

text \<open>Both only add to the trace.\<close>

lemma tracing_setup [simp]: "tracing (session_disk_setup sd img mb)"
  unfolding session_disk_setup_def by (rule tracing_all_ok) simp

lemma extends_cleanup [simp]: "extends w (session_disk_cleanup sd img w)"
proof -
  define w1 where "w1 = snd (os_umount sd w)"
  define w2 where "w2 = snd (os_unlink img w1)"
  have "extends w w1" "extends w1 w2" "extends w2 (snd (os_rm_rf sd w2))"
    unfolding w1_def w2_def by (simp_all add: tracing_snd)
  then have "extends w (snd (os_rm_rf sd w2))" by (blast intro: extends_trans)
  then show ?thesis by (simp add: session_disk_cleanup_def Let_def w1_def w2_def)
qed

section \<open>Setup succeeds when nothing is refused\<close>

lemma setup_granted:
  assumes sd: "fits 128 sd" and fresh: "fresh_disk sd img w" and pos: "0 < image_bytes mb"
    and z: "refusals w = 0"
  shows "fst (session_disk_setup sd img mb w)"
proof -
  have sub: "sd @ ''/upper'' \<notin> set (sd # dirs w)" "sd @ ''/work'' \<notin> set (sd # dirs w)"
    using fresh by (auto simp: fresh_disk_def)
  obtain w1 where 1: "os_mkdir sd w = (True, w1)" "res w1 = res (w\<lparr>dirs := sd # dirs w\<rparr>)" "refusals w1 = 0"
    by (rule granted_step [OF call_specs(1) z, of sd]) (use fresh in \<open>auto simp: fresh_disk_def\<close>)
  obtain w2 where 2: "os_open_excl img w1 = (True, w2)" "res w2 = res (w1\<lparr>files := (img, 0) # files w1\<rparr>)" "refusals w2 = 0"
    by (rule granted_step [OF call_specs(2) 1(3), of img]) (use fresh 1 in \<open>auto simp: fresh_disk_def res_def\<close>)
  obtain w3 where 3: "os_fallocate img (image_bytes mb) w2 = (True, w3)" "dirs w3 = sd # dirs w" "refusals w3 = 0"
    by (rule granted_step [OF call_specs(3) 2(3), of "image_bytes mb" img]) (use pos 1 2 in \<open>auto simp: res_def\<close>)
  obtain w4 where 4: "os_run [''mkfs.ext4'', ''-q'', img] w3 = (True, w4)" "dirs w4 = sd # dirs w" "refusals w4 = 0"
    by (rule granted_step [OF call_specs(4) 3(3)]) (use 3 in \<open>auto simp: res_def\<close>)
  obtain w5 where 5: "os_mount_loop img sd w4 = (True, w5)" "dirs w5 = sd # dirs w" "refusals w5 = 0"
    by (rule granted_step [OF call_specs(5) 4(3)]) (use 4 in \<open>auto simp: res_def\<close>)
  obtain w6 where 6: "os_mkdir (sd @ ''/upper'') w5 = (True, w6)" "dirs w6 = (sd @ ''/upper'') # sd # dirs w" "refusals w6 = 0"
    by (rule granted_step [OF call_specs(1) 5(3), of "sd @ ''/upper''"]) (use 5 sub in \<open>auto simp: res_def\<close>)
  obtain w7 where 7: "os_mkdir (sd @ ''/work'') w6 = (True, w7)"
    by (rule granted_step [OF call_specs(1) 6(3), of "sd @ ''/work''"]) (use 6 sub in \<open>auto simp: res_def\<close>)
  show ?thesis
    by (simp add: session_disk_setup_def subdir_exact [OF sd] 1 2 3 4 5 6 7)
qed

end
