(* ===== verification/Pty_Bridge.thy ===== *)
theory Pty_Bridge
  imports Os Byte_IO
begin

text \<open>
  The terminal proxy (\<open>src/src/lib/pty_bridge.c\<close>): the console socket, the hand-over of the
  PTY master, the two signal handlers and the \<open>select\<close> loop that carries bytes both ways.
  The loop runs over a list of events chosen by the environment; when the list ends before
  the loop does, the proxy is still waiting.
\<close>

section \<open>Console socket\<close>

text \<open>Success, the path left in \<open>sock_path\<close>, and the new state of the system.\<close>

definition pty_bridge_init :: "nat \<Rightarrow> int \<Rightarrow> os \<Rightarrow> bool \<times> string \<times> os" where
  "pty_bridge_init sock_path_len pid w =
     (let sock_path = snprintf_s sock_path_len (''/tmp/caalsh-pty-'' @ show_int pid @ ''.sock'');
          sun_path = snprintf_s 108 sock_path
      in case os_socket w of
           (False, w1) \<Rightarrow> (False, sock_path, w1)
         | (True, w1) \<Rightarrow>
             let w2 = snd (os_unlink sock_path w1);
                 (ok, w3) = all_ok [os_bind sun_path, os_listen] w2
             in (ok, sock_path, w3))"

text \<open>
  \<open>pty_bridge_recv\<close>: the results of \<open>accept\<close> and \<open>recvmsg\<close>, and the level, type and payload
  of the first control message.
\<close>

record recv_env =
  accepted :: bool
  received :: bool
  cmsg :: "(int \<times> int \<times> int) option"

definition SOL_SOCKET :: int where "SOL_SOCKET = 1"

definition SCM_RIGHTS :: int where "SCM_RIGHTS = 1"

definition pty_bridge_recv :: "recv_env \<Rightarrow> int" where
  "pty_bridge_recv e =
     (if \<not> accepted e then -1
      else if \<not> received e then -1
      else case cmsg e of
             None \<Rightarrow> -1
           | Some (level, ty, fd) \<Rightarrow> if level \<noteq> SOL_SOCKET \<or> ty \<noteq> SCM_RIGHTS then -1 else fd)"

text \<open>What the console socket leaves behind, when it succeeds and when it fails.\<close>

definition pty_sock_path :: "int \<Rightarrow> string" where
  "pty_sock_path pid = snprintf_s 108 (''/tmp/caalsh-pty-'' @ show_int pid @ ''.sock'')"

lemma snprintf_s_idem [simp]: "0 < n \<Longrightarrow> snprintf_s n (snprintf_s n s) = snprintf_s n s"
  by (simp add: snprintf_s_fits)

lemma pty_init_cases:
  fixes pid :: int
  defines "p \<equiv> pty_sock_path pid"
  assumes run: "pty_bridge_init 108 pid w = (ok, path, w')"
  shows "path = p" "dirs w' = dirs w" "mnts w' = mnts w" "containers w' = containers w"
    "filter (\<lambda>f. fst f \<noteq> p) (files w') = filter (\<lambda>f. fst f \<noteq> p) (files w)"
    "ok \<Longrightarrow> files w' = (p, 0) # filter (\<lambda>f. fst f \<noteq> p) (files w)"
    "refusals w' \<le> refusals w" "\<not> ok \<Longrightarrow> refusals w' < refusals w"
proof -
  obtain o1 w1 where s: "os_socket w = (o1, w1)" by (cases "os_socket w")
  note S = call_specD [OF call_specs(10) s, simplified]
  have "path = p \<and> dirs w' = dirs w \<and> mnts w' = mnts w \<and> containers w' = containers w \<and>
    filter (\<lambda>f. fst f \<noteq> p) (files w') = filter (\<lambda>f. fst f \<noteq> p) (files w) \<and>
    (ok \<longrightarrow> files w' = (p, 0) # filter (\<lambda>f. fst f \<noteq> p) (files w)) \<and>
    refusals w' \<le> refusals w \<and> (\<not> ok \<longrightarrow> refusals w' < refusals w)"
  proof (cases o1)
    case False
    with run s S show ?thesis
      by (auto simp: pty_bridge_init_def Let_def res_eq p_def pty_sock_path_def)
  next
    case True
    obtain o2 w2 where u: "os_unlink p w1 = (o2, w2)" by (cases "os_unlink p w1")
    obtain o3 w3 where b: "os_bind p w2 = (o3, w3)" by (cases "os_bind p w2")
    obtain o4 w4 where l: "os_listen w3 = (o4, w4)" by (cases "os_listen w3")
    note U = call_specD [OF call_specs(8) u, simplified]
    note B = call_specD [OF call_specs(11) b, simplified]
    note L = call_specD [OF call_specs(12) l, simplified]
    have r: "path = p \<and> ok = (o3 \<and> o4) \<and> w' = (if o3 then w4 else w3)"
      using run s u b l True
      by (cases o3; cases o4) (auto simp: pty_bridge_init_def Let_def p_def pty_sock_path_def)
    have f2: "files w2 = (if o2 then filter (\<lambda>f. fst f \<noteq> p) (files w) else files w)"
      and r2: "dirs w2 = dirs w" "mnts w2 = mnts w" "containers w2 = containers w"
      using S U True by (auto simp: res_eq split: if_splits)
    have n2: "refusals w2 \<le> refusals w" "p \<in> fst ` set (files w2) \<Longrightarrow> refusals w2 < refusals w"
      using S U True f2 by (auto simp: res_eq split: if_splits)
    have same: "filter (\<lambda>f. fst f \<noteq> p) (files w2) = filter (\<lambda>f. fst f \<noteq> p) (files w)"
      using f2 by simp
    show ?thesis
    proof (cases o3)
      case False
      then have "refusals w3 < refusals w" using B(5) n2 by force
      with False show ?thesis using r r2 same B(4) by (auto simp: res_eq)
    next
      case True
      then have "filter (\<lambda>f. fst f \<noteq> p) (files w2) = files w2"
        using B(1) by (auto simp: filter_id_conv)
      with same have f: "files w2 = filter (\<lambda>f. fst f \<noteq> p) (files w)" by simp
      show ?thesis
      proof (cases o4)
        case True
        then show ?thesis using \<open>o3\<close> r r2 n2(1) f B(2,3) L by (simp add: res_eq)
      next
        case False
        then show ?thesis using \<open>o3\<close> r r2 n2(1) f B(2,3) L by (simp add: res_eq)
      qed
    qed
  qed
  then show "path = p" "dirs w' = dirs w" "mnts w' = mnts w" "containers w' = containers w"
    "filter (\<lambda>f. fst f \<noteq> p) (files w') = filter (\<lambda>f. fst f \<noteq> p) (files w)"
    "ok \<Longrightarrow> files w' = (p, 0) # filter (\<lambda>f. fst f \<noteq> p) (files w)"
    "refusals w' \<le> refusals w" "\<not> ok \<Longrightarrow> refusals w' < refusals w" by auto
qed

section \<open>State of the proxy\<close>

datatype tty_mode = Saved | RawMode

record pty =
  g_master_fd :: int
  g_terminate :: bool
  master_open :: bool
  master_size :: "(nat \<times> nat) option"
  to_stdout :: "byte list"
  to_master :: "byte list"
  tty :: "tty_mode option"
  reaped :: bool

text \<open>Signals, with the answer of \<open>TIOCGWINSZ\<close> for a resize.\<close>

datatype signal = SIGWINCH "(nat \<times> nat) option" | SIGTERM | SIGHUP

definition forward_size :: "(nat \<times> nat) option \<Rightarrow> pty \<Rightarrow> pty" where
  "forward_size ws p = (case ws of None \<Rightarrow> p | Some z \<Rightarrow> p\<lparr>master_size := Some z\<rparr>)"

definition on_winch :: "(nat \<times> nat) option \<Rightarrow> pty \<Rightarrow> pty" where
  "on_winch ws p = (if g_master_fd p < 0 then p else forward_size ws p)"

definition on_term :: "pty \<Rightarrow> pty" where
  "on_term p =
     (let p1 = p\<lparr>g_terminate := True\<rparr>
      in if 0 \<le> g_master_fd p1 then p1\<lparr>master_open := False, g_master_fd := -1\<rparr> else p1)"

fun deliver :: "signal \<Rightarrow> pty \<Rightarrow> pty" where
  "deliver (SIGWINCH ws) p = on_winch ws p"
| "deliver SIGTERM p = on_term p"
| "deliver SIGHUP p = on_term p"

section \<open>The loop\<close>

text \<open>
  An event is a signal while the loop is not inside \<open>select\<close>, or one return of \<open>select\<close>:
  interrupted by a signal, another error, or ready with what each readable side delivers
  and how much of it the following \<open>write\<close> takes.
\<close>

type_synonym transfer = "rd \<times> int"

datatype pty_event =
    Deliver signal
  | SelEintr signal
  | SelError
  | SelReady "transfer option" "transfer option"

definition buf_size :: nat where "buf_size = 4096"

text \<open>One \<open>read\<close> and \<open>write\<close>: nothing when the read fails or hits end-of-file.\<close>

fun relay :: "transfer \<Rightarrow> byte list option" where
  "relay (RErr, w) = None"
| "relay (RData d, w) = (if d = [] then None else Some (take (nat w) (take buf_size d)))"

fun pty_loop :: "pty_event list \<Rightarrow> pty \<Rightarrow> bool \<times> pty" where
  "pty_loop [] p = (False, p)"
| "pty_loop (Deliver s # es) p = pty_loop es (deliver s p)"
| "pty_loop (SelError # es) p = (True, p)"
| "pty_loop (SelEintr s # es) p =
     (if \<not> master_open p then (True, p)
      else let p' = deliver s p in if g_terminate p' then (True, p') else pty_loop es p')"
| "pty_loop (SelReady m i # es) p =
     (if \<not> master_open p then (True, p)
      else case (case m of None \<Rightarrow> Some p
                 | Some t \<Rightarrow> map_option (\<lambda>b. p\<lparr>to_stdout := to_stdout p @ b\<rparr>) (relay t)) of
             None \<Rightarrow> (True, p)
           | Some p1 \<Rightarrow>
               case (case i of None \<Rightarrow> Some p1
                     | Some t \<Rightarrow> map_option (\<lambda>b. p1\<lparr>to_master := to_master p1 @ b\<rparr>) (relay t)) of
                 None \<Rightarrow> (True, p1)
               | Some p2 \<Rightarrow> pty_loop es p2)"

text \<open>
  \<open>pty_bridge_run\<close>: initial size, handlers, raw mode, the loop, then the terminal restored
  and the child waited for.  \<open>tty0\<close> is nothing when stdin is not a terminal.
\<close>

definition pty_start :: "int \<Rightarrow> tty_mode option \<Rightarrow> (nat \<times> nat) option \<Rightarrow> pty" where
  "pty_start master_fd tty0 ws =
     forward_size ws
       \<lparr>g_master_fd = master_fd, g_terminate = False, master_open = True, master_size = None,
        to_stdout = [], to_master = [], tty = map_option (\<lambda>_. RawMode) tty0, reaped = False\<rparr>"

definition pty_bridge_run :: "int \<Rightarrow> tty_mode option \<Rightarrow> (nat \<times> nat) option \<Rightarrow> pty_event list \<Rightarrow>
    bool \<times> pty" where
  "pty_bridge_run master_fd tty0 ws es =
     (case pty_loop es (pty_start master_fd tty0 ws) of
        (False, p) \<Rightarrow> (False, p)
      | (True, p) \<Rightarrow> (True, p\<lparr>tty := tty0, reaped := True, g_master_fd := -1\<rparr>))"

section \<open>Facts\<close>

lemma deliver_frame [simp]:
  "to_stdout (deliver s p) = to_stdout p" "to_master (deliver s p) = to_master p"
  "tty (deliver s p) = tty p" "reaped (deliver s p) = reaped p"
  by (cases s; simp add: on_winch_def on_term_def forward_size_def Let_def split: option.splits)+

text \<open>Whoever asks for termination closes the master, unless that was done before.\<close>

definition pty_inv :: "pty \<Rightarrow> bool" where
  "pty_inv p \<longleftrightarrow> (master_open p \<longleftrightarrow> 0 \<le> g_master_fd p) \<and> (g_terminate p \<longleftrightarrow> \<not> master_open p)"

lemma pty_inv_deliver: "pty_inv p \<Longrightarrow> pty_inv (deliver s p)"
  by (cases s) (auto simp: pty_inv_def on_winch_def on_term_def forward_size_def Let_def
      split: option.splits)

lemma pty_inv_start: "0 \<le> fd \<Longrightarrow> pty_inv (pty_start fd t ws)"
  by (auto simp: pty_start_def pty_inv_def forward_size_def split: option.splits)

text \<open>A select event of any kind.\<close>

definition is_select :: "pty_event \<Rightarrow> bool" where
  "is_select e \<longleftrightarrow> (case e of Deliver s \<Rightarrow> False | _ \<Rightarrow> True)"

lemma pty_loop_closed:
  assumes "\<not> master_open p" and "pty_inv p" and "\<exists>e \<in> set es. is_select e"
  shows "fst (pty_loop es p) \<and> to_stdout (snd (pty_loop es p)) = to_stdout p \<and>
     to_master (snd (pty_loop es p)) = to_master p"
  using assms
proof (induction es arbitrary: p)
  case (Cons e es)
  show ?case
  proof (cases e)
    case (Deliver s)
    have "\<not> master_open (deliver s p)"
      using Cons.prems(1,2) pty_inv_deliver [OF Cons.prems(2), of s]
      by (cases s) (auto simp: on_winch_def on_term_def pty_inv_def Let_def)
    moreover have "\<exists>e \<in> set es. is_select e"
      using Cons.prems(3) Deliver by (auto simp: is_select_def)
    ultimately show ?thesis
      using Cons.IH [OF _ pty_inv_deliver [OF Cons.prems(2)], of s] Deliver by simp
  qed (use Cons.prems in auto)
qed simp

text \<open>The bytes that each side delivers while the loop runs, when writes are complete.\<close>

definition full_write :: "transfer option \<Rightarrow> bool" where
  "full_write t \<longleftrightarrow> (case t of Some (RData d, w) \<Rightarrow> int (length d) \<le> w \<and> length d \<le> buf_size | _ \<Rightarrow> True)"

definition lossless :: "pty_event \<Rightarrow> bool" where
  "lossless e \<longleftrightarrow> (case e of SelReady m i \<Rightarrow> full_write m \<and> full_write i | _ \<Rightarrow> True)"

fun delivered :: "transfer option \<Rightarrow> byte list" where
  "delivered (Some (RData d, w)) = d"
| "delivered t = []"

fun quiet :: "pty_event \<Rightarrow> bool" where
  "quiet (Deliver (SIGWINCH ws)) = True"
| "quiet (SelEintr (SIGWINCH ws)) = True"
| "quiet (SelReady m i) =
     ((case m of Some (RErr, w) \<Rightarrow> False | Some (RData d, w) \<Rightarrow> d \<noteq> [] | None \<Rightarrow> True) \<and>
      (case i of Some (RErr, w) \<Rightarrow> False | Some (RData d, w) \<Rightarrow> d \<noteq> [] | None \<Rightarrow> True))"
| "quiet e = False"

fun from_master :: "pty_event \<Rightarrow> byte list" where
  "from_master (SelReady m i) = delivered m"
| "from_master e = []"

fun from_stdin :: "pty_event \<Rightarrow> byte list" where
  "from_stdin (SelReady m i) = delivered i"
| "from_stdin e = []"

lemma relay_full:
  "full_write (Some t) \<Longrightarrow> (case t of (RErr, w) \<Rightarrow> False | (RData d, w) \<Rightarrow> d \<noteq> []) \<Longrightarrow>
     relay t = Some (delivered (Some t))"
  by (cases t rule: relay.cases) (auto simp: full_write_def)

lemma winch_open:
  "pty_inv p \<Longrightarrow> master_open p \<Longrightarrow>
     master_open (on_winch ws p) \<and> \<not> g_terminate (on_winch ws p) \<and> pty_inv (on_winch ws p) \<and>
     to_stdout (on_winch ws p) = to_stdout p \<and> to_master (on_winch ws p) = to_master p"
  by (auto simp: on_winch_def forward_size_def pty_inv_def split: option.splits)

lemma pty_loop_relays:
  assumes "master_open p" and "pty_inv p" and "list_all quiet es" and "list_all lossless es"
  shows "\<exists>p'. pty_loop (es @ rest) p = pty_loop rest p' \<and> master_open p' \<and> pty_inv p' \<and> tty p' = tty p \<and>
      to_stdout p' = to_stdout p @ concat (map from_master es) \<and>
      to_master p' = to_master p @ concat (map from_stdin es)"
  using assms
proof (induction es arbitrary: p)
  case Nil
  then show ?case by (intro exI [of _ p]) simp
next
  case (Cons e es)
  obtain p1 where p1: "pty_loop ((e # es) @ rest) p = pty_loop (es @ rest) p1" "master_open p1"
    "pty_inv p1" "tty p1 = tty p" "to_stdout p1 = to_stdout p @ from_master e"
    "to_master p1 = to_master p @ from_stdin e"
  proof (cases e rule: quiet.cases)
    case (1 ws)
    then show ?thesis
      using winch_open [OF Cons.prems(2,1), of ws] deliver_frame(3) [of "SIGWINCH ws" p]
      by (intro that [of "on_winch ws p"]) auto
  next
    case (2 ws)
    then show ?thesis
      using winch_open [OF Cons.prems(2,1), of ws] Cons.prems(1) deliver_frame(3) [of "SIGWINCH ws" p]
      by (intro that [of "on_winch ws p"]) (auto simp: Let_def)
  next
    case (3 m i)
    have f: "full_write m" "full_write i" using Cons.prems(4) 3 by (auto simp: lossless_def)
    have q: "quiet (SelReady m i)" using Cons.prems(3) 3 by simp
    let ?p1 = "p\<lparr>to_stdout := to_stdout p @ delivered m, to_master := to_master p @ delivered i\<rparr>"
    have "pty_loop ((e # es) @ rest) p = pty_loop (es @ rest) ?p1"
      using f q Cons.prems(1) 3
      by (cases m; cases i) (auto simp: relay_full)
    with Cons.prems 3 show ?thesis
      by (intro that [of ?p1]) (auto simp: pty_inv_def)
  qed (use Cons.prems in auto)
  obtain p' where "pty_loop (es @ rest) p1 = pty_loop rest p' \<and> master_open p' \<and> pty_inv p' \<and>
      tty p' = tty p1 \<and> to_stdout p' = to_stdout p1 @ concat (map from_master es) \<and>
      to_master p' = to_master p1 @ concat (map from_stdin es)"
    using Cons.IH [OF p1(2,3)] Cons.prems by auto
  with p1 show ?case by (intro exI [of _ p']) simp
qed

lemma pty_bridge_run_restores:
  "fst (pty_bridge_run fd tty0 ws es) \<Longrightarrow>
     tty (snd (pty_bridge_run fd tty0 ws es)) = tty0 \<and> reaped (snd (pty_bridge_run fd tty0 ws es)) \<and>
     g_master_fd (snd (pty_bridge_run fd tty0 ws es)) = -1"
  by (auto simp: pty_bridge_run_def split: prod.splits bool.splits)

lemma extends_pty_init:
  assumes "pty_bridge_init n pid w = (ok, path, w')"
  shows "extends w w'"
proof -
  have all: "tracing (all_ok [os_bind sun, os_listen])" for sun by (rule tracing_all_ok) simp
  obtain o1 w1 where s: "os_socket w = (o1, w1)" by (cases "os_socket w")
  then have e: "extends w w1" by (rule tracingD [rotated]) simp
  show ?thesis
  proof (cases o1)
    case True
    let ?p = "snprintf_s n (''/tmp/caalsh-pty-'' @ show_int pid @ ''.sock'')"
    have "extends w1 (snd (os_unlink ?p w1))" by (rule tracing_snd) simp
    moreover have "all_ok [os_bind (snprintf_s 108 ?p), os_listen] (snd (os_unlink ?p w1)) = (ok, w')"
      using assms s True by (auto simp: pty_bridge_init_def Let_def split: prod.splits)
    ultimately show ?thesis using e tracingD [OF all] extends_trans by blast
  qed (use assms s e in \<open>simp add: pty_bridge_init_def Let_def\<close>)
qed

lemma pty_init_granted:
  assumes "refusals w = 0"
  shows "fst (pty_bridge_init 108 pid w)"
proof -
  obtain ok path w' where r: "pty_bridge_init 108 pid w = (ok, path, w')"
    by (cases "pty_bridge_init 108 pid w")
  with pty_init_cases(8) [OF r] assms show ?thesis by auto
qed

section \<open>Whole runs\<close>

text \<open>An event at which the loop stops without moving a byte: one side is closed.\<close>

definition closing :: "pty_event \<Rightarrow> bool" where
  "closing e \<longleftrightarrow> e = SelError \<or> (\<exists>w i. e = SelReady (Some (RData [], w)) i) \<or> (\<exists>w i. e = SelReady (Some (RErr, w)) i)"

lemma loop_closing: "closing e \<Longrightarrow> pty_loop (e # es) p = (True, p)"
  by (auto simp: closing_def)

lemma start_sel [simp]:
  "master_open (pty_start fd t ws)" "to_stdout (pty_start fd t ws) = []" "to_master (pty_start fd t ws) = []"
  by (simp_all add: pty_start_def forward_size_def split: option.split)

lemma run_relays:
  assumes "0 \<le> fd" and "list_all quiet es" and "list_all lossless es" and "closing e"
  shows "fst (pty_bridge_run fd tty0 ws (es @ e # rest)) \<and>
    to_stdout (snd (pty_bridge_run fd tty0 ws (es @ e # rest))) = concat (map from_master es) \<and>
    to_master (snd (pty_bridge_run fd tty0 ws (es @ e # rest))) = concat (map from_stdin es) \<and>
    tty (snd (pty_bridge_run fd tty0 ws (es @ e # rest))) = tty0"
proof -
  obtain p' where "pty_loop (es @ e # rest) (pty_start fd tty0 ws) = pty_loop (e # rest) p'"
    "to_stdout p' = concat (map from_master es)" "to_master p' = concat (map from_stdin es)"
    using pty_loop_relays [OF start_sel(1) pty_inv_start [OF assms(1)] assms(2,3)] by fastforce
  with loop_closing [OF assms(4)] show ?thesis by (simp add: pty_bridge_run_def)
qed

lemma run_terminates:
  assumes "0 \<le> fd" and "list_all quiet es" and "list_all lossless es" and "s = SIGTERM \<or> s = SIGHUP"
    and "\<exists>e \<in> set rest. is_select e"
  shows "fst (pty_bridge_run fd tty0 ws (es @ Deliver s # rest)) \<and>
    to_stdout (snd (pty_bridge_run fd tty0 ws (es @ Deliver s # rest))) = concat (map from_master es) \<and>
    to_master (snd (pty_bridge_run fd tty0 ws (es @ Deliver s # rest))) = concat (map from_stdin es) \<and>
    tty (snd (pty_bridge_run fd tty0 ws (es @ Deliver s # rest))) = tty0"
proof -
  obtain p' where p': "pty_loop (es @ Deliver s # rest) (pty_start fd tty0 ws) = pty_loop (Deliver s # rest) p'"
    "master_open p'" "pty_inv p'"
    "to_stdout p' = concat (map from_master es)" "to_master p' = concat (map from_stdin es)"
    using pty_loop_relays [OF start_sel(1) pty_inv_start [OF assms(1)] assms(2,3)] by fastforce
  have "\<not> master_open (deliver s p')"
    using assms(4) p'(2,3) by (auto simp: on_term_def pty_inv_def Let_def)
  from pty_loop_closed [OF this pty_inv_deliver [OF p'(3)] assms(5)] p'
  show ?thesis by (auto simp: pty_bridge_run_def split: prod.splits bool.splits)
qed

end
