(* ===== verification/Container.thy ===== *)
theory Container
  imports Session_Disk Pty_Bridge Config
begin

text \<open>
  The container manager (\<open>src/src/lib/container.c\<close>): \<open>container_start\<close> derives the paths of
  a session, prepares disk, overlay and console socket and launches \<open>crun\<close>;
  \<open>container_stop\<close> undoes it.  The struct is a record of C strings; an empty string is a
  field that is still zero.
\<close>

section \<open>State and operations\<close>

record container =
  ct_container_id :: string
  ct_session_dir :: string
  ct_image_path :: string
  ct_rootfs :: string
  ct_sock_path :: string
  ct_child_pid :: int

definition ct0 :: container where
  "ct0 = \<lparr>ct_container_id = [], ct_session_dir = [], ct_image_path = [], ct_rootfs = [],
     ct_sock_path = [], ct_child_pid = 0\<rparr>"

definition session_id :: "int \<Rightarrow> int \<Rightarrow> string" where
  "session_id pid now = snprintf_s 64 (''caalsh-'' @ show_int pid @ ''-'' @ show_int now)"

definition crun_delete :: "string \<Rightarrow> os \<Rightarrow> os" where
  "crun_delete container_id w = snd (os_crun_delete container_id w)"

definition derive_paths :: "int \<Rightarrow> int \<Rightarrow> string \<Rightarrow> container \<Rightarrow> container" where
  "derive_paths pid now bundle_path ct =
     (let cid = session_id pid now in
      ct\<lparr>ct_container_id := cid,
         ct_session_dir := snprintf_s 128 (SESSION_DIR @ ''/'' @ cid),
         ct_image_path := snprintf_s 128 (SESSION_DIR @ ''/'' @ cid @ ''.img''),
         ct_rootfs := snprintf_s 128 (bundle_path @ ''/rootfs'')\<rparr>)"

definition upper_path :: "container \<Rightarrow> string" where
  "upper_path ct = snprintf_s 160 (SESSION_DIR @ ''/'' @ ct_container_id ct @ ''/upper'')"

definition work_path :: "container \<Rightarrow> string" where
  "work_path ct = snprintf_s 160 (SESSION_DIR @ ''/'' @ ct_container_id ct @ ''/work'')"

definition overlay_opts :: "container \<Rightarrow> string" where
  "overlay_opts ct =
     snprintf_s 512 (''lowerdir='' @ ct_rootfs ct @ '',upperdir='' @ upper_path ct @
        '',workdir='' @ work_path ct)"

definition crun_argv :: "string \<Rightarrow> container \<Rightarrow> string list" where
  "crun_argv bundle_path ct =
     [''crun'', ''run'', ''--bundle'', bundle_path, ''--console-socket'', ct_sock_path ct, ct_container_id ct]"

definition err_mounted :: "container \<Rightarrow> os \<Rightarrow> os" where
  "err_mounted ct w =
     session_disk_cleanup (ct_session_dir ct) (ct_image_path ct) (snd (os_umount (ct_rootfs ct) w))"

definition err_sock :: "container \<Rightarrow> os \<Rightarrow> os" where
  "err_sock ct w = err_mounted ct (snd (os_unlink (ct_sock_path ct) w))"

text \<open>
  The boolean is \<open>sock_fd >= 0\<close>.  \<open>child\<close> is the process ID that a successful \<open>fork\<close> yields.
\<close>

definition container_start :: "int \<Rightarrow> int \<Rightarrow> int \<Rightarrow> container \<Rightarrow> string \<Rightarrow> 64 word \<Rightarrow> os \<Rightarrow>
    bool \<times> container \<times> os" where
  "container_start pid now child ct_in bundle_path disk_size_mb w =
     (let ct = derive_paths pid now bundle_path ct_in in
      case session_disk_setup (ct_session_dir ct) (ct_image_path ct) disk_size_mb w of
        (False, w1) \<Rightarrow> (False, ct, w1)
      | (True, w1) \<Rightarrow>
          (case os_mount_overlay (ct_rootfs ct) (overlay_opts ct) (upper_path ct) (work_path ct) w1 of
             (False, w2) \<Rightarrow>
               (False, ct, session_disk_cleanup (ct_session_dir ct) (ct_image_path ct) w2)
           | (True, w2) \<Rightarrow>
               (case pty_bridge_init 108 pid w2 of
                  (False, path, w3) \<Rightarrow>
                    (False, ct\<lparr>ct_sock_path := path\<rparr>, err_mounted ct w3)
                | (True, path, w3) \<Rightarrow>
                    (let ct' = ct\<lparr>ct_sock_path := path\<rparr> in
                     case os_crun_run (crun_argv bundle_path ct') (ct_container_id ct') w3 of
                       (False, w4) \<Rightarrow> (False, ct'\<lparr>ct_child_pid := -1\<rparr>, err_sock ct' w4)
                     | (True, w4) \<Rightarrow> (True, ct'\<lparr>ct_child_pid := child\<rparr>, w4)))))"

definition stop_if :: "bool \<Rightarrow> (os \<Rightarrow> os) \<Rightarrow> os \<Rightarrow> os" where
  "stop_if c f w = (if c then f w else w)"

definition container_stop :: "container \<Rightarrow> os \<Rightarrow> container \<times> os" where
  "container_stop ct w =
     (let w1 = stop_if (ct_sock_path ct \<noteq> []) (\<lambda>w. snd (os_unlink (ct_sock_path ct) w)) w;
          w2 = stop_if (ct_rootfs ct \<noteq> []) (\<lambda>w. snd (os_umount (ct_rootfs ct) w)) w1;
          w3 = stop_if (ct_session_dir ct \<noteq> [] \<and> ct_image_path ct \<noteq> [])
                 (session_disk_cleanup (ct_session_dir ct) (ct_image_path ct)) w2;
          w4 = stop_if (ct_container_id ct \<noteq> []) (crun_delete (ct_container_id ct)) w3
      in (ct0, w4))"

section \<open>Sizes\<close>

text \<open>A process ID and a time have at most 11 and 20 characters, so no derived path is cut.\<close>

lemma show_nat_NUL [simp]: "NUL \<notin> set (show_nat n)"
proof
  assume "NUL \<in> set (show_nat n)"
  then obtain d where "d < 10" "NUL = char_of (48 + d :: nat)" using show_nat_digits by blast
  then have "of_char NUL = (48 + d) mod (256::nat)" by (metis of_char_of)
  with \<open>d < 10\<close> show False by simp
qed

lemma show_int_NUL [simp]: "NUL \<notin> set (show_int n)"
  by (simp add: show_int_def)

lemma length_show_int:
  assumes "\<bar>n\<bar> < 10 ^ k" and "0 < k"
  shows "length (show_int n) \<le> Suc k"
  using assms length_show_nat [of "nat \<bar>n\<bar>" k]
  by (auto simp: show_int_def nat_less_iff abs_if split: if_splits)

definition pid_range :: "int \<Rightarrow> bool" where
  "pid_range pid \<longleftrightarrow> 0 < pid \<and> pid < 2 ^ 31"

definition time_range :: "int \<Rightarrow> bool" where
  "time_range now \<longleftrightarrow> 0 \<le> now \<and> now < 2 ^ 63"

lemma length_ids:
  assumes "pid_range pid" and "time_range now"
  shows "length (show_int pid) \<le> 10" "length (show_int now) \<le> 19"
  using assms length_show_nat [of "nat pid" 10] length_show_nat [of "nat now" 19]
  by (auto simp: pid_range_def time_range_def show_int_def nat_less_iff)

lemma session_id_exact:
  assumes "pid_range pid" and "time_range now"
  shows "session_id pid now = ''caalsh-'' @ show_int pid @ ''-'' @ show_int now"
    "length (session_id pid now) \<le> 37" "NUL \<notin> set (session_id pid now)"
proof -
  let ?s = "''caalsh-'' @ show_int pid @ ''-'' @ show_int now"
  have "length ?s \<le> 37" and "NUL \<notin> set ?s" using length_ids [OF assms] by auto
  then have "fits 64 ?s" by (simp add: fits_def)
  then show s: "session_id pid now = ?s" by (simp add: session_id_def snprintf_s_fits)
  show "length (session_id pid now) \<le> 37" "NUL \<notin> set (session_id pid now)"
    unfolding s by fact+
qed

section \<open>What a start leaves\<close>

definition rootfs_of :: "string \<Rightarrow> string" where
  "rootfs_of bundle_path = snprintf_s 128 (bundle_path @ ''/rootfs'')"

abbreviation session_path :: "int \<Rightarrow> int \<Rightarrow> string" where
  "session_path pid now \<equiv> SESSION_DIR @ ''/'' @ session_id pid now"

lemma path_NUL [simp]: "NUL \<notin> set SESSION_DIR"
  by (simp add: SESSION_DIR_def)

lemma paths_exact:
  assumes "pid_range pid" and "time_range now"
  shows "ct_container_id (derive_paths pid now b ct) = session_id pid now"
    "ct_session_dir (derive_paths pid now b ct) = session_path pid now"
    "ct_image_path (derive_paths pid now b ct) = session_path pid now @ ''.img''"
    "ct_rootfs (derive_paths pid now b ct) = rootfs_of b"
    "upper_path (derive_paths pid now b ct) = session_path pid now @ ''/upper''"
    "work_path (derive_paths pid now b ct) = session_path pid now @ ''/work''"
    "fits 128 (session_path pid now)"
  using session_id_exact [OF assms]
  by (auto simp: derive_paths_def upper_path_def work_path_def rootfs_of_def snprintf_s_fits fits_def
      SESSION_DIR_def Let_def)

text \<open>
  The bundle path is a C string, the session's paths are not in use, and the bundle's root is
  not the session directory.
\<close>

definition fresh_session :: "int \<Rightarrow> int \<Rightarrow> string \<Rightarrow> os \<Rightarrow> bool" where
  "fresh_session pid now bundle_path w \<longleftrightarrow> NUL \<notin> set bundle_path \<and>
     fresh_disk (session_path pid now) (session_path pid now @ ''.img'') w \<and>
     session_id pid now \<notin> set (containers w) \<and> rootfs_of bundle_path \<noteq> session_path pid now"

lemma sock_elsewhere:
  assumes "pid_range pid"
  shows "pty_sock_path pid = ''/tmp/caalsh-pty-'' @ show_int pid @ ''.sock''"
    "\<not> below (session_path pid' now) (pty_sock_path pid)" "pty_sock_path pid \<noteq> session_path pid' now @ r"
proof -
  have "length (show_int pid) \<le> 10" using length_ids(1) [OF assms, of 0] by (simp add: time_range_def)
  then show e: "pty_sock_path pid = ''/tmp/caalsh-pty-'' @ show_int pid @ ''.sock''"
    by (auto simp: pty_sock_path_def snprintf_s_fits fits_def)
  show "\<not> below (session_path pid' now) (pty_sock_path pid)"
    "pty_sock_path pid \<noteq> session_path pid' now @ r"
    unfolding e by (simp_all add: below_def SESSION_DIR_def)
qed

definition overlay_mount :: "int \<Rightarrow> int \<Rightarrow> string \<Rightarrow> mount list \<Rightarrow> string list \<Rightarrow> mount" where
  "overlay_mount pid now bundle_path ms ds =
     \<lparr>m_point = rootfs_of bundle_path,
      m_kind = Overlay (top_kind (rootfs_of bundle_path) ms) (session_path pid now @ ''/upper'')
                 (session_path pid now @ ''/work''), m_covered = ds\<rparr>"

text \<open>The resources of a running session, over those it found.\<close>

definition with_session :: "int \<Rightarrow> int \<Rightarrow> string \<Rightarrow> int \<Rightarrow> os \<Rightarrow>
    string list \<times> (string \<times> int) list \<times> mount list \<times> string list" where
  "with_session pid now bundle_path n w =
     (let sd = session_path pid now; img = sd @ ''.img''; sock = pty_sock_path pid;
          (ds, fs, ms, cs) = with_disk sd img n w
      in (ds, (sock, 0) # filter (\<lambda>f. fst f \<noteq> sock) fs, overlay_mount pid now bundle_path ms ds # ms,
          session_id pid now # cs))"

lemma start_ok:
  assumes ids: "pid_range pid" "time_range now"
    and run: "container_start pid now child ct_in bundle_path mb w = (True, ct, w')"
  shows "res w' = with_session pid now bundle_path (image_bytes mb) w"
    "ct_container_id ct = session_id pid now" "ct_session_dir ct = session_path pid now"
    "ct_image_path ct = session_path pid now @ ''.img''" "ct_rootfs ct = rootfs_of bundle_path"
    "ct_sock_path ct = pty_sock_path pid" "ct_child_pid ct = child"
proof -
  note P = paths_exact [OF ids]
  let ?sd = "session_path pid now" let ?img = "session_path pid now @ ''.img''"
  let ?c = "derive_paths pid now bundle_path ct_in"
  obtain w1 w2 path w3 where steps: "session_disk_setup ?sd ?img mb w = (True, w1)"
    "os_mount_overlay (rootfs_of bundle_path) (overlay_opts ?c) (?sd @ ''/upper'') (?sd @ ''/work'') w1 = (True, w2)"
    "pty_bridge_init 108 pid w2 = (True, path, w3)"
    "os_crun_run (crun_argv bundle_path (?c\<lparr>ct_sock_path := path\<rparr>)) (session_id pid now) w3 = (True, w')"
    and ct: "ct = ?c\<lparr>ct_sock_path := path, ct_child_pid := child\<rparr>"
    using run by (auto simp: container_start_def Let_def P split: prod.splits bool.splits)
  note D = setup_ok [OF P(7) steps(1)]
  note M = call_specD [OF call_specs(6) steps(2), simplified]
  note T = pty_init_cases [OF steps(3)]
  note C = call_specD [OF call_specs(13) steps(4), simplified]
  show "res w' = with_session pid now bundle_path (image_bytes mb) w"
    using D(1) M T C by (auto simp: res_def with_session_def with_disk_def overlay_mount_def Let_def)
  show "ct_container_id ct = session_id pid now" "ct_session_dir ct = session_path pid now"
    "ct_image_path ct = session_path pid now @ ''.img''" "ct_rootfs ct = rootfs_of bundle_path"
    "ct_sock_path ct = pty_sock_path pid" "ct_child_pid ct = child"
    using ct T(1) P by auto
qed

section \<open>Stopping, and a start that fails\<close>

lemma stop_if_simps [simp]: "stop_if True f w = f w" "stop_if False f w = w"
  by (simp_all add: stop_if_def)

text \<open>
  The state that the clean-up works on: disk and overlay are the topmost mounts, and the
  directories are those of the disk.
\<close>

lemma disk_and_overlay_down:
  assumes fresh: "fresh_session pid now b w0"
    and ct: "ct_session_dir ct = session_path pid now" "ct_image_path ct = session_path pid now @ ''.img''"
      "ct_rootfs ct = rootfs_of b"
    and d: "with_disk (session_path pid now) (session_path pid now @ ''.img'') n w0 = (ds, fs0, ms, cs)"
    and r: "dirs w = ds" "mnts w = overlay_mount pid now b ms ds # ms" and z: "refusals w = 0"
  shows "res (err_mounted ct w) =
      (dirs w0, filter (\<lambda>f. fst f \<noteq> session_path pid now @ ''.img'' \<and> \<not> below (session_path pid now) (fst f)) (files w),
       mnts w0, containers w)" "refusals (err_mounted ct w) = 0"
proof -
  define w1 where "w1 = snd (os_umount (rootfs_of b) w)"
  have o: "res w1 = (ds, files w, ms, containers w)" "refusals w1 = 0"
    unfolding w1_def using granted_umount [OF z r(2), of "rootfs_of b"] r(1)
    by (simp_all add: overlay_mount_def)
  have "fresh_disk (session_path pid now) (session_path pid now @ ''.img'') w0"
    using fresh by (simp add: fresh_session_def)
  from cleanup_undoes [OF this, of w1] o d
  show "res (err_mounted ct w) =
      (dirs w0, filter (\<lambda>f. fst f \<noteq> session_path pid now @ ''.img'' \<and> \<not> below (session_path pid now) (fst f)) (files w),
       mnts w0, containers w)" "refusals (err_mounted ct w) = 0"
    by (auto simp: err_mounted_def ct with_disk_def res_def simp flip: w1_def)
qed

text \<open>Where the files are those of a session up to the console socket.\<close>

lemma session_files:
  assumes "fresh_disk sd img w0" and "filter (\<lambda>f. fst f \<noteq> p) fs = filter (\<lambda>f. fst f \<noteq> p) ((img, n) # files w0)"
  shows "filter (\<lambda>f. fst f \<noteq> p) (filter (\<lambda>f. fst f \<noteq> img \<and> \<not> below sd (fst f)) fs) =
    filter (\<lambda>f. fst f \<noteq> p) (files w0)"
proof -
  let ?q = "\<lambda>f. fst f \<noteq> img \<and> \<not> below sd (fst f)"
  have "filter (\<lambda>f. fst f \<noteq> p) (filter ?q fs) = filter ?q (filter (\<lambda>f. fst f \<noteq> p) fs)"
    by (simp add: conj_commute)
  also have "\<dots> = filter ?q (filter (\<lambda>f. fst f \<noteq> p) (files w0))"
    using assms(2) by simp
  also have "\<dots> = filter (\<lambda>f. fst f \<noteq> p) (files w0)"
    using fresh_files(2) [OF assms(1)] by metis
  finally show ?thesis .
qed

lemma start_fail_restores:
  assumes ids: "pid_range pid" "time_range now" and fresh: "fresh_session pid now b w0"
    and run: "container_start pid now child ct_in b mb w0 = (False, ct, w')"
    and disk: "fst (session_disk_setup (session_path pid now) (session_path pid now @ ''.img'') mb w0)"
    and one: "refusals w0 \<le> 1"
  shows "dirs w' = dirs w0 \<and> mnts w' = mnts w0 \<and> containers w' = containers w0 \<and>
    filter (\<lambda>f. fst f \<noteq> pty_sock_path pid) (files w') = filter (\<lambda>f. fst f \<noteq> pty_sock_path pid) (files w0)"
proof -
  note P = paths_exact [OF ids]
  let ?sd = "session_path pid now" let ?img = "session_path pid now @ ''.img''"
  let ?c = "derive_paths pid now b ct_in" let ?n = "image_bytes mb"
  let ?ns = "filter (\<lambda>f. fst f \<noteq> pty_sock_path pid)"
  have fd: "fresh_disk ?sd ?img w0" using fresh by (simp add: fresh_session_def)
  obtain w1 where s1: "session_disk_setup ?sd ?img mb w0 = (True, w1)"
    using disk by (cases "session_disk_setup ?sd ?img mb w0") auto
  note D = setup_ok [OF P(7) s1]
  obtain o2 w2 where s2: "os_mount_overlay (rootfs_of b) (overlay_opts ?c) (?sd @ ''/upper'') (?sd @ ''/work'') w1 = (o2, w2)"
    by (cases "os_mount_overlay (rootfs_of b) (overlay_opts ?c) (?sd @ ''/upper'') (?sd @ ''/work'') w1")
  note M = call_specD [OF call_specs(6) s2, simplified]
  show ?thesis
  proof (cases o2)
    case False
    then have r: "res w2 = with_disk ?sd ?img ?n w0" "refusals w2 = 0" using M D one by auto
    have "w' = session_disk_cleanup ?sd ?img w2"
      using run s1 s2 False by (simp add: container_start_def Let_def P)
    with cleanup_undoes [OF fd, of w2] r session_files [OF fd, of "pty_sock_path pid" "files w2" ?n]
    show ?thesis by (simp add: with_disk_def res_def)
  next
    case True
    obtain ds fs0 ms cs where d: "with_disk ?sd ?img ?n w0 = (ds, fs0, ms, cs)"
      and d': "fs0 = (?img, ?n) # files w0" "cs = containers w0" by (simp add: with_disk_def)
    have r2: "dirs w2 = ds" "files w2 = fs0" "mnts w2 = overlay_mount pid now b ms ds # ms" "containers w2 = cs"
      "refusals w2 \<le> 1"
      using M True D one d by (auto simp: res_def overlay_mount_def)
    obtain o3 path w3 where s3: "pty_bridge_init 108 pid w2 = (o3, path, w3)"
      by (cases "pty_bridge_init 108 pid w2")
    note T = pty_init_cases [OF s3]
    have finish: ?thesis if "w' = err_mounted c4 w4" "ct_session_dir c4 = ?sd" "ct_image_path c4 = ?img"
      "ct_rootfs c4 = rootfs_of b" "dirs w4 = ds" "mnts w4 = overlay_mount pid now b ms ds # ms"
      "refusals w4 = 0" "containers w4 = cs" "?ns (files w4) = ?ns ((?img, ?n) # files w0)" for c4 w4
      using disk_and_overlay_down [OF fresh that(2-4) d that(5-7)] that(1,8) d'
        session_files [OF fd that(9)] by (simp add: res_def)
    show ?thesis
    proof (cases o3)
      case False
      show ?thesis
        by (rule finish [of ?c w3])
          (use run s1 s2 s3 True False T r2 d' in \<open>simp_all add: container_start_def Let_def P\<close>)
    next
      case o3: True
      let ?c3 = "?c\<lparr>ct_sock_path := path\<rparr>"
      obtain o4 w4 where s4: "os_crun_run (crun_argv b ?c3) (session_id pid now) w3 = (o4, w4)"
        by (cases "os_crun_run (crun_argv b ?c3) (session_id pid now) w3")
      note C = call_specD [OF call_specs(13) s4, simplified]
      have o4: "\<not> o4" and w': "w' = err_mounted ?c3 (snd (os_unlink path w4))"
        using run s1 s2 s3 s4 True o3 by (cases o4; simp add: container_start_def Let_def P err_sock_def err_mounted_def)+
      have "refusals w4 = 0" using C(5) o4 T(7) r2(5) by simp
      note U = granted_unlink [OF this, of path]
      show ?thesis
        by (rule finish [OF w'])
          (use U C(4) o4 T(1-5) r2 d' in \<open>simp_all add: res_def P\<close>)
    qed
  qed
qed

text \<open>A session that started and is stopped, all calls granted, leaves what it found.\<close>

lemma stop_from:
  assumes ids: "pid_range pid" "time_range now" and fresh: "fresh_session pid now b w0"
    and run: "container_start pid now child ct_in b mb w0 = (True, ct, w')"
    and same: "res w = res w'" and z: "refusals w = 0"
  shows "fst (container_stop ct w) = ct0"
    "res (snd (container_stop ct w)) =
      (dirs w0, filter (\<lambda>f. fst f \<noteq> pty_sock_path pid) (files w0), mnts w0, containers w0)"
    "refusals (snd (container_stop ct w)) = 0"
proof -
  let ?sd = "session_path pid now" let ?img = "session_path pid now @ ''.img''"
  note S = start_ok [OF ids run]
  obtain ds fs0 ms cs where d: "with_disk ?sd ?img (image_bytes mb) w0 = (ds, fs0, ms, cs)"
    and d': "fs0 = (?img, image_bytes mb) # files w0" "cs = containers w0" by (simp add: with_disk_def)
  have fd: "fresh_disk ?sd ?img w0" and cid: "session_id pid now \<notin> set (containers w0)"
    using fresh by (auto simp: fresh_session_def)
  have r: "dirs w = ds" "mnts w = overlay_mount pid now b ms ds # ms" "containers w = session_id pid now # cs"
    "files w = (pty_sock_path pid, 0) # filter (\<lambda>f. fst f \<noteq> pty_sock_path pid) fs0"
    using S(1) d same by (simp_all add: with_session_def Let_def res_def)
  define w1 where "w1 = snd (os_unlink (pty_sock_path pid) w)"
  have U: "dirs w1 = ds" "mnts w1 = overlay_mount pid now b ms ds # ms" "containers w1 = session_id pid now # cs"
    "files w1 = filter (\<lambda>f. fst f \<noteq> pty_sock_path pid) fs0" "refusals w1 = 0"
    using granted_unlink [OF z, of "pty_sock_path pid"] r by (simp_all add: res_def w1_def)
  define w2 where "w2 = err_mounted ct w1"
  note E = disk_and_overlay_down [OF fresh S(3-5) d U(1,2,5), folded w2_def]
  have ne: "pty_sock_path pid \<noteq> []" "rootfs_of b \<noteq> []" "?sd \<noteq> []" "session_id pid now \<noteq> []"
    using sock_elsewhere(1) [OF ids(1)] session_id_exact(1) [OF ids] fresh
    by (simp_all add: fresh_session_def rootfs_of_def snprintf_s_def SESSION_DIR_def)
  have stop: "container_stop ct w = (ct0, crun_delete (session_id pid now) w2)"
    using ne by (simp add: container_stop_def S w1_def w2_def err_mounted_def Let_def)
  have fs: "files w2 = filter (\<lambda>f. fst f \<noteq> pty_sock_path pid) (files w0)"
  proof -
    have "filter (\<lambda>f. fst f \<noteq> pty_sock_path pid) (files w1) = files w1" using U(4) by simp
    moreover have "filter (\<lambda>f. fst f \<noteq> pty_sock_path pid) (files w2) =
        filter (\<lambda>f. fst f \<noteq> pty_sock_path pid) (files w0)"
      using E(1) U(4) d' session_files [OF fd, of "pty_sock_path pid" "files w1" "image_bytes mb"]
      by (simp add: res_def)
    moreover have "files w2 = filter (\<lambda>f. fst f \<noteq> pty_sock_path pid) (files w2)"
      using E(1) U(4) by (simp add: res_def conj_commute conj_left_commute)
    ultimately show ?thesis by simp
  qed
  show "fst (container_stop ct w) = ct0" by (simp add: stop)
  show "res (snd (container_stop ct w)) =
      (dirs w0, filter (\<lambda>f. fst f \<noteq> pty_sock_path pid) (files w0), mnts w0, containers w0)"
    "refusals (snd (container_stop ct w)) = 0"
    using E fs U(3) d' cid call_granted(14) [OF E(2), of "session_id pid now"]
      call_refusals(14) [OF E(2), of "session_id pid now"]
    by (auto simp: stop crun_delete_def res_def filter_id_conv)
qed

section \<open>Two sessions on one bundle\<close>

lemma drop_mount_absent: "p \<notin> m_point ` set ms \<Longrightarrow> drop_mount p ms = ms"
  by (induction ms) auto

lemma umount_mnts:
  assumes "refusals w = 0"
  shows "mnts (snd (os_umount p w)) = drop_mount p (mnts w)" "refusals (snd (os_umount p w)) = 0"
  using call_granted(7) [OF assms, of p] call_refusals(7) [OF assms, of p]
  by (auto simp: res_def mounted_def drop_mount_absent split: if_splits)

lemma cleanup_mnts:
  assumes "refusals w = 0"
  shows "mnts (session_disk_cleanup sd img w) = drop_mount sd (mnts w)"
    "refusals (session_disk_cleanup sd img w) = 0"
proof -
  define w1 where "w1 = snd (os_umount sd w)"
  define w2 where "w2 = snd (os_unlink img w1)"
  have z: "refusals w1 = 0" "mnts w1 = drop_mount sd (mnts w)"
    using umount_mnts [OF assms] by (simp_all add: w1_def)
  have z2: "refusals w2 = 0" "mnts w2 = mnts w1"
    using granted_unlink [OF z(1)] by (simp_all add: w2_def res_def)
  show "mnts (session_disk_cleanup sd img w) = drop_mount sd (mnts w)"
    "refusals (session_disk_cleanup sd img w) = 0"
    using z z2 call_granted(9) [OF z2(1), of sd] call_refusals(9) [OF z2(1), of sd]
    by (simp_all add: session_disk_cleanup_def Let_def res_def flip: w1_def w2_def)
qed

lemma stop_mnts:
  assumes "refusals w = 0"
    and "ct_rootfs ct \<noteq> []" "ct_session_dir ct \<noteq> []" "ct_image_path ct \<noteq> []"
  shows "mnts (snd (container_stop ct w)) = drop_mount (ct_session_dir ct) (drop_mount (ct_rootfs ct) (mnts w))"
proof -
  define w1 where "w1 = stop_if (ct_sock_path ct \<noteq> []) (\<lambda>w. snd (os_unlink (ct_sock_path ct) w)) w"
  have 1: "refusals w1 = 0" "mnts w1 = mnts w"
    using granted_unlink [OF assms(1), of "ct_sock_path ct"] assms(1)
    by (auto simp: w1_def stop_if_def res_def)
  define w2 where "w2 = snd (os_umount (ct_rootfs ct) w1)"
  have 2: "refusals w2 = 0" "mnts w2 = drop_mount (ct_rootfs ct) (mnts w)"
    using umount_mnts [OF 1(1)] 1(2) by (simp_all add: w2_def)
  define w3 where "w3 = session_disk_cleanup (ct_session_dir ct) (ct_image_path ct) w2"
  have 3: "refusals w3 = 0" "mnts w3 = drop_mount (ct_session_dir ct) (drop_mount (ct_rootfs ct) (mnts w))"
    using cleanup_mnts [OF 2(1)] 2(2) by (simp_all add: w3_def)
  have "snd (container_stop ct w) = stop_if (ct_container_id ct \<noteq> []) (crun_delete (ct_container_id ct)) w3"
    using assms(2-4) by (simp add: container_stop_def Let_def stop_if_def w1_def w2_def w3_def)
  then show ?thesis
    using 3 call_granted(14) [OF 3(1), of "ct_container_id ct"]
    by (auto simp: stop_if_def crun_delete_def res_def)
qed

text \<open>The mounts of a running session, topmost first.\<close>

definition session_mounts :: "int \<Rightarrow> int \<Rightarrow> string \<Rightarrow> os \<Rightarrow> mount list" where
  "session_mounts pid now b w =
     (let (ds, _, ms, _) = with_disk (session_path pid now) (session_path pid now @ ''.img'') 0 w
      in overlay_mount pid now b ms ds # ms)"

lemma session_mounts_eq:
  "session_mounts pid now b w =
   [overlay_mount pid now b
      (\<lparr>m_point = session_path pid now, m_kind = LoopMount (session_path pid now @ ''.img''),
        m_covered = session_path pid now # dirs w\<rparr> # mnts w)
      ((session_path pid now @ ''/work'') # (session_path pid now @ ''/upper'') # session_path pid now # dirs w),
    \<lparr>m_point = session_path pid now, m_kind = LoopMount (session_path pid now @ ''.img''),
     m_covered = session_path pid now # dirs w\<rparr>] @ mnts w"
  by (simp add: session_mounts_def with_disk_def)

lemma start_mounts:
  assumes "pid_range pid" and "time_range now"
    and "container_start pid now child ct_in b mb w = (True, ct, w')"
  shows "mnts w' = session_mounts pid now b w" "session_path pid now \<in> set (dirs w')"
  using start_ok(1) [OF assms]
  by (auto simp: res_def with_session_def session_mounts_def with_disk_def Let_def)

lemma two_on_one_bundle:
  assumes idA: "pid_range pidA" "time_range nowA" and idB: "pid_range pidB" "time_range nowB"
    and fA: "fresh_session pidA nowA b w0" and fB: "fresh_session pidB nowB b w1"
    and A: "container_start pidA nowA chA ct0 b mbA w0 = (True, ctA, w1)"
    and B: "container_start pidB nowB chB ct0 b mbB w1 = (True, ctB, w2)"
    and z: "refusals w2 = 0"
  shows "mnts w2 = take 2 (session_mounts pidB nowB b w1) @ session_mounts pidA nowA b w0"
    "mnts (snd (container_stop ctA w2)) =
      [session_mounts pidB nowB b w1 ! 1, session_mounts pidA nowA b w0 ! 0] @ mnts w0"
proof -
  note SA = start_mounts [OF idA A] start_ok [OF idA A]
  note SB = start_mounts [OF idB B]
  show m2: "mnts w2 = take 2 (session_mounts pidB nowB b w1) @ session_mounts pidA nowA b w0"
    using SA(1) SB(1) by (simp add: session_mounts_eq)
  have ne: "session_path pidA nowA \<noteq> session_path pidB nowB"
    using SA(2) fB by (auto simp: fresh_session_def fresh_disk_def)
  have roots: "rootfs_of b \<noteq> session_path pidA nowA" "rootfs_of b \<noteq> session_path pidB nowB" "rootfs_of b \<noteq> []"
    using fA fB by (auto simp: fresh_session_def rootfs_of_def snprintf_s_def)
  show "mnts (snd (container_stop ctA w2)) =
      [session_mounts pidB nowB b w1 ! 1, session_mounts pidA nowA b w0 ! 0] @ mnts w0"
    using stop_mnts [OF z, of ctA] SA roots ne
    by (simp add: m2 session_mounts_eq overlay_mount_def SESSION_DIR_def)
qed

section \<open>The trace\<close>

lemma extends_err_mounted [simp]: "extends w (err_mounted ct w)"
  unfolding err_mounted_def
  by (rule extends_trans [OF tracing_snd [OF tracing_calls(7)] extends_cleanup])

lemma extends_err_sock [simp]: "extends w (err_sock ct w)"
  unfolding err_sock_def
  by (rule extends_trans [OF tracing_snd [OF tracing_calls(8)] extends_err_mounted])

lemma extends_start:
  assumes "container_start pid now child ct_in b mb w = (ok, ct, w')"
  shows "extends w w'"
  using assms
  by (auto simp: container_start_def Let_def split: prod.splits bool.splits if_splits
      dest!: tracingD [OF tracing_setup] tracingD [OF tracing_calls(6)] tracingD [OF tracing_calls(13)]
        extends_pty_init
      intro: extends_trans extends_trans [OF _ extends_err_mounted] extends_trans [OF _ extends_err_sock]
        extends_trans [OF _ extends_cleanup])

lemma extends_stop [simp]: "extends w (snd (container_stop ct w))"
proof -
  have s: "extends w (stop_if c f w)" if "\<And>w. extends w (f w)" for c f w
    using that by (simp add: stop_if_def)
  show ?thesis
    unfolding container_stop_def Let_def snd_conv
    by (intro extends_trans [OF s extends_trans [OF s extends_trans [OF s s]]])
      (simp_all add: tracing_snd crun_delete_def)
qed

section \<open>A start succeeds when nothing is refused\<close>

lemma start_granted:
  assumes ids: "pid_range pid" "time_range now" and fresh: "fresh_session pid now b w"
    and pos: "0 < image_bytes mb" and z: "refusals w = 0"
  obtains ct w' where "container_start pid now child ct_in b mb w = (True, ct, w')" "refusals w' = 0"
proof -
  note P = paths_exact [OF ids]
  let ?sd = "session_path pid now" let ?img = "session_path pid now @ ''.img''"
  let ?c = "derive_paths pid now b ct_in"
  have "fst (session_disk_setup ?sd ?img mb w)"
    by (rule setup_granted [OF P(7) _ pos z]) (use fresh in \<open>simp add: fresh_session_def\<close>)
  then obtain w1 where 1: "session_disk_setup ?sd ?img mb w = (True, w1)"
    by (cases "session_disk_setup ?sd ?img mb w") auto
  then have z1: "refusals w1 = 0" using setup_ok(2) [OF P(7)] z by simp
  obtain w2 where 2: "os_mount_overlay (rootfs_of b) (overlay_opts ?c) (?sd @ ''/upper'') (?sd @ ''/work'') w1 = (True, w2)"
    "refusals w2 = 0"
    by (rule granted_step [OF call_specs(6) z1]) auto
  obtain path w3 where 3: "pty_bridge_init 108 pid w2 = (True, path, w3)"
    using pty_init_granted [OF 2(2), of pid] by (cases "pty_bridge_init 108 pid w2") auto
  have z3: "refusals w3 = 0" using pty_init_cases(7) [OF 3] 2(2) by simp
  obtain w4 where 4: "os_crun_run (crun_argv b (?c\<lparr>ct_sock_path := path\<rparr>)) (session_id pid now) w3 = (True, w4)"
    "refusals w4 = 0"
    by (rule granted_step [OF call_specs(13) z3]) auto
  show thesis
    by (rule that [OF _ 4(2)]) (use 1 2 3 4 in \<open>simp_all add: container_start_def Let_def P\<close>)
qed

text \<open>
  The bundle's root is cut exactly when the path is longer than 120 bytes.
\<close>

lemma rootfs_exact:
  assumes "NUL \<notin> set b"
  shows "rootfs_of b = b @ ''/rootfs'' \<longleftrightarrow> length b \<le> 120"
proof -
  have c: "rootfs_of b = take 127 (b @ ''/rootfs'')" using assms by (simp add: rootfs_of_def snprintf_s_def)
  show ?thesis
  proof
    assume "rootfs_of b = b @ ''/rootfs''"
    then have "length (take 127 (b @ ''/rootfs'')) = length (b @ ''/rootfs'')" using c by simp
    then show "length b \<le> 120" by simp
  qed (simp add: c)
qed

text \<open>A disk whose reservation is refused stays behind: \<open>container_start\<close> returns at once.\<close>

lemma disk_refused_leaks:
  assumes ids: "pid_range pid" "time_range now" and fresh: "fresh_session pid now b w"
    and v: "verdicts w = True # True # False # vs"
  shows "\<exists>ct w'. container_start pid now child ct_in b mb w = (False, ct, w') \<and>
    res w' = (session_path pid now # dirs w, (session_path pid now @ ''.img'', 0) # files w, mnts w, containers w)"
proof -
  note P = paths_exact [OF ids]
  let ?sd = "session_path pid now" let ?img = "session_path pid now @ ''.img''"
  have f: "?sd \<notin> set (dirs w)" "?img \<notin> fst ` set (files w)"
    using fresh by (auto simp: fresh_session_def fresh_disk_def)
  have "\<exists>w'. session_disk_setup ?sd ?img mb w = (False, w') \<and>
      res w' = (?sd # dirs w, (?img, 0) # files w, mnts w, containers w)"
    using f v
    by (auto simp: session_disk_setup_def os_mkdir_def os_open_excl_def os_fallocate_def attempt_def ask_def
        res_def image_iff simp flip: append_assoc)
  then show ?thesis by (auto simp: container_start_def Let_def P)
qed

text \<open>What is mounted on the bundle's root with two sessions, and after the first one stopped.\<close>

lemma overlays_stack:
  assumes idA: "pid_range pidA" "time_range nowA" and idB: "pid_range pidB" "time_range nowB"
    and fA: "fresh_session pidA nowA b w0" and fB: "fresh_session pidB nowB b w1"
    and A: "container_start pidA nowA chA ct0 b mbA w0 = (True, ctA, w1)"
    and B: "container_start pidB nowB chB ct0 b mbB w1 = (True, ctB, w2)"
    and z: "refusals w2 = 0"
  shows "(\<exists>lower. top_kind (rootfs_of b) (mnts w2) =
      Some (Overlay (Some (Overlay lower (session_path pidA nowA @ ''/upper'') (session_path pidA nowA @ ''/work'')))
              (session_path pidB nowB @ ''/upper'') (session_path pidB nowB @ ''/work''))) \<and>
    (\<exists>lower. top_kind (rootfs_of b) (mnts (snd (container_stop ctA w2))) =
      Some (Overlay lower (session_path pidA nowA @ ''/upper'') (session_path pidA nowA @ ''/work'')))"
proof -
  have ne: "rootfs_of b \<noteq> session_path pidA nowA" "rootfs_of b \<noteq> session_path pidB nowB"
    using fA fB by (auto simp: fresh_session_def)
  show ?thesis
    using two_on_one_bundle [OF assms] start_mounts(1) [OF idA A] ne
    by (auto simp: session_mounts_eq overlay_mount_def top_kind_def)
qed

section \<open>Names are unique\<close>

definition read_nat :: "string \<Rightarrow> nat" where
  "read_nat s = foldl (\<lambda>a c. 10 * a + (of_char c - 48)) 0 s"

lemma read_show_nat: "read_nat (show_nat n) = n"
proof (induction n rule: show_nat.induct)
  case (1 n)
  have d: "(of_char (char_of (48 + m :: nat) :: char) :: nat) = 48 + m" if "m < 10" for m
    using that by simp
  show ?case
  proof (cases "n < 10")
    case True
    then show ?thesis using d [of n] by (simp add: show_nat.simps [of n] read_nat_def)
  next
    case False
    have "show_nat n = show_nat (n div 10) @ [char_of (48 + n mod 10)]" using False by (subst show_nat.simps) simp
    moreover have "read_nat (show_nat (n div 10)) = n div 10" using 1 False by simp
    ultimately show ?thesis using d [of "n mod 10"] by (simp add: read_nat_def)
  qed
qed

lemma minus_not_digit: "CHR ''-'' \<notin> set (show_nat n)"
proof
  assume "CHR ''-'' \<in> set (show_nat n)"
  then obtain d where "d < 10" "CHR ''-'' = char_of (48 + d :: nat)" using show_nat_digits by blast
  then have "of_char CHR ''-'' = (48 + d) mod (256::nat)" by (metis of_char_of)
  with \<open>d < 10\<close> show False by simp
qed

lemma split_at_minus:
  assumes "CHR ''-'' \<notin> set a" and "CHR ''-'' \<notin> set a'" and "a @ CHR ''-'' # b = a' @ CHR ''-'' # b'"
  shows "a = a' \<and> b = b'"
  using assms by (induction a arbitrary: a') (case_tac a'; auto)+

lemma session_id_inj:
  assumes "pid_range pid" "time_range now" "pid_range pid'" "time_range now'"
    and "session_id pid now = session_id pid' now'"
  shows "pid = pid' \<and> now = now'"
proof -
  have "show_nat (nat pid) @ CHR ''-'' # show_nat (nat now) = show_nat (nat pid') @ CHR ''-'' # show_nat (nat now')"
    using assms session_id_exact(1) [OF assms(1,2)] session_id_exact(1) [OF assms(3,4)]
    by (simp add: show_int_def pid_range_def time_range_def)
  then have "show_nat (nat pid) = show_nat (nat pid')" "show_nat (nat now) = show_nat (nat now')"
    using split_at_minus [OF minus_not_digit minus_not_digit] by blast+
  then have "nat pid = nat pid'" "nat now = nat now'" by (metis read_show_nat)+
  with assms show ?thesis by (simp add: pid_range_def time_range_def eq_nat_nat_iff)
qed

text \<open>Stopping leaves the struct zeroed, and stopping again makes no call.\<close>

lemma second_stop_idle:
  "fst (container_stop ct w) = ct0 \<and> container_stop (fst (container_stop ct w)) w' = (ct0, w')"
  by (simp add: container_stop_def ct0_def Let_def)

end
