(* ===== verification/Shell.thy ===== *)
theory Shell
  imports Client Container
begin

text \<open>
  The login shell (\<open>src/src/caalsh.c\<close>): the access decision from the configuration, the
  minimal environment, the container, the optional timer, registration with the daemon, the
  terminal proxy, and the tear-down.  Everything the host decides is a field of the
  environment record; the connections to the daemon are channels whose final state is part
  of the outcome.
\<close>

section \<open>Active sessions\<close>

definition dir_count :: "(string \<times> bool) list option \<Rightarrow> int" where
  "dir_count entries =
     (case entries of
        None \<Rightarrow> 0
      | Some es \<Rightarrow> int (length (filter (\<lambda>(d_name, is_dir). take 7 d_name = ''caalsh-'' \<and> is_dir) es)))"

text \<open>The count and what was written to stderr.\<close>

definition count_active_sessions :: "chan option \<Rightarrow> (string \<times> bool) list option \<Rightarrow> int \<times> string list" where
  "count_active_sessions conn entries =
     (case conn of
        None \<Rightarrow> (dir_count entries, [])
      | Some fd \<Rightarrow>
          (let count = fst (caald_session_count fd) in
           if 0 \<le> count then (count, [])
           else (dir_count entries, [''[CaaLsh] daemon query failed, falling back''])))"

section \<open>The access decision\<close>

record login =
  lg_bundle :: string
  lg_timeout :: "64 word"
  lg_disk :: "64 word"

definition user_key :: "string \<Rightarrow> string \<Rightarrow> string" where
  "user_key username field = snprintf_s 128 (username @ field)"

definition config_limit :: "datum \<Rightarrow> int" where
  "config_limit toptab = (case toml_seek toptab ''max_sessions'' of DInt64 f i \<Rightarrow> sint i | _ \<Rightarrow> 0)"

definition config_timeout :: "datum \<Rightarrow> string \<Rightarrow> 64 word" where
  "config_timeout toptab username =
     (case toml_seek toptab (user_key username ''.timeout'') of DInt64 f i \<Rightarrow> i | _ \<Rightarrow> 0)"

definition config_disk :: "datum \<Rightarrow> string \<Rightarrow> 64 word" where
  "config_disk toptab username =
     (case toml_seek toptab (user_key username ''.disk'') of
        DInt64 f i \<Rightarrow> if 0 < sint i then i else 1024
      | _ \<Rightarrow> 1024)"

definition user_disabled :: "datum \<Rightarrow> string \<Rightarrow> bool" where
  "user_disabled toptab username =
     (case toml_seek toptab (user_key username ''.enabled'') of DBoolean f b \<Rightarrow> \<not> b | _ \<Rightarrow> False)"

text \<open>
  From the session limit to the disk size: the denial message, or what to run.  The first
  component is what \<open>count_active_sessions\<close> printed.
\<close>

definition check_bundle :: "datum \<Rightarrow> string \<Rightarrow> string + login" where
  "check_bundle toptab username =
     (let bundle_datum = toml_seek toptab (user_key username ''.bundle'') in
      if dtype bundle_datum = TOML_UNKNOWN then Inl ''[CaaLsh] user not configured, access denied''
      else case bundle_datum of
        DString f s \<Rightarrow>
          (let bundle_path = cstr s in
           if take 1 bundle_path \<noteq> ''/'' then Inl ''[CaaLsh] bundle path must be absolute''
           else if user_disabled toptab username then Inl ''[CaaLsh] user disabled, access denied''
           else Inr \<lparr>lg_bundle = bundle_path, lg_timeout = config_timeout toptab username,
                     lg_disk = config_disk toptab username\<rparr>)
      | _ \<Rightarrow> Inl ''[CaaLsh] bundle is not a string'')"

definition check_login :: "datum \<Rightarrow> string \<Rightarrow> chan option \<Rightarrow> (string \<times> bool) list option \<Rightarrow>
    string list \<times> (string + login)" where
  "check_login toptab username conn entries =
     (let max_sess = config_limit toptab in
      if 0 < max_sess then
        (let (n, msgs) = count_active_sessions conn entries in
         if max_sess \<le> n then (msgs, Inl ''[CaaLsh] max sessions reached, try again later'')
         else (msgs, check_bundle toptab username))
      else ([], check_bundle toptab username))"

section \<open>Running a session\<close>

record shell_env =
  pw_name :: "string option"
  config :: cfg_read
  count_conn :: "chan option"
  session_entries :: "(string \<times> bool) list option"
  getpid :: int
  time_now :: int
  crun_pid :: int
  timer_fork :: int
  register_conn :: "chan option"
  pty_hello :: recv_env
  tty_in :: "tty_mode option"
  tty_size :: "(nat \<times> nat) option"
  pty_events :: "pty_event list"
  unregister_conn :: "chan option"

text \<open>\<open>sh_exit\<close> is nothing while the proxy is still waiting for events.\<close>

record shell_out =
  sh_exit :: "int option"
  sh_stderr :: "string list"
  sh_os :: os
  sh_register :: "chan option"
  sh_unregister :: "chan option"

definition exit_with :: "int \<Rightarrow> string list \<Rightarrow> os \<Rightarrow> shell_env \<Rightarrow> shell_out" where
  "exit_with code msgs w e =
     \<lparr>sh_exit = Some code, sh_stderr = msgs, sh_os = w, sh_register = register_conn e,
      sh_unregister = unregister_conn e\<rparr>"

definition SAFE_PATH :: string where
  "SAFE_PATH = ''/usr/local/sbin:/usr/local/bin:/usr/sbin:/usr/bin:/sbin:/bin''"

definition os_clearenv :: "os \<Rightarrow> bool \<times> os" where
  "os_clearenv = attempt Clearenv (\<lambda>w. True) (\<lambda>w. w)"

definition os_setenv :: "string \<Rightarrow> string \<Rightarrow> os \<Rightarrow> bool \<times> os" where
  "os_setenv name value = attempt (Setenv name value) (\<lambda>w. True) (\<lambda>w. w)"

text \<open>
  The watchdog: nothing when \<open>timeout\<close> is not positive or the fork fails, otherwise the
  seconds it sleeps.  The new state and the value of \<open>timer_pid\<close>.
\<close>

definition timer_seconds :: "64 word \<Rightarrow> nat" where
  "timer_seconds timeout = unat (ucast timeout :: 32 word)"

definition start_timer :: "64 word \<Rightarrow> shell_env \<Rightarrow> os \<Rightarrow> int \<times> os" where
  "start_timer timeout e w =
     (if 0 < sint timeout
      then (timer_fork e, if 0 < timer_fork e then log_call (StartTimer (timer_seconds timeout)) w else w)
      else (-1, w))"

definition do_register :: "string \<Rightarrow> string \<Rightarrow> shell_env \<Rightarrow> os \<Rightarrow> string list \<times> chan option \<times> os" where
  "do_register username cid e w =
     (case register_conn e of
        None \<Rightarrow> ([], None, w)
      | Some fd \<Rightarrow>
          (let (ok, fd') = caald_session_register fd username cid (word_of_int (getpid e)) in
           (if ok then [] else [''[CaaLsh] daemon register failed (is it running?)''],
            Some fd', log_call (Registered cid) w)))"

definition do_unregister :: "string \<Rightarrow> shell_env \<Rightarrow> os \<Rightarrow> chan option \<times> os" where
  "do_unregister cid e w =
     (case unregister_conn e of
        None \<Rightarrow> (None, w)
      | Some fd \<Rightarrow> (Some (snd (caald_session_unregister fd cid)), log_call (Unregistered cid) w))"

text \<open>After a successful \<open>container_start\<close>.\<close>

definition run_session :: "string \<Rightarrow> 64 word \<Rightarrow> container \<Rightarrow> string list \<Rightarrow> shell_env \<Rightarrow> os \<Rightarrow> shell_out" where
  "run_session username timeout ct msgs e w =
     (let (timer_pid, w1) = start_timer timeout e w;
          (msgs1, reg, w2) = do_register username (ct_container_id ct) e w1;
          master_fd = pty_bridge_recv (pty_hello e) in
      if master_fd < 0
      then (exit_with 1 (msgs @ msgs1 @ [''[CaaLsh] pty_bridge_recv failed'']) (snd (container_stop ct w2)) e)
             \<lparr>sh_register := reg\<rparr>
      else
        let w3 = log_call PtyRun w2 in
        case pty_bridge_run master_fd (tty_in e) (tty_size e) (pty_events e) of
          (False, p) \<Rightarrow>
            \<lparr>sh_exit = None, sh_stderr = msgs @ msgs1, sh_os = w3, sh_register = reg,
             sh_unregister = unregister_conn e\<rparr>
        | (True, p) \<Rightarrow>
            (let w4 = (if 0 < timer_pid then log_call KillTimer w3 else w3);
                 (unreg, w5) = do_unregister (ct_container_id ct) e w4 in
             \<lparr>sh_exit = Some 0, sh_stderr = msgs @ msgs1 @ [''[CaaLsh] session cleaned up''],
              sh_os = snd (container_stop ct w5), sh_register = reg, sh_unregister = unreg\<rparr>))"

definition launch :: "string \<Rightarrow> login \<Rightarrow> string list \<Rightarrow> shell_env \<Rightarrow> os \<Rightarrow> shell_out" where
  "launch username lg msgs e w =
     (case os_clearenv w of
        (False, w1) \<Rightarrow> exit_with 1 (msgs @ [''[CaaLsh] clearenv failed'']) w1 e
      | (True, w1) \<Rightarrow>
          (case os_setenv ''PATH'' SAFE_PATH w1 of
             (False, w2) \<Rightarrow> exit_with 1 (msgs @ [''[CaaLsh] setenv failed'']) w2 e
           | (True, w2) \<Rightarrow>
               (case container_start (getpid e) (time_now e) (crun_pid e) ct0 (lg_bundle lg) (lg_disk lg) w2 of
                  (False, ct, w3) \<Rightarrow> exit_with 1 msgs w3 e
                | (True, ct, w3) \<Rightarrow> run_session username (lg_timeout lg) ct msgs e w3)))"

definition caalsh_main :: "shell_env \<Rightarrow> os \<Rightarrow> shell_out" where
  "caalsh_main e w =
     (case pw_name e of
        None \<Rightarrow> exit_with 1 [''[CaaLsh] could not resolve user''] w e
      | Some username \<Rightarrow>
          if 32 < length username then exit_with 1 [''[CaaLsh] username too long''] w e
          else (case config e of
                  CfgMissing \<Rightarrow> exit_with 1 [''[CaaLsh] could not open config''] w e
                | CfgBad \<Rightarrow> exit_with 1 [''[CaaLsh] could not parse config''] w e
                | CfgOk toptab \<Rightarrow>
                    (case check_login toptab username (count_conn e) (session_entries e) of
                       (msgs, Inl err) \<Rightarrow> exit_with 1 (msgs @ [err]) w e
                     | (msgs, Inr lg) \<Rightarrow> launch username lg msgs e w)))"

section \<open>Facts about the decision\<close>

lemma check_bundle_Inr:
  "check_bundle t u = Inr lg \<longleftrightarrow>
     (\<exists>f s. toml_seek t (user_key u ''.bundle'') = DString f s \<and> take 1 (cstr s) = ''/'' \<and>
        \<not> user_disabled t u \<and>
        lg = \<lparr>lg_bundle = cstr s, lg_timeout = config_timeout t u, lg_disk = config_disk t u\<rparr>)"
  by (cases "toml_seek t (user_key u ''.bundle'')") (auto simp: check_bundle_def Let_def)

lemma check_login_Inr:
  "snd (check_login t u conn es) = Inr lg \<longleftrightarrow>
     (config_limit t \<le> 0 \<or> fst (count_active_sessions conn es) < config_limit t) \<and> check_bundle t u = Inr lg"
  by (auto simp: check_login_def Let_def split: prod.splits if_splits)

lemma config_disk_pos: "0 < sint (config_disk t u)"
proof -
  have "0 < sint (1024 :: 64 word)" by simp
  then show ?thesis by (simp add: config_disk_def split: datum.split)
qed

text \<open>The key of a user name that the length check lets through is not truncated.\<close>

lemma user_key_exact:
  assumes "length u \<le> 32" and "NUL \<notin> set u" and "length f \<le> 90" and "NUL \<notin> set f"
  shows "user_key u f = u @ f"
  using assms by (simp add: user_key_def snprintf_s_fits fits_def)

text \<open>For a name without dots, the keys are those of the user's own section.\<close>

lemma user_key_section:
  assumes "length u \<le> 32" and "NUL \<notin> set u" and "CHR ''.'' \<notin> set u"
    and "length f \<le> 80" and "NUL \<notin> set f" and "CHR ''.'' \<notin> set f"
  shows "toml_seek t (user_key u (CHR ''.'' # f)) = toml_get (toml_get t u) f"
  using assms user_key_exact [of u "CHR ''.'' # f"] toml_seek_field [of u f t] by simp

section \<open>Facts about a run\<close>

text \<open>The decision comes first: without a login nothing is done to the host.\<close>

definition admitted :: "shell_env \<Rightarrow> (string \<times> login) option" where
  "admitted e =
     (case (pw_name e, config e) of
        (Some u, CfgOk t) \<Rightarrow>
          if 32 < length u then None
          else (case snd (check_login t u (count_conn e) (session_entries e)) of
                  Inl err \<Rightarrow> None | Inr lg \<Rightarrow> Some (u, lg))
      | _ \<Rightarrow> None)"

lemma main_denied:
  assumes "admitted e = None"
  shows "sh_exit (caalsh_main e w) = Some 1 \<and> sh_os (caalsh_main e w) = w \<and>
    sh_register (caalsh_main e w) = register_conn e \<and> sh_unregister (caalsh_main e w) = unregister_conn e"
  using assms
  by (auto simp: admitted_def caalsh_main_def exit_with_def split: option.splits cfg_read.splits prod.splits
      sum.splits if_splits)

lemma main_admitted:
  assumes "admitted e = Some (u, lg)"
  obtains msgs where "caalsh_main e w = launch u lg msgs e w"
proof -
  obtain t where "pw_name e = Some u" "config e = CfgOk t" "\<not> 32 < length u"
    and c: "snd (check_login t u (count_conn e) (session_entries e)) = Inr lg"
    using assms by (auto simp: admitted_def split: option.splits cfg_read.splits sum.splits if_splits)
  with c that [of "fst (check_login t u (count_conn e) (session_entries e))"] show thesis
    by (cases "check_login t u (count_conn e) (session_entries e)") (simp add: caalsh_main_def)
qed

lemma start_timer_os: "extends w (snd (start_timer t e w))" "res (snd (start_timer t e w)) = res w"
    "refusals (snd (start_timer t e w)) = refusals w"
  by (auto simp: start_timer_def log_call_def res_def refusals_def extends_def)

lemma do_register_os:
  "extends w (snd (snd (do_register u c e w)))" "res (snd (snd (do_register u c e w))) = res w"
  "refusals (snd (snd (do_register u c e w))) = refusals w"
  by (auto simp: do_register_def log_call_def res_def refusals_def extends_def Let_def
      split: option.split prod.split)

lemma do_unregister_os:
  "extends w (snd (do_unregister c e w))" "res (snd (do_unregister c e w)) = res w"
  "refusals (snd (do_unregister c e w)) = refusals w"
  by (auto simp: do_unregister_def log_call_def res_def refusals_def extends_def split: option.split)

text \<open>
  The three ways a started session goes on: no terminal arrives, the proxy is still at
  work, or it ran to its end.  In each, what was done to the host before the last step is
  only more trace.
\<close>

definition only_trace :: "os \<Rightarrow> os \<Rightarrow> bool" where
  "only_trace w w' \<longleftrightarrow> extends w w' \<and> res w' = res w \<and> refusals w' = refusals w"

lemma only_trace_trans: "only_trace w1 w2 \<Longrightarrow> only_trace w2 w3 \<Longrightarrow> only_trace w1 w3"
  by (auto simp: only_trace_def intro: extends_trans)

lemma only_trace_steps:
  "only_trace w (log_call c w)" "only_trace w (snd (start_timer t e w))"
  "only_trace w (snd (snd (do_register u c' e w)))" "only_trace w (snd (do_unregister c' e w))"
  using start_timer_os [where w = w] do_register_os [where w = w] do_unregister_os [where w = w]
  by (simp_all add: only_trace_def) (simp add: log_call_def res_def refusals_def)

text \<open>The connections after the two calls, when the daemon could be reached.\<close>

definition call_register :: "string \<Rightarrow> string \<Rightarrow> shell_env \<Rightarrow> chan option" where
  "call_register u cid e =
     map_option (\<lambda>fd. snd (caald_session_register fd u cid (word_of_int (getpid e)))) (register_conn e)"

definition call_unregister :: "string \<Rightarrow> shell_env \<Rightarrow> chan option" where
  "call_unregister cid e = map_option (\<lambda>fd. snd (caald_session_unregister fd cid)) (unregister_conn e)"

lemma run_session_cases:
  obtains
    (no_pty) w2 where "pty_bridge_recv (pty_hello e) < 0" "only_trace w w2"
      "sh_exit (run_session u t ct msgs e w) = Some 1"
      "sh_os (run_session u t ct msgs e w) = snd (container_stop ct w2)"
      "sh_unregister (run_session u t ct msgs e w) = unregister_conn e"
      "sh_register (run_session u t ct msgs e w) = call_register u (ct_container_id ct) e"
  | (waiting) "sh_exit (run_session u t ct msgs e w) = None" "only_trace w (sh_os (run_session u t ct msgs e w))"
  | (ended) w5 where "0 \<le> pty_bridge_recv (pty_hello e)" "only_trace w w5"
      "sh_exit (run_session u t ct msgs e w) = Some 0"
      "sh_os (run_session u t ct msgs e w) = snd (container_stop ct w5)"
      "sh_unregister (run_session u t ct msgs e w) = call_unregister (ct_container_id ct) e"
      "fst (pty_bridge_run (pty_bridge_recv (pty_hello e)) (tty_in e) (tty_size e) (pty_events e))"
      "sh_register (run_session u t ct msgs e w) = call_register u (ct_container_id ct) e"
proof -
  obtain tp w1 where t: "start_timer t e w = (tp, w1)" by (cases "start_timer t e w")
  obtain m1 r1 w2 where r: "do_register u (ct_container_id ct) e w1 = (m1, r1, w2)"
    by (cases "do_register u (ct_container_id ct) e w1")
  have 2: "only_trace w w2"
    using only_trace_steps(2) [where w = w and t = t and e = e] t r
      only_trace_steps(3) [where w = w1 and u = u and c' = "ct_container_id ct" and e = e]
    by (auto intro: only_trace_trans)
  let ?fd = "pty_bridge_recv (pty_hello e)"
  obtain ok p where p: "pty_bridge_run ?fd (tty_in e) (tty_size e) (pty_events e) = (ok, p)"
    by (cases "pty_bridge_run ?fd (tty_in e) (tty_size e) (pty_events e)")
  let ?w4 = "if 0 < tp then log_call KillTimer (log_call PtyRun w2) else log_call PtyRun w2"
  have 4: "only_trace w ?w4"
    using 2 only_trace_steps(1) [of w2 PtyRun] only_trace_steps(1) [of "log_call PtyRun w2" KillTimer]
    by (auto intro: only_trace_trans)
  obtain un w5 where un: "do_unregister (ct_container_id ct) e ?w4 = (un, w5)"
    by (cases "do_unregister (ct_container_id ct) e ?w4")
  have 5: "only_trace w w5"
    using only_trace_trans [OF 4 only_trace_steps(4) [where c' = "ct_container_id ct" and e = e]] un by simp
  have un': "un = call_unregister (ct_container_id ct) e"
    using un by (auto simp: do_unregister_def call_unregister_def split: option.splits)
  have r': "r1 = call_register u (ct_container_id ct) e"
    using r by (auto simp: do_register_def call_register_def case_prod_unfold Let_def split: option.splits)
  note run = run_session_def t r Let_def prod.case exit_with_def
  show thesis
  proof (cases "?fd < 0")
    case True
    show thesis by (rule no_pty [OF True 2]) (simp_all add: run True r')
  next
    case False
    show thesis
    proof (cases ok)
      case True
      show thesis
        by (rule ended [OF _ 5]) (use False True un un' in \<open>simp_all add: run p r'\<close>)
    next
      case ok: False
      have "only_trace w (log_call PtyRun w2)" using 2 only_trace_steps(1) by (rule only_trace_trans)
      then show thesis
        by (intro waiting) (use False ok in \<open>simp_all add: run p\<close>)
    qed
  qed
qed

lemma extends_run: "extends w (sh_os (run_session u t ct msgs e w))"
  by (rule run_session_cases [where e = e and w = w and u = u and t = t and ct = ct and msgs = msgs])
    (auto simp: only_trace_def intro: extends_trans [OF _ extends_stop])

section \<open>From the decision to the end of the session\<close>

lemma launch_trace:
  "\<exists>cs. calls (sh_os (launch u lg msgs e w)) = calls w @ Clearenv # cs \<and>
     (cs = [] \<or> (\<exists>cs'. cs = Setenv ''PATH'' SAFE_PATH # cs'))"
proof -
  obtain o1 w1 where c: "os_clearenv w = (o1, w1)" by (cases "os_clearenv w")
  obtain o2 w2 where s: "os_setenv ''PATH'' SAFE_PATH w1 = (o2, w2)" by (cases "os_setenv ''PATH'' SAFE_PATH w1")
  have 1: "calls w1 = calls w @ [Clearenv]"
    using attempt_calls [of "\<lambda>w. w" Clearenv "\<lambda>w. True" w] c by (simp add: os_clearenv_def)
  have 2: "calls w2 = calls w @ [Clearenv, Setenv ''PATH'' SAFE_PATH]"
    using attempt_calls [of "\<lambda>w. w" "Setenv ''PATH'' SAFE_PATH" "\<lambda>w. True" w1] s 1 by (simp add: os_setenv_def)
  have "extends w2 (sh_os (launch u lg msgs e w))" if o1 o2
    using c s that
    by (auto simp: launch_def exit_with_def split: prod.splits bool.splits
        dest: extends_start intro: extends_trans extends_run)
  then show ?thesis
    using 1 2 c s by (cases o1; cases o2) (auto simp: launch_def exit_with_def extends_def)
qed

lemma launch_granted:
  assumes ids: "pid_range (getpid e)" "time_range (time_now e)"
    and fresh: "fresh_session (getpid e) (time_now e) (lg_bundle lg) w"
    and pos: "0 < image_bytes (lg_disk lg)" and z: "refusals w = 0"
  obtains ct w2 w3 where "res w2 = res w" "refusals w2 = 0"
    "container_start (getpid e) (time_now e) (crun_pid e) ct0 (lg_bundle lg) (lg_disk lg) w2 = (True, ct, w3)"
    "refusals w3 = 0" "launch u lg msgs e w = run_session u (lg_timeout lg) ct msgs e w3"
proof -
  have spec: "call_spec os_clearenv (\<lambda>w. True) (\<lambda>w. w)" "call_spec (os_setenv n v) (\<lambda>w. True) (\<lambda>w. w)" for n v
    unfolding os_clearenv_def os_setenv_def by (rule attempt_spec; simp)+
  obtain w1 where 1: "os_clearenv w = (True, w1)" "res w1 = res w" "refusals w1 = 0"
    by (rule granted_step [OF spec(1) z]) auto
  obtain w2 where 2: "os_setenv ''PATH'' SAFE_PATH w1 = (True, w2)" "res w2 = res w" "refusals w2 = 0"
    by (rule granted_step [OF spec(2) 1(3)]) (use 1 in auto)
  have "fresh_session (getpid e) (time_now e) (lg_bundle lg) w2"
    using fresh 2(2) by (simp add: fresh_session_def fresh_disk_def res_def mounted_def)
  from start_granted [OF ids this pos 2(3)] obtain ct w3 where
    3: "container_start (getpid e) (time_now e) (crun_pid e) ct0 (lg_bundle lg) (lg_disk lg) w2 = (True, ct, w3)"
      "refusals w3 = 0" .
  show thesis by (rule that [OF 2(2,3) 3]) (simp add: launch_def 1 2 3)
qed

text \<open>Whether the terminal arrived or not: a granted session that ends leaves what it found.\<close>

lemma session_leaves_nothing:
  assumes ids: "pid_range (getpid e)" "time_range (time_now e)" and adm: "admitted e = Some (u, lg)"
    and fresh: "fresh_session (getpid e) (time_now e) (lg_bundle lg) w"
    and pos: "0 < image_bytes (lg_disk lg)" and z: "refusals w = 0"
    and fin: "sh_exit (caalsh_main e w) = Some code"
  shows "res (sh_os (caalsh_main e w)) =
      (dirs w, filter (\<lambda>f. fst f \<noteq> pty_sock_path (getpid e)) (files w), mnts w, containers w)"
    "code = (if pty_bridge_recv (pty_hello e) < 0 then 1 else 0)"
    "sh_unregister (caalsh_main e w) =
      (if pty_bridge_recv (pty_hello e) < 0 then unregister_conn e
       else call_unregister (session_id (getpid e) (time_now e)) e)"
    "sh_register (caalsh_main e w) = call_register u (session_id (getpid e) (time_now e)) e"
proof -
  obtain msgs where m: "caalsh_main e w = launch u lg msgs e w" using main_admitted [OF adm] .
  obtain ct w2 w3 where L: "res w2 = res w" "refusals w2 = 0"
    "container_start (getpid e) (time_now e) (crun_pid e) ct0 (lg_bundle lg) (lg_disk lg) w2 = (True, ct, w3)"
    "refusals w3 = 0" "launch u lg msgs e w = run_session u (lg_timeout lg) ct msgs e w3"
    using launch_granted [OF ids fresh pos z] .
  have fresh2: "fresh_session (getpid e) (time_now e) (lg_bundle lg) w2"
    using fresh L(1) by (simp add: fresh_session_def fresh_disk_def res_def mounted_def)
  note S = start_ok [OF ids L(3)]
  have stop: "res (snd (container_stop ct w')) =
      (dirs w, filter (\<lambda>f. fst f \<noteq> pty_sock_path (getpid e)) (files w), mnts w, containers w)"
    if "only_trace w3 w'" for w'
  proof -
    have "res (snd (container_stop ct w')) =
      (dirs w2, filter (\<lambda>f. fst f \<noteq> pty_sock_path (getpid e)) (files w2), mnts w2, containers w2)"
      using stop_from [OF ids fresh2 L(3), of w'] that L(4) by (simp add: only_trace_def)
    then show ?thesis using L(1) by (simp add: res_def)
  qed
  have "res (sh_os (caalsh_main e w)) =
      (dirs w, filter (\<lambda>f. fst f \<noteq> pty_sock_path (getpid e)) (files w), mnts w, containers w) \<and>
    code = (if pty_bridge_recv (pty_hello e) < 0 then 1 else 0) \<and>
    sh_unregister (caalsh_main e w) =
      (if pty_bridge_recv (pty_hello e) < 0 then unregister_conn e
       else call_unregister (session_id (getpid e) (time_now e)) e) \<and>
    sh_register (caalsh_main e w) = call_register u (session_id (getpid e) (time_now e)) e"
    unfolding m L(5)
    by (rule run_session_cases [where e = e and w = w3 and u = u and t = "lg_timeout lg" and ct = ct and msgs = msgs])
      (use fin [unfolded m L(5)] in \<open>simp_all add: stop S\<close>)
  then show "res (sh_os (caalsh_main e w)) =
      (dirs w, filter (\<lambda>f. fst f \<noteq> pty_sock_path (getpid e)) (files w), mnts w, containers w)"
    "code = (if pty_bridge_recv (pty_hello e) < 0 then 1 else 0)"
    "sh_unregister (caalsh_main e w) =
      (if pty_bridge_recv (pty_hello e) < 0 then unregister_conn e
       else call_unregister (session_id (getpid e) (time_now e)) e)"
    "sh_register (caalsh_main e w) = call_register u (session_id (getpid e) (time_now e)) e"
    by auto
qed

section \<open>Who is admitted\<close>

lemma admission_iff:
  assumes "pw_name e = Some u" and "length u \<le> 32" and "NUL \<notin> set u" and "CHR ''.'' \<notin> set u"
    and "config e = CfgOk t"
  shows "admitted e \<noteq> None \<longleftrightarrow>
    (config_limit t \<le> 0 \<or> fst (count_active_sessions (count_conn e) (session_entries e)) < config_limit t) \<and>
    (\<exists>f s. toml_get (toml_get t u) ''bundle'' = DString f s \<and> take 1 (cstr s) = ''/'') \<and>
    (\<forall>f. toml_get (toml_get t u) ''enabled'' \<noteq> DBoolean f False)"
proof -
  have b: "toml_seek t (user_key u ''.bundle'') = toml_get (toml_get t u) ''bundle''"
    and en: "toml_seek t (user_key u ''.enabled'') = toml_get (toml_get t u) ''enabled''"
    using user_key_section [OF assms(2-4), of "''bundle''"] user_key_section [OF assms(2-4), of "''enabled''"]
    by simp_all
  have dis: "user_disabled t u \<longleftrightarrow> (\<exists>f. toml_get (toml_get t u) ''enabled'' = DBoolean f False)"
    by (auto simp: user_disabled_def en split: datum.splits)
  have "admitted e \<noteq> None \<longleftrightarrow>
      (\<exists>lg. snd (check_login t u (count_conn e) (session_entries e)) = Inr lg)"
    using assms(1,2,5) by (auto simp: admitted_def split: sum.splits)
  also have "\<dots> \<longleftrightarrow>
    (config_limit t \<le> 0 \<or> fst (count_active_sessions (count_conn e) (session_entries e)) < config_limit t) \<and>
    (\<exists>f s. toml_get (toml_get t u) ''bundle'' = DString f s \<and> take 1 (cstr s) = ''/'') \<and> \<not> user_disabled t u"
    unfolding check_login_Inr check_bundle_Inr b by auto
  finally show ?thesis unfolding dis by blast
qed

lemma main_trace:
  "\<exists>cs. calls (sh_os (caalsh_main e w)) = calls w @ cs \<and>
     (cs = [] \<or> cs = [Clearenv] \<or> (\<exists>cs'. cs = Clearenv # Setenv ''PATH'' SAFE_PATH # cs'))"
proof (cases "admitted e")
  case None
  then show ?thesis using main_denied [OF None, of w] by simp
next
  case (Some a)
  then obtain u lg where "admitted e = Some (u, lg)" by (cases a) auto
  then obtain msgs where "caalsh_main e w = launch u lg msgs e w" using main_admitted by blast
  with launch_trace [of u lg msgs e w] show ?thesis by auto
qed

end
