(* ===== verification/Ctl.thy ===== *)
theory Ctl
  imports Client "HOL-Library.Signed_Division"
begin

text \<open>
  The admin tool (\<open>src/src/caalctl.c\<close>): command dispatch, exit codes and everything it
  prints.  Each command returns its exit code, its standard output and its standard error.
  The local-time rendering of a start time (\<open>localtime\<close> and \<open>strftime\<close>) is the parameter
  \<open>fmt\<close>; \<open>clock i\<close> is what \<open>time(NULL)\<close> returns for the \<open>i\<close>-th printed row.
\<close>

section \<open>Formatting\<close>

definition nl :: "string \<Rightarrow> string" where
  "nl s = s @ [CHR 0x0A]"

definition usage :: "string \<Rightarrow> string" where
  "usage prog =
     nl (''Usage: '' @ prog @ '' <command> [args]'') @ nl '''' @
     nl ''Commands:'' @
     nl ''  list              list all active sessions'' @
     nl ''  count             print the number of active sessions'' @
     nl ''  kill <id>         kill a session by container ID'' @
     nl ''  killuser <user>   kill all sessions for a user''"

text \<open>Conversion of a \<open>time_t\<close> to \<open>int\<close>.\<close>

definition to_int32 :: "int \<Rightarrow> int" where
  "to_int32 x = sint (word_of_int x :: 32 word)"

definition uptime :: "int \<Rightarrow> string" where
  "uptime elapsed =
     (let h = to_int32 (elapsed sdiv 3600); m = to_int32 ((elapsed smod 3600) sdiv 60);
          s = to_int32 (elapsed smod 60)
      in take 31 (''('' @ show_02d h @ ''h'' @ show_02d m @ ''m'' @ show_02d s @ ''s up)''))"

definition list_header :: string where
  "list_header =
     nl (pad_right 20 ''USERNAME'' @ '' '' @ pad_right 30 ''CONTAINER ID'' @ '' '' @
         pad_right 8 ''PID'' @ '' '' @ ''STARTED'') @
     nl (pad_right 20 ''--------'' @ '' '' @ pad_right 30 ''------------'' @ '' '' @
         pad_right 8 ''---'' @ '' '' @ ''-------'')"

definition list_row :: "(64 word \<Rightarrow> string) \<Rightarrow> 64 word \<Rightarrow> session_info \<Rightarrow> string" where
  "list_row fmt now i =
     nl (pad_right 20 (cstr (si_username i)) @ '' '' @ pad_right 30 (cstr (si_container_id i)) @ '' '' @
         pad_right 8 (show_int (sint (si_pid i))) @ '' '' @ fmt (si_start_time i) @ '' '' @
         uptime (sint (now - si_start_time i)))"

fun list_rows :: "(64 word \<Rightarrow> string) \<Rightarrow> (nat \<Rightarrow> 64 word) \<Rightarrow> nat \<Rightarrow> session_info list \<Rightarrow> string" where
  "list_rows fmt clock k [] = []"
| "list_rows fmt clock k (i # is) = list_row fmt (clock k) i @ list_rows fmt clock (Suc k) is"

section \<open>Commands\<close>

type_synonym outcome = "int \<times> string \<times> string"

definition cmd_list :: "(64 word \<Rightarrow> string) \<Rightarrow> (nat \<Rightarrow> 64 word) \<Rightarrow> chan \<Rightarrow> outcome" where
  "cmd_list fmt clock fd =
     (let (n, infos, fd') = caald_session_list fd 1024 in
      if n < 0 then (1, [], nl ''[CaaLctl] failed to list sessions'')
      else if n = 0 then (0, nl ''no active sessions'', [])
      else (0, list_header @ list_rows fmt clock 0 infos, []))"

definition cmd_count :: "chan \<Rightarrow> outcome" where
  "cmd_count fd =
     (let n = fst (caald_session_count fd) in
      if n < 0 then (1, [], nl ''[CaaLctl] failed to get session count'')
      else (0, nl (show_int n), []))"

definition cmd_kill :: "chan \<Rightarrow> string \<Rightarrow> outcome" where
  "cmd_kill fd container_id =
     (if \<not> fst (caald_session_kill fd container_id)
      then (1, [], nl (''[CaaLctl] failed to kill session '' @ [CHR 0x27] @ container_id @ [CHR 0x27]))
      else (0, nl (''killed session '' @ container_id), []))"

definition cmd_killuser :: "chan \<Rightarrow> string \<Rightarrow> outcome" where
  "cmd_killuser fd username =
     (if \<not> fst (caald_session_kill_user fd username)
      then (1, [], nl (''[CaaLctl] failed to kill sessions for user '' @ [CHR 0x27] @ username @ [CHR 0x27]))
      else (0, nl (''killed all sessions for user '' @ [CHR 0x27] @ username @ [CHR 0x27]), []))"

text \<open>\<open>main\<close>: \<open>args\<close> is \<open>argv\<close> without the program name; \<open>conn\<close> is the result of connecting.\<close>

definition ctl_main :: "(64 word \<Rightarrow> string) \<Rightarrow> (nat \<Rightarrow> 64 word) \<Rightarrow> string \<Rightarrow> string list \<Rightarrow>
    chan option \<Rightarrow> outcome" where
  "ctl_main fmt clock prog args conn =
     (case args of
        [] \<Rightarrow> (1, [], usage prog)
      | cmd # rest \<Rightarrow>
          case conn of
            None \<Rightarrow>
              (1, [], nl ''[CaaLctl] Cannot connect to caald (is it running?)'' @
                 nl ''[CaaLctl] You may want to run this as root (sudo) if you aren't already'')
          | Some fd \<Rightarrow>
              if cmd = ''list'' then cmd_list fmt clock fd
              else if cmd = ''count'' then cmd_count fd
              else if cmd = ''kill'' then
                (case rest of [] \<Rightarrow> (1, [], nl ''[CaaLctl] kill requires a container ID'')
                 | c # _ \<Rightarrow> cmd_kill fd c)
              else if cmd = ''killuser'' then
                (case rest of [] \<Rightarrow> (1, [], nl ''[CaaLctl] killuser requires a username'')
                 | u # _ \<Rightarrow> cmd_killuser fd u)
              else (1, [], nl (''[CaaLctl] unknown command '' @ [CHR 0x27] @ cmd @ [CHR 0x27]) @ usage prog))"

end
