(* ===== verification/System.thy ===== *)
theory System
  imports Service Shell Ctl
begin

text \<open>
  The programs together: a login shell, its container on the host and the daemon it
  registers with.
\<close>

lemma session_id_on_wire:
  assumes "pid_range pid" and "time_range now"
  shows "take (CAALD_MAX_STR - 1) (cstr (session_id pid now)) = session_id pid now"
  using session_id_exact [OF assms] by (simp add: CAALD_MAX_STR_def)

lemma answer_length:
  assumes "wf_daemon d" and "max_sessions d < 2 ^ 31" and "rq_type req \<noteq> type_byte CAALD_SESSION_LIST"
  shows "length (daemon_answer (now, d) req) = RESPONSE_SIZE"
  using caald.answer_bytes [OF daemon_okI [OF assms(1,2)], of now req]
    rs.enc_length [OF caald.resp_wf [OF daemon_okI [OF assms(1,2)], of now req]] assms(3)
  by (simp add: daemon_items_def)

text \<open>What a session that ended has done, on the host and on its two connections.\<close>

lemma visit_of_session:
  assumes ids: "pid_range (getpid e)" "time_range (time_now e)" and adm: "admitted e = Some (u, lg)"
    and fresh: "fresh_session (getpid e) (time_now e) (lg_bundle lg) w"
    and pos: "0 < image_bytes (lg_disk lg)" and z: "refusals w = 0"
    and pty: "0 \<le> pty_bridge_recv (pty_hello e)" and fin: "sh_exit (caalsh_main e w) \<noteq> None"
    and sid: "sid = session_id (getpid e) (time_now e)"
    and req: "req = register_request u sid (word_of_int (getpid e))"
    and wf: "wf_daemon d" "max_sessions d < 2 ^ 31" and room: "size (live d) < max_sessions d"
    and reg: "register_conn e = Some fd" and con: "connected now d req fd"
    and quiet: "\<forall>a \<in> set others. \<not> aimed_at sid (take 63 (cstr u)) (snd a)"
    and unreg: "unregister_conn e = Some fd'"
    and con': "connected later (serve_all others (served now d req)) (unregister_request sid) fd'"
  shows "sh_exit (caalsh_main e w) = Some 0 \<and>
    res (sh_os (caalsh_main e w)) =
      (dirs w, filter (\<lambda>f. fst f \<noteq> pty_sock_path (getpid e)) (files w), mnts w, containers w) \<and>
    map_option out (sh_register (caalsh_main e w)) = Some (out fd @ enc_request req) \<and>
    map_option out (sh_unregister (caalsh_main e w)) = Some (out fd' @ enc_request (unregister_request sid)) \<and>
    fst (caald_session_unregister fd' sid)"
proof -
  obtain code where code: "sh_exit (caalsh_main e w) = Some code" using fin by auto
  note S = session_leaves_nothing [OF ids adm fresh pos z code]
  have exact: "take 63 (cstr sid) = sid"
    using session_id_on_wire [OF ids] sid by (simp add: CAALD_MAX_STR_def)
  note R = register_call [OF wf con [unfolded req]]
  have "\<forall>a \<in> set others. \<not> aimed_at (take 63 (cstr sid)) (take 63 (cstr u)) (snd a)"
    using quiet exact by simp
  from visit_survives [OF wf con [unfolded req] _ this con' [unfolded req]] R room
  have "fst (caald_session_unregister fd' sid)" by simp
  moreover have "out (snd (caald_session_unregister fd' sid)) = out fd' @ enc_request (unregister_request sid)"
  proof -
    have "wf_daemon (serve_all others (served now d req))"
      "max_sessions (serve_all others (served now d req)) < 2 ^ 31"
      using served_register_inv [OF wf(1), of now req] serve_all_inv [of "served now d req" others] wf(2) by auto
    from call_daemon(2) [OF this _ con'] show ?thesis by (simp add: caald_session_unregister_def)
  qed
  ultimately show ?thesis
    using S R pty code reg unreg sid req by (simp add: call_register_def call_unregister_def)
qed

text \<open>A session that never got its terminal.\<close>

lemma stale_session:
  assumes ids: "pid_range (getpid e)" "time_range (time_now e)" and adm: "admitted e = Some (u, lg)"
    and fresh: "fresh_session (getpid e) (time_now e) (lg_bundle lg) w"
    and pos: "0 < image_bytes (lg_disk lg)" and z: "refusals w = 0"
    and pty: "pty_bridge_recv (pty_hello e) < 0" and reg: "register_conn e = Some fd"
    and req: "req = register_request u (session_id (getpid e) (time_now e)) (word_of_int (getpid e))"
    and con: "connected now d req fd" and wf: "wf_daemon d" "max_sessions d < 2 ^ 31"
    and room: "size (live d) < max_sessions d"
  shows "sh_exit (caalsh_main e w) = Some 1 \<and>
    dirs (sh_os (caalsh_main e w)) = dirs w \<and> mnts (sh_os (caalsh_main e w)) = mnts w \<and>
    sh_unregister (caalsh_main e w) = unregister_conn e \<and>
    map_option out (sh_register (caalsh_main e w)) = Some (out fd @ enc_request req) \<and>
    (\<exists>s \<in># live (served now d req). s_container_id s = session_id (getpid e) (time_now e))"
proof -
  obtain msgs where m: "caalsh_main e w = launch u lg msgs e w" using main_admitted [OF adm] .
  obtain ct w3 where L: "launch u lg msgs e w = run_session u (lg_timeout lg) ct msgs e w3"
    using launch_granted [OF ids fresh pos z] by metis
  have "sh_exit (caalsh_main e w) = Some 1"
    unfolding m L
    by (rule run_session_cases [where e = e and w = w3 and u = u and t = "lg_timeout lg" and ct = ct and msgs = msgs])
      (use pty in \<open>auto simp: run_session_def exit_with_def case_prod_unfold Let_def\<close>)
  note S = session_leaves_nothing [OF ids adm fresh pos z this]
  note R = register_call [OF wf con [unfolded req]]
  have "s_container_id (registered now u (session_id (getpid e) (time_now e)) (word_of_int (getpid e))) =
      session_id (getpid e) (time_now e)"
    using session_id_on_wire [OF ids] by simp
  then show ?thesis
    using S R pty reg room \<open>sh_exit (caalsh_main e w) = Some 1\<close> req
    by (auto simp: call_register_def res_def)
qed

section \<open>The control tool against the daemon\<close>

lemma ctl_count:
  assumes "wf_daemon d" and "max_sessions d < 2 ^ 31" and "connected now d count_request fd"
  shows "ctl_main fmt clock prog (''count'' # args) (Some fd) = (0, nl (show_int (int (size (live d)))), [])"
  using count_call [OF assms] by (simp add: ctl_main_def cmd_count_def Let_def)

lemma ctl_kill:
  assumes "wf_daemon d" and "max_sessions d < 2 ^ 31" and "connected now d (kill_request c) fd"
  shows "fst (ctl_main fmt clock prog (''kill'' # c # args) (Some fd)) = 0 \<longleftrightarrow>
    (\<exists>s \<in># live d. s_container_id s = take 63 (cstr c))"
  using call_daemon(1) [OF assms(1,2) _ assms(3)] unreg.leave_iff [OF assms(1), of "kill_request c"]
  by (simp add: ctl_main_def cmd_kill_def caald_session_kill_def served_kill CAALD_MAX_STR_def)

lemma ctl_killuser:
  assumes "wf_daemon d" and "max_sessions d < 2 ^ 31" and "connected now d (kill_user_request u) fd"
  shows "fst (ctl_main fmt clock prog (''killuser'' # u # args) (Some fd)) = 0 \<longleftrightarrow>
    (\<exists>s \<in># live d. s_username s = take 63 (cstr u))"
proof -
  obtain d' resp es where k: "handle_kill_user (kill_user_request u) d response0 = (d', resp, es)"
    by (cases "handle_kill_user (kill_user_request u) d response0")
  have "rs_ok resp \<noteq> 0 \<longleftrightarrow> (\<exists>s \<in># live d. s_username s = take 63 (cstr u))"
    using kill_user_result(5) [OF assms(1) k]
    by (auto simp: live_def filter_empty_conv CAALD_MAX_STR_def)
  moreover have "daemon_resp (now, d) (kill_user_request u) = resp"
    using k by (simp add: daemon_resp_def)
  ultimately show ?thesis
    using call_daemon(1) [OF assms(1,2) _ assms(3)]
    by (simp add: ctl_main_def cmd_killuser_def caald_session_kill_user_def)
qed

lemma ctl_list:
  assumes "wf_daemon d" and "max_sessions d < 2 ^ 31" and "connected now d list_request fd" and "active d \<noteq> []"
  shows "ctl_main fmt clock prog (''list'' # args) (Some fd) =
    (0, list_header @ list_rows fmt clock 0 (take 1024 (map info_of (active d))), [])"
proof -
  have l: "fst (caald_session_list fd 1024) = min (int (length (active d))) 1024"
    "fst (snd (caald_session_list fd 1024)) = take 1024 (map info_of (active d))"
    using caald.list_result [OF daemon_okI [OF assms(1,2)] assms(3) [unfolded connected_def], of 1024]
    by (simp_all add: daemon_items_def)
  obtain n infos fd' where r: "caald_session_list fd 1024 = (n, infos, fd')" by (cases "caald_session_list fd 1024")
  with l assms(4) have "0 < n" "infos = take 1024 (map info_of (active d))" by (auto simp: min_def)
  then show ?thesis by (simp add: ctl_main_def cmd_list_def r)
qed

end
