(* ===== verification/Visits.thy ===== *)
theory Visits
  imports System
begin

text \<open>
  Several login shells (\<open>src/src/caalsh.c\<close>) against one daemon, as interleavings of their
  steps: a shell asks for the number of sessions and decides (lines 106 to 189), starts its
  container and registers (216 to 223), and unregisters at its end or gives up.  The steps of
  a shell are those that the daemon sees; in between, others have theirs, and somebody may send
  the daemon \<open>KILL\<close> or \<open>KILL_USER\<close> commands, which signal the process of an entry and remove the
  entry at once: the shell runs on until it has handled the signal.
\<close>

section \<open>Shells\<close>

text \<open>A shell is known by its process ID and the time of its start.\<close>

datatype shell = Shell (shell_pid: int) (shell_born: int)

text \<open>\<open>Doomed\<close>: running, but signalled by the daemon.\<close>

datatype stage = Outside | is_counted: Counted string | is_running: Running string | Doomed string | Gone

abbreviation has_entered :: "stage \<Rightarrow> bool" where
  "has_entered s \<equiv> s \<noteq> Outside \<and> \<not> is_counted s"

record house =
  h_table :: daemon
  h_stage :: "shell \<Rightarrow> stage"

definition shell_sid :: "shell \<Rightarrow> string" where
  "shell_sid v = session_id (shell_pid v) (shell_born v)"

definition set_stage :: "shell \<Rightarrow> stage \<Rightarrow> house \<Rightarrow> house" where
  "set_stage v s st = st\<lparr>h_stage := (h_stage st)(v := s)\<rparr>"

definition arrival :: "64 word \<Rightarrow> string \<Rightarrow> shell \<Rightarrow> request" where
  "arrival now u v = register_request u (shell_sid v) (word_of_int (shell_pid v))"

text \<open>A kill command: the processes that it signals, and the table after it.\<close>

definition is_kill :: "request \<Rightarrow> bool" where
  "is_kill r \<longleftrightarrow> msg_type_of (rq_type r) = Some CAALD_SESSION_KILL \<or> msg_type_of (rq_type r) = Some CAALD_SESSION_KILL_USER"

definition struck_by :: "64 word \<Rightarrow> daemon \<Rightarrow> request \<Rightarrow> 32 word set" where
  "struck_by now d r = set (signalled (snd (snd (serve now d r))))"

definition strike :: "32 word set \<Rightarrow> house \<Rightarrow> house" where
  "strike ps st =
     st\<lparr>h_stage := \<lambda>v. case h_stage st v of
                      Running u \<Rightarrow> if word_of_int (shell_pid v) \<in> ps then Doomed u else Running u
                    | s \<Rightarrow> s\<rparr>"

text \<open>
  The steps, under the configuration \<open>t\<close>.  With \<open>serial\<close>, a shell decides only when no other is
  between its decision and its registration, and the daemon can be reached; otherwise a shell may
  also find no daemon, count directories, and run without an entry.  A shell goes on whether the
  daemon has registered it or not, and one that never gets its terminal does not unregister.
\<close>

inductive visit_step :: "bool \<Rightarrow> datum \<Rightarrow> house \<Rightarrow> house \<Rightarrow> bool" for serial t where
  decide: "h_stage st v = Outside \<Longrightarrow> pid_range (shell_pid v) \<Longrightarrow> time_range (shell_born v) \<Longrightarrow>
    serial \<longrightarrow> (\<forall>x. \<not> is_counted (h_stage st x)) \<Longrightarrow> connected now (h_table st) count_request fd \<Longrightarrow>
    snd (check_login t u (Some fd) entries) = Inr lg \<Longrightarrow> visit_step serial t st (set_stage v (Counted u) st)"
| decide_alone: "h_stage st v = Outside \<Longrightarrow> pid_range (shell_pid v) \<Longrightarrow> time_range (shell_born v) \<Longrightarrow> \<not> serial \<Longrightarrow>
    snd (check_login t u None entries) = Inr lg \<Longrightarrow> visit_step serial t st (set_stage v (Counted u) st)"
| give_up: "h_stage st v = Counted u \<Longrightarrow> visit_step serial t st (set_stage v Gone st)"
| register: "h_stage st v = Counted u \<Longrightarrow>
    visit_step serial t st (set_stage v (Running u) (st\<lparr>h_table := served now (h_table st) (arrival now u v)\<rparr>))"
| unlisted: "h_stage st v = Counted u \<Longrightarrow> \<not> serial \<Longrightarrow> visit_step serial t st (set_stage v (Running u) st)"
| leave: "h_stage st v = Running u \<or> h_stage st v = Doomed u \<Longrightarrow>
    visit_step serial t st (set_stage v Gone (st\<lparr>h_table := served now (h_table st) (unregister_request (shell_sid v))\<rparr>))"
| abandon: "h_stage st v = Running u \<or> h_stage st v = Doomed u \<Longrightarrow> visit_step serial t st (set_stage v Gone st)"
| command: "is_kill r \<Longrightarrow>
    visit_step serial t st (strike (struck_by now (h_table st) r) (st\<lparr>h_table := served now (h_table st) r\<rparr>))"

inductive visits_reach :: "bool \<Rightarrow> datum \<Rightarrow> daemon \<Rightarrow> house \<Rightarrow> bool" for serial t d where
  opened: "visits_reach serial t d \<lparr>h_table = d, h_stage = \<lambda>v. Outside\<rparr>"
| visited: "visits_reach serial t d st \<Longrightarrow> visit_step serial t st st' \<Longrightarrow> visits_reach serial t d st'"

definition running_shells :: "house \<Rightarrow> shell set" where
  "running_shells st = {v. is_running (h_stage st v)}"

lemma move_sel [simp]: "h_table (set_stage v s st) = h_table st" "h_stage (set_stage v s st) = (h_stage st)(v := s)"
  by (simp_all add: set_stage_def)

lemma move_table: "(set_stage v s st)\<lparr>h_table := d\<rparr> = set_stage v s (st\<lparr>h_table := d\<rparr>)"
  by (cases st) (simp add: set_stage_def)

lemma running_move: "running_shells (set_stage v s st) = (if is_running s then insert v (running_shells st) else running_shells st - {v})"
  by (auto simp: running_shells_def)

lemma strike_sel [simp]:
  "h_table (strike ps st) = h_table st"
  "h_stage (strike ps st) v =
     (case h_stage st v of Running u \<Rightarrow> if word_of_int (shell_pid v) \<in> ps then Doomed u else Running u | s \<Rightarrow> s)"
  by (simp_all add: strike_def)

lemma strike_stage [simp]:
  "h_stage (strike ps st) v = Outside \<longleftrightarrow> h_stage st v = Outside"
  "is_counted (h_stage (strike ps st) v) \<longleftrightarrow> is_counted (h_stage st v)"
  "is_running (h_stage (strike ps st) v) \<longleftrightarrow> is_running (h_stage st v) \<and> word_of_int (shell_pid v) \<notin> ps"
  by (cases "h_stage st v"; simp)+

lemma running_table [simp]: "running_shells (st\<lparr>h_table := d\<rparr>) = running_shells st"
  by (simp add: running_shells_def)

section \<open>The table while shells come and go\<close>

text \<open>Who has been here had IDs that the system can give, and only they are in the table.\<close>

definition house_ok :: "daemon \<Rightarrow> house \<Rightarrow> bool" where
  "house_ok d st \<longleftrightarrow>
     wf_daemon (h_table st) \<and> max_sessions (h_table st) = max_sessions d \<and> finite {v. h_stage st v \<noteq> Outside} \<and>
     (\<forall>v. h_stage st v \<noteq> Outside \<longrightarrow> pid_range (shell_pid v) \<and> time_range (shell_born v)) \<and>
     (\<forall>s \<in># live (h_table st). \<exists>v. s_container_id s = shell_sid v \<and> s_pid s = word_of_int (shell_pid v) \<and> has_entered (h_stage st v))"

lemma sid_inj:
  assumes "house_ok d st" and "h_stage st v \<noteq> Outside" and "h_stage st w \<noteq> Outside" and "shell_sid v = shell_sid w"
  shows "v = w"
  using assms session_id_inj [of "shell_pid v" "shell_born v" "shell_pid w" "shell_born w"] unfolding house_ok_def shell_sid_def
  by (auto intro: shell.expand)

lemma sid_wire:
  assumes "pid_range (shell_pid v)" and "time_range (shell_born v)"
  shows "s_container_id (registered now u (shell_sid v) pid) = shell_sid v" "cstr (shell_sid v) = shell_sid v" "take 63 (shell_sid v) = shell_sid v"
  using session_id_on_wire [OF assms] session_id_exact [OF assms]
  by (simp_all add: shell_sid_def CAALD_MAX_STR_def cstr_id)

lemma served_arrival:
  assumes "wf_daemon d" and "max_sessions d < 2 ^ 31"
  shows "live (served now d (arrival now u v)) =
    (if size (live d) < max_sessions d then add_mset (registered now u (shell_sid v) (word_of_int (shell_pid v))) (live d) else live d)"
  unfolding arrival_def served_register
  using unreg.enter_room [OF assms(1)] unreg.enter_full [OF assms(1)] by (simp add: new_session_registered not_less)

lemma served_leaving:
  assumes "wf_daemon d" and "pid_range (shell_pid v)" and "time_range (shell_born v)"
  shows "live (served now d (unregister_request (shell_sid v))) \<subseteq># live d"
    "s \<in># live d \<Longrightarrow> s_container_id s \<noteq> shell_sid v \<Longrightarrow> s \<in># live (served now d (unregister_request (shell_sid v)))"
proof -
  have key: "cstr (rq_container_id (unregister_request (shell_sid v))) = shell_sid v"
    using sid_wire(2,3) [OF assms(2,3)] by (simp add: CAALD_MAX_STR_def)
  show "live (served now d (unregister_request (shell_sid v))) \<subseteq># live d"
    using unreg.leave_hit [OF assms(1), of _ "unregister_request (shell_sid v)"]
      unreg.leave_miss [OF assms(1), of "unregister_request (shell_sid v)"]
    unfolding served_unregister by (metis diff_subset_eq_self subset_mset.order_refl)
  show "s \<in># live d \<Longrightarrow> s_container_id s \<noteq> shell_sid v \<Longrightarrow> s \<in># live (served now d (unregister_request (shell_sid v)))"
    using unreg.step_survives [OF assms(1), of s "Leave (unregister_request (shell_sid v))"] key
    by (simp add: served_unregister unreg.aimed_def)
qed

lemma served_ok: "wf_daemon d \<Longrightarrow> wf_daemon (served now d r) \<and> max_sessions (served now d r) = max_sessions d"
  by (rule served_register_inv)

lemma house_opened: "wf_daemon d \<Longrightarrow> live d = {#} \<Longrightarrow> house_ok d \<lparr>h_table = d, h_stage = \<lambda>v. Outside\<rparr>"
  by (simp add: house_ok_def)

text \<open>Nobody goes back to where the table does not know of him.\<close>

lemma house_stages:
  assumes "house_ok d st" and "finite {x. f x \<noteq> Outside}" and "\<And>x. f x \<noteq> Outside \<Longrightarrow> pid_range (shell_pid x) \<and> time_range (shell_born x)"
    and "\<And>x. has_entered (h_stage st x) \<Longrightarrow> has_entered (f x)"
  shows "house_ok d (st\<lparr>h_stage := f\<rparr>)"
  using assms unfolding house_ok_def by (auto; fastforce)

lemma house_move:
  assumes "house_ok d st" and "pid_range (shell_pid v)" and "time_range (shell_born v)" and "s \<noteq> Outside"
    and "has_entered (h_stage st v) \<longrightarrow> has_entered s"
  shows "house_ok d (set_stage v s st)"
proof -
  have "{x. ((h_stage st)(v := s)) x \<noteq> Outside} \<subseteq> insert v {x. h_stage st x \<noteq> Outside}" by auto
  then have "finite {x. ((h_stage st)(v := s)) x \<noteq> Outside}" by (rule finite_subset) (use assms(1) in \<open>simp add: house_ok_def\<close>)
  then show ?thesis unfolding set_stage_def
    by (rule house_stages [OF assms(1)]) (use assms in \<open>auto simp: house_ok_def split: if_splits\<close>)
qed

lemma house_strike:
  assumes "house_ok d st"
  shows "house_ok d (strike ps st)"
proof -
  have "house_ok d (st\<lparr>h_stage := h_stage (strike ps st)\<rparr>)"
    by (rule house_stages [OF assms]) (use assms in \<open>auto simp: house_ok_def simp del: strike_sel(2)\<close>)
  then show ?thesis by (simp add: strike_def)
qed

lemma house_table:
  assumes "house_ok d st"
    and "\<forall>s \<in># live (served now (h_table st) r). s \<in># live (h_table st) \<or>
      (\<exists>v. s_container_id s = shell_sid v \<and> s_pid s = word_of_int (shell_pid v) \<and> has_entered (h_stage st v))"
  shows "house_ok d (st\<lparr>h_table := served now (h_table st) r\<rparr>)"
  using assms served_ok [of "h_table st" now r] unfolding house_ok_def by fastforce

text \<open>A kill command removes entries, and signals the process of each that it removes.\<close>

lemma served_kills:
  assumes "wf_daemon d" and "is_kill r"
  shows "live (served now d r) \<subseteq># live d" "s \<in># live d \<Longrightarrow> s \<notin># live (served now d r) \<Longrightarrow> s_pid s \<in> struck_by now d r"
proof -
  have "live (served now d r) \<subseteq># live d \<and> (s \<in># live d \<and> s \<notin># live (served now d r) \<longrightarrow> s_pid s \<in> struck_by now d r)"
  proof (cases "msg_type_of (rq_type r) = Some CAALD_SESSION_KILL")
    case True
    then have e: "served now d r = fst (handle_kill r d response0)" "struck_by now d r = set (signalled (snd (snd (handle_kill r d response0))))"
      by (simp_all add: served_def struck_by_def serve_def case_prod_unfold)
    from kill_cases [OF assms(1), of r] show ?thesis
    proof
      assume "\<exists>s. s \<in># live d \<and> s_container_id s = cstr (rq_container_id r) \<and>
        live (fst (handle_kill r d response0)) = live d - {#s#} \<and>
        snd (handle_kill r d response0) =
          (response0\<lparr>rs_ok := 1\<rparr>, [SigTerm (s_pid s), LogEvent ''SESSION_KILLED'' (s_username s) (s_container_id s)])"
      then obtain x where "live (served now d r) = live d - {#x#}" "struck_by now d r = {s_pid x}" by (auto simp: e)
      then show ?thesis by (auto intro: in_diffI_neq)
    qed (simp add: e)
  next
    case False
    obtain d' resp es where k: "handle_kill_user r d response0 = (d', resp, es)" by (metis prod_cases3)
    with False assms(2) have e: "served now d r = d'" "struck_by now d r = set (signalled es)"
      by (simp_all add: is_kill_def served_def struck_by_def serve_def)
    note K = kill_user_result [OF assms(1) k]
    have "live d' = filter_mset (\<lambda>s. s_username s \<noteq> cstr (rq_username r)) (live d)" using K(3) by (simp add: live_def)
    then show ?thesis unfolding e K(4) by (auto simp: signalled_kills live_def)
  qed
  then show "live (served now d r) \<subseteq># live d" "s \<in># live d \<Longrightarrow> s \<notin># live (served now d r) \<Longrightarrow> s_pid s \<in> struck_by now d r" by auto
qed

text \<open>Every step keeps that.\<close>

lemma visit_house:
  assumes "visit_step serial t st st'" and "house_ok d st" and "max_sessions d < 2 ^ 31"
  shows "house_ok d st'"
  using assms
proof (induction rule: visit_step.induct)
  case (decide st v now fd u entries lg)
  then show ?case by (intro house_move) simp_all
next
  case (decide_alone st v u entries lg)
  then show ?case by (intro house_move) simp_all
next
  case (give_up st v u)
  then show ?case by (intro house_move) (auto simp: house_ok_def)
next
  case (unlisted st v u)
  then show ?case by (intro house_move) (auto simp: house_ok_def)
next
  case (command r st now)
  have "house_ok d (st\<lparr>h_table := served now (h_table st) r\<rparr>)"
    by (rule house_table [OF command.prems(1)]) (use served_kills(1) [OF _ command(1)] command.prems(1) in \<open>auto simp: house_ok_def dest: mset_subset_eqD\<close>)
  then show ?case by (rule house_strike)
next
  case (register st v u now)
  have ids: "pid_range (shell_pid v)" "time_range (shell_born v)" using register by (auto simp: house_ok_def)
  have "house_ok d (set_stage v (Running u) st)" using register ids by (intro house_move) auto
  then have "house_ok d ((set_stage v (Running u) st)\<lparr>h_table := served now (h_table (set_stage v (Running u) st)) (arrival now u v)\<rparr>)"
    by (rule house_table)
      (use register.prems served_arrival [of "h_table st" now u v] sid_wire(1) [OF ids] in \<open>auto simp: house_ok_def registered_def split: if_splits\<close>)
  then show ?case by (simp add: move_table)
next
  case (leave st v u now)
  have ids: "pid_range (shell_pid v)" "time_range (shell_born v)" using leave by (auto simp: house_ok_def)
  have "house_ok d (st\<lparr>h_table := served now (h_table st) (unregister_request (shell_sid v))\<rparr>)"
    by (rule house_table)
      (use leave.prems served_leaving(1) [of "h_table st" v now] ids in \<open>auto simp: house_ok_def dest: mset_subset_eqD\<close>)
  then show ?case using leave ids by (intro house_move) auto
next
  case (abandon st v u)
  then show ?case by (intro house_move) (auto simp: house_ok_def)
qed

section \<open>One at a time\<close>

text \<open>
  Every running shell is in the table, which holds at most \<open>L\<close> sessions, and fewer while a
  shell is on its way.
\<close>

definition orderly :: "int \<Rightarrow> house \<Rightarrow> bool" where
  "orderly L st \<longleftrightarrow>
     (\<forall>v \<in> running_shells st. \<exists>s \<in># live (h_table st). s_container_id s = shell_sid v) \<and>
     int (size (live (h_table st))) \<le> L \<and>
     (\<forall>v. is_counted (h_stage st v) \<longrightarrow> int (size (live (h_table st))) < L \<and> (\<forall>w. is_counted (h_stage st w) \<longrightarrow> w = v))"

text \<open>What the shell counts, it counts from the table.\<close>

lemma decide_count:
  assumes "wf_daemon d" and "max_sessions d < 2 ^ 31" and "connected now d count_request fd" and "0 < config_limit t"
  shows "snd (check_login t u (Some fd) entries) = Inr lg \<longleftrightarrow>
    int (size (live d)) < config_limit t \<and> check_bundle t u = Inr lg"
  using count_call [OF assms(1-3)] assms(4) by (simp add: check_login_Inr count_active_sessions_def Let_def)

text \<open>A kill takes sessions out of the table with the shells it strikes, and no others.\<close>

lemma orderly_command:
  assumes "house_ok d st" and "orderly L st" and "is_kill r"
  shows "orderly L (strike (struck_by now (h_table st) r) (st\<lparr>h_table := served now (h_table st) r\<rparr>))"
proof -
  let ?d = "served now (h_table st) r" and ?ps = "struck_by now (h_table st) r"
  have wf: "wf_daemon (h_table st)" using assms(1) by (simp add: house_ok_def)
  note K = served_kills [OF wf assms(3), where now = now]
  have "\<exists>s \<in># live ?d. s_container_id s = shell_sid v" if v: "is_running (h_stage st v)" "word_of_int (shell_pid v) \<notin> ?ps" for v
  proof -
    obtain s where s: "s \<in># live (h_table st)" "s_container_id s = shell_sid v"
      using assms(2) v(1) unfolding orderly_def running_shells_def by blast
    moreover obtain w where "s_container_id s = shell_sid w" "s_pid s = word_of_int (shell_pid w)" "has_entered (h_stage st w)"
      using assms(1) s(1) unfolding house_ok_def by blast
    moreover from this v s(2) have "w = v" using sid_inj [OF assms(1), of w v] by auto
    ultimately show ?thesis using K(2) [of s] v(2) by auto
  qed
  moreover have le: "int (size (live ?d)) \<le> int (size (live (h_table st)))" using size_mset_mono [OF K(1)] by simp
  have "int (size (live ?d)) \<le> L"
    "\<And>v. is_counted (h_stage st v) \<Longrightarrow> int (size (live ?d)) < L \<and> (\<forall>w. is_counted (h_stage st w) \<longrightarrow> w = v)"
    using assms(2) le unfolding orderly_def by (meson order_trans, meson le_less_trans)
  moreover define st' where "st' = strike ?ps (st\<lparr>h_table := ?d\<rparr>)"
  moreover have "h_table st' = ?d" "\<And>v. is_counted (h_stage st' v) \<longleftrightarrow> is_counted (h_stage st v)"
    "running_shells st' = {v. is_running (h_stage st v) \<and> word_of_int (shell_pid v) \<notin> ?ps}"
    unfolding st'_def running_shells_def strike_stage by simp_all
  ultimately have "orderly L st'" unfolding orderly_def by auto
  then show ?thesis by (simp add: st'_def)
qed

text \<open>A shell that leaves takes only its own session along.\<close>

lemma orderly_leave:
  assumes "house_ok d st" and "orderly L st" and "h_stage st v = Running u \<or> h_stage st v = Doomed u"
    and "served now (h_table st) (unregister_request (shell_sid v)) = d'"
  shows "orderly L (set_stage v Gone (st\<lparr>h_table := d'\<rparr>))"
proof -
  have ids: "pid_range (shell_pid v)" "time_range (shell_born v)" using assms(1,3) by (auto simp: house_ok_def)
  note L = served_leaving [OF _ ids, where d = "h_table st" and now = now, unfolded assms(4)]
  have size: "size (live d') \<le> size (live (h_table st))" using L(1) assms(1) by (simp add: house_ok_def size_mset_mono)
  have "\<exists>s \<in># live d'. s_container_id s = shell_sid w" if w: "w \<in> running_shells st - {v}" for w
  proof -
    have "shell_sid w \<noteq> shell_sid v" using sid_inj [OF assms(1), of w v] w assms(3) by (auto simp: running_shells_def)
    moreover obtain s where "s \<in># live (h_table st)" "s_container_id s = shell_sid w"
      using w assms(2) unfolding orderly_def by (metis DiffD1)
    ultimately show ?thesis using L(2) [of s] assms(1) by (auto simp: house_ok_def)
  qed
  moreover have "int (size (live d')) \<le> L" using size assms(2) by (simp add: orderly_def)
  moreover have "int (size (live d')) < L \<and> (\<forall>y. is_counted (h_stage st y) \<longrightarrow> y = x)" if "is_counted (h_stage st x)" for x
    using size assms(2) that by (auto simp: orderly_def dest!: spec [of _ x])
  ultimately show ?thesis by (auto simp: orderly_def running_move split: if_splits)
qed

lemma visit_orderly:
  assumes "visit_step True t st st'" and "house_ok d st" and "orderly (config_limit t) st" and "max_sessions d < 2 ^ 31"
    and "0 < config_limit t" and "config_limit t \<le> int (max_sessions d)"
  shows "orderly (config_limit t) st'"
  using assms
proof (induction rule: visit_step.induct)
  case (decide st v now fd u entries lg)
  have "int (size (live (h_table st))) < config_limit t"
    using decide decide_count [of "h_table st" now fd t u entries lg] by (simp add: house_ok_def)
  with decide show ?case by (auto simp: orderly_def running_move)
next
  case (give_up st v u)
  then show ?case by (auto simp: orderly_def running_move)
next
  case (command r st now)
  then show ?case by (intro orderly_command)
next
  case (register st v u now)
  have ids: "pid_range (shell_pid v)" "time_range (shell_born v)" using register by (auto simp: house_ok_def)
  have less: "int (size (live (h_table st))) < config_limit t" "\<And>w. is_counted (h_stage st w) \<Longrightarrow> w = v"
    using register.prems(2) register(1) unfolding orderly_def by (metis stage.disc(2))+
  have "live (served now (h_table st) (arrival now u v)) =
      add_mset (registered now u (shell_sid v) (word_of_int (shell_pid v))) (live (h_table st))"
    using served_arrival [of "h_table st" now u v] register less(1) by (simp add: house_ok_def)
  then show ?case
    using register less sid_wire(1) [OF ids] by (auto simp: orderly_def running_move)
next
  case (leave st v u now)
  then show ?case by (intro orderly_leave) simp_all
next
  case (abandon st v u)
  then show ?case by (auto simp: orderly_def running_move)
qed simp_all

lemma card_size: "card (set_mset M) \<le> size M"
  by (induction M) (auto simp: card_insert_if)

text \<open>Running shells have different entries.\<close>

lemma running_card:
  assumes "house_ok d st" and "orderly L st"
  shows "finite (running_shells st) \<and> int (card (running_shells st)) \<le> L"
proof -
  have fin: "finite (running_shells st)"
    by (rule finite_subset [of _ "{v. h_stage st v \<noteq> Outside}"]) (use assms(1) in \<open>auto simp: running_shells_def house_ok_def\<close>)
  have inj: "inj_on shell_sid (running_shells st)"
    by (rule inj_onI) (use sid_inj [OF assms(1)] in \<open>auto simp: running_shells_def\<close>)
  have "shell_sid ` running_shells st \<subseteq> s_container_id ` set_mset (live (h_table st))"
    using assms(2) by (auto simp: orderly_def image_iff) metis
  then have "card (shell_sid ` running_shells st) \<le> card (s_container_id ` set_mset (live (h_table st)))" by (intro card_mono) auto
  also have "\<dots> \<le> card (set_mset (live (h_table st)))" by (rule card_image_le) simp
  also have "\<dots> \<le> size (live (h_table st))" by (rule card_size)
  finally have "card (running_shells st) \<le> size (live (h_table st))" using card_image [OF inj] by simp
  moreover have "int (size (live (h_table st))) \<le> L" using assms(2) by (simp add: orderly_def)
  ultimately show ?thesis using fin by linarith
qed

lemma reached_house:
  "visits_reach serial t d st \<Longrightarrow> wf_daemon d \<Longrightarrow> live d = {#} \<Longrightarrow> max_sessions d < 2 ^ 31 \<Longrightarrow> house_ok d st"
  by (induction rule: visits_reach.induct) (auto intro: house_opened visit_house)

lemma reached_orderly:
  "visits_reach True t d st \<Longrightarrow> wf_daemon d \<Longrightarrow> live d = {#} \<Longrightarrow> max_sessions d < 2 ^ 31 \<Longrightarrow> 0 < config_limit t \<Longrightarrow>
     config_limit t \<le> int (max_sessions d) \<Longrightarrow> orderly (config_limit t) st"
proof (induction rule: visits_reach.induct)
  case opened
  then show ?case by (simp add: orderly_def running_shells_def)
next
  case (visited st st')
  then show ?case by (intro visit_orderly [OF visited(2)]) (auto intro: reached_house)
qed

section \<open>All at once\<close>

lemma some_connection: "\<exists>fd. connected now d r fd"
proof -
  have "connected now d r \<lparr>rx = [RData (daemon_answer (now, d) r)], tx = replicate REQUEST_SIZE 1, out = []\<rparr>"
    by (auto simp: connected_def caald.linked_def willing_def)
  then show ?thesis by blast
qed

definition scene :: "daemon \<Rightarrow> string \<Rightarrow> shell set \<Rightarrow> shell set \<Rightarrow> house" where
  "scene d u V W = \<lparr>h_table = d, h_stage = \<lambda>v. if v \<in> W then Running u else if v \<in> V then Counted u else Outside\<rparr>"

lemma scene_sel [simp]: "h_table (scene d u V W) = d"
    "h_stage (scene d u V W) v = (if v \<in> W then Running u else if v \<in> V then Counted u else Outside)"
  by (simp_all add: scene_def)

text \<open>Nothing keeps any number of shells from deciding before the first of them registers.\<close>

lemma all_decide:
  assumes "wf_daemon d" and "live d = {#}" and "max_sessions d < 2 ^ 31" and "check_bundle t u = Inr lg"
    and "finite V" and "\<forall>v \<in> V. pid_range (shell_pid v) \<and> time_range (shell_born v)"
  shows "visits_reach False t d (scene d u V {})"
  using assms(5,6)
proof (induction V)
  case empty
  have "scene d u {} {} = \<lparr>h_table = d, h_stage = \<lambda>v. Outside\<rparr>" by (simp add: scene_def)
  then show ?case by (simp add: visits_reach.opened)
next
  case (insert v V)
  obtain fd where fd: "connected 0 d count_request fd" using some_connection by blast
  have "snd (check_login t u (Some fd) None) = Inr lg"
    using decide_count [OF assms(1,3) fd, of t u None lg] assms(2,4) by (cases "0 < config_limit t") (auto simp: check_login_Inr)
  then have "visit_step False t (scene d u V {}) (set_stage v (Counted u) (scene d u V {}))"
    using insert fd by (intro visit_step.decide) simp_all
  moreover have "set_stage v (Counted u) (scene d u V {}) = scene d u (insert v V) {}"
    using insert(2) by (auto simp: scene_def set_stage_def)
  ultimately show ?case using insert by (auto intro: visits_reach.visited)
qed

lemma all_register:
  assumes "visits_reach False t d (scene d u V {})" and "finite W" and "W \<subseteq> V"
  shows "\<exists>d'. visits_reach False t d (scene d' u V W)"
  using assms(2,3)
proof (induction W)
  case empty
  then show ?case using assms(1) by blast
next
  case (insert v W)
  then obtain d' where d': "visits_reach False t d (scene d' u V W)" by auto
  let ?d = "served 0 d' (arrival 0 u v)"
  have "visit_step False t (scene d' u V W) (set_stage v (Running u) ((scene d' u V W)\<lparr>h_table := served 0 (h_table (scene d' u V W)) (arrival 0 u v)\<rparr>))"
    using insert by (intro visit_step.register) simp
  moreover have "set_stage v (Running u) ((scene d' u V W)\<lparr>h_table := served 0 (h_table (scene d' u V W)) (arrival 0 u v)\<rparr>) =
      scene ?d u V (insert v W)"
    by (auto simp: scene_def set_stage_def)
  ultimately show ?case using d' by (auto intro: visits_reach.visited)
qed

lemma running_scene: "running_shells (scene d u V W) = W"
  by (auto simp: running_shells_def)

section \<open>Entries that stay behind\<close>

text \<open>A shell that decides and registers, at an instant when the table has room.\<close>

lemma enters:
  assumes "visits_reach True t d st" and "wf_daemon d" and "live d = {#}" and "max_sessions d < 2 ^ 31" and "check_bundle t u = Inr lg"
    and "h_stage st v = Outside" and "pid_range (shell_pid v)" and "time_range (shell_born v)" and "\<forall>x. \<not> is_counted (h_stage st x)"
    and "size (live (h_table st)) < max_sessions d" and "0 < config_limit t \<longrightarrow> int (size (live (h_table st))) < config_limit t"
  shows "\<exists>st'. visits_reach True t d st' \<and> h_stage st' = (h_stage st)(v := Running u) \<and>
    live (h_table st') = add_mset (registered 0 u (shell_sid v) (word_of_int (shell_pid v))) (live (h_table st))"
proof -
  have ok: "wf_daemon (h_table st)" "max_sessions (h_table st) = max_sessions d"
    using reached_house [OF assms(1-4)] by (simp_all add: house_ok_def)
  obtain fd where fd: "connected 0 (h_table st) count_request fd" using some_connection by blast
  have "snd (check_login t u (Some fd) None) = Inr lg"
    using decide_count [OF ok(1) _ fd, of t u None lg] assms(4,5,11) ok(2) by (cases "0 < config_limit t") (auto simp: check_login_Inr)
  then have "visit_step True t st (set_stage v (Counted u) st)"
    using assms(6-9) fd by (intro visit_step.decide) simp_all
  moreover let ?st' = "set_stage v (Running u) ((set_stage v (Counted u) st)\<lparr>h_table := served 0 (h_table (set_stage v (Counted u) st)) (arrival 0 u v)\<rparr>)"
  have "visit_step True t (set_stage v (Counted u) st) ?st'" by (intro visit_step.register) simp
  ultimately have "visits_reach True t d ?st'" using assms(1) by (blast intro: visits_reach.visited)
  moreover have "live (h_table ?st') = add_mset (registered 0 u (shell_sid v) (word_of_int (shell_pid v))) (live (h_table st))"
    using served_arrival [OF ok(1), of 0 u v] ok(2) assms(4,10) by simp
  ultimately show ?thesis by (intro exI [of _ ?st']) simp
qed

text \<open>
  A shell that went without unregistering has left its entry, with its process ID.  When the
  system gives that ID to a later shell, killing the old session strikes the new one.
\<close>

lemma stale_kill:
  assumes "wf_daemon d" and "live d = {#}" and "max_sessions d < 2 ^ 31" and "check_bundle t u = Inr lg"
    and "1 < max_sessions d" and "0 < config_limit t \<longrightarrow> 1 < config_limit t"
    and "pid_range p" and "time_range a" and "time_range b" and "a \<noteq> b"
  shows "\<exists>st now. visits_reach True t d st \<and> h_stage st (Shell p a) = Gone \<and> is_running (h_stage st (Shell p b)) \<and>
    \<not> is_running (h_stage (strike (struck_by now (h_table st) (kill_request (shell_sid (Shell p a)))) st) (Shell p b))"
proof -
  let ?v = "Shell p a" and ?w = "Shell p b" and ?st0 = "\<lparr>h_table = d, h_stage = \<lambda>v. Outside\<rparr>"
  have s0: "visits_reach True t d ?st0" by (rule visits_reach.opened)
  obtain st1 where s1: "visits_reach True t d st1" "h_stage st1 = (\<lambda>v. Outside)(?v := Running u)"
    "live (h_table st1) = {#registered 0 u (shell_sid ?v) (word_of_int p)#}"
    using enters [OF s0 assms(1-4), of ?v] assms(2,5-8) by auto
  let ?st2 = "set_stage ?v Gone st1"
  have "visit_step True t st1 ?st2" using s1(2) by (intro visit_step.abandon [where u = u]) simp
  with s1(1) have s2: "visits_reach True t d ?st2" by (rule visits_reach.visited)
  have quiet: "\<forall>x. \<not> is_counted (h_stage ?st2 x)" using s1(2) by simp
  obtain st3 where s3: "visits_reach True t d st3" "h_stage st3 = (h_stage ?st2)(?w := Running u)"
    "live (h_table st3) = {#registered 0 u (shell_sid ?w) (word_of_int p), registered 0 u (shell_sid ?v) (word_of_int p)#}"
    using enters [OF s2 assms(1-4), of ?w] quiet s1(2,3) assms(5-10) by auto
  have wf: "wf_daemon (h_table st3)" using reached_house [OF s3(1) assms(1-3)] by (simp add: house_ok_def)
  have key: "cstr (rq_container_id (kill_request (shell_sid ?v))) = shell_sid ?v"
    using sid_wire(2,3) [of ?v] assms(7,8) by (simp add: CAALD_MAX_STR_def)
  have pid: "word_of_int p \<in> struck_by 0 (h_table st3) (kill_request (shell_sid ?v))"
    using kill_cases [OF wf, of "kill_request (shell_sid ?v)"] s3(3) key sid_wire(1) [of ?v 0 u] assms(7,8)
    by (auto simp: struck_by_def serve_def case_prod_unfold registered_def)
  show ?thesis
    using s3 assms(10) pid s1(2) by (intro exI [of _ st3] exI [of _ 0]) simp
qed

end
