(* ===== verification/Toml_Literals.thy ===== *)
theory Toml_Literals
  imports Toml_Datum
begin

text \<open>
  Reading dates, times and numbers from a buffer (\<open>read_int\<close> to \<open>process_numstr\<close> of
  \<open>src/src/lib/tomlc17.c\<close>), with the libc functions they rest on: \<open>isdigit\<close> and the like in
  the C locale, \<open>strspn\<close>, \<open>strtoll\<close> and \<open>strtod\<close>.  A buffer is the list of its characters
  before the terminating NUL; reading at its end gives NUL.
\<close>

section \<open>Characters\<close>

definition code :: "char \<Rightarrow> int" where
  "code c = int (of_char c)"

definition isdigit :: "char \<Rightarrow> bool" where
  "isdigit c \<longleftrightarrow> 48 \<le> code c \<and> code c \<le> 57"

definition is_upper :: "char \<Rightarrow> bool" where
  "is_upper c \<longleftrightarrow> 65 \<le> code c \<and> code c \<le> 90"

definition is_lower :: "char \<Rightarrow> bool" where
  "is_lower c \<longleftrightarrow> 97 \<le> code c \<and> code c \<le> 122"

definition isalnum :: "char \<Rightarrow> bool" where
  "isalnum c \<longleftrightarrow> isdigit c \<or> is_upper c \<or> is_lower c"

definition tolower :: "char \<Rightarrow> char" where
  "tolower c = (if is_upper c then char_of (of_char c + 32 :: nat) else c)"

definition toupper :: "char \<Rightarrow> char" where
  "toupper c = (if is_lower c then char_of (of_char c - 32 :: nat) else c)"

definition is_hex_char :: "char \<Rightarrow> bool" where
  "is_hex_char ch \<longleftrightarrow>
     (let c = toupper ch in isdigit c \<or> 65 \<le> code c \<and> code c \<le> 70)"

text \<open>Printable ASCII, or a byte with its high bit set.\<close>

definition is_valid_char :: "char \<Rightarrow> bool" where
  "is_valid_char c \<longleftrightarrow> 32 \<le> code c \<and> code c \<le> 126 \<or> 128 \<le> code c"

definition digit :: "char \<Rightarrow> int" where
  "digit c = code c - 48"

text \<open>\<open>p[i]\<close> of a NUL-terminated buffer, and \<open>strspn\<close>.\<close>

definition at :: "string \<Rightarrow> nat \<Rightarrow> char" where
  "at p i = (if i < length p then p ! i else NUL)"

definition strspn :: "string \<Rightarrow> string \<Rightarrow> nat" where
  "strspn p accept = length (takeWhile (\<lambda>c. c \<in> set accept) p)"

section \<open>Dates and times\<close>

definition INT_MAX :: int where "INT_MAX = 2147483647"

text \<open>The bytes consumed and the value; nothing on overflow, where the code returns 0 bytes.\<close>

fun read_int_loop :: "string \<Rightarrow> nat \<Rightarrow> int \<Rightarrow> (nat \<times> int) option" where
  "read_int_loop [] n val = Some (n, val)"
| "read_int_loop (c # p) n val =
     (if \<not> isdigit c then Some (n, val)
      else let val' = val * 10 + digit c in
           if val' > INT_MAX then None else read_int_loop p (Suc n) val')"

definition read_int :: "string \<Rightarrow> nat \<times> int" where
  "read_int p = (case read_int_loop p 0 0 of None \<Rightarrow> (0, 0) | Some r \<Rightarrow> r)"

definition is_leap :: "int \<Rightarrow> bool" where
  "is_leap year \<longleftrightarrow> (year mod 4 = 0 \<and> year mod 100 \<noteq> 0) \<or> year mod 400 = 0"

definition days_in_month :: "int \<Rightarrow> int list" where
  "days_in_month year =
     [31, 28 + (if is_leap year then 1 else 0), 31, 30, 31, 30, 31, 31, 30, 31, 30, 31]"

definition is_valid_date :: "int \<Rightarrow> int \<Rightarrow> int \<Rightarrow> bool" where
  "is_valid_date year month day \<longleftrightarrow>
     (if \<not> 1 \<le> year then False
      else if \<not> (1 \<le> month \<and> month \<le> 12) then False
      else 1 \<le> day \<and> day \<le> days_in_month year ! nat (month - 1))"

definition is_valid_time :: "int \<Rightarrow> int \<Rightarrow> int \<Rightarrow> int \<Rightarrow> bool" where
  "is_valid_time hour minute sec usec \<longleftrightarrow>
     0 \<le> hour \<and> hour \<le> 23 \<and> 0 \<le> minute \<and> minute \<le> 59 \<and> 0 \<le> sec \<and> sec \<le> 59 \<and> 0 \<le> usec"

definition is_valid_timezone :: "int \<Rightarrow> bool" where
  "is_valid_timezone minute \<longleftrightarrow>
     (let m = (if minute < 0 then - minute else minute) in
      0 \<le> m div 60 \<and> m div 60 \<le> 23 \<and> 0 \<le> m mod 60 \<and> m mod 60 < 60)"

text \<open>\<open>YYYY-MM-DD\<close>: always 10 bytes.\<close>

definition read_date :: "string \<Rightarrow> (int \<times> int \<times> int) option" where
  "read_date p =
     (let (n, year) = read_int p in
      if n \<noteq> 4 \<or> at p 4 \<noteq> CHR ''-'' then None
      else let p1 = drop 5 p; (n, month) = read_int p1 in
           if n \<noteq> 2 \<or> at p1 2 \<noteq> CHR ''-'' then None
           else let p2 = drop 3 p1; (n, day) = read_int p2 in
                if n \<noteq> 2 then None else Some (year, month, day))"

fun usec_loop :: "string \<Rightarrow> int \<Rightarrow> int \<Rightarrow> nat \<Rightarrow> int \<times> nat" where
  "usec_loop [] factor usec k = (usec, k)"
| "usec_loop (c # p) factor usec k =
     (if isdigit c \<and> factor \<noteq> 0 then usec_loop p (factor div 10) (usec + digit c * factor) (Suc k)
      else (usec, k))"

text \<open>\<open>HH:MM[:SS[.frac]]\<close>: the bytes consumed, hour, minute, second and microseconds.\<close>

definition read_time :: "string \<Rightarrow> (nat \<times> int \<times> int \<times> int \<times> int) option" where
  "read_time p =
     (let (n, hour) = read_int p in
      if n \<noteq> 2 \<or> at p 2 \<noteq> CHR '':'' then None
      else let p1 = drop 3 p; (n, minute) = read_int p1 in
           if n \<noteq> 2 then None
           else if at p1 2 \<noteq> CHR '':'' then Some (5, hour, minute, 0, 0)
           else let p2 = drop 3 p1; (n, second) = read_int p2 in
                if n \<noteq> 2 then None
                else let p3 = drop 2 p2 in
                     if at p3 0 \<noteq> CHR ''.'' then Some (8, hour, minute, second, 0)
                     else if \<not> isdigit (at p3 1) then None
                     else let (usec, k) = usec_loop (drop 1 p3) 100000 0 0
                          in Some (9 + k, hour, minute, second, usec))"

text \<open>The bytes consumed, whether the sign is minus, hours and minutes.\<close>

definition read_tzone :: "string \<Rightarrow> (nat \<times> bool \<times> int \<times> int) option" where
  "read_tzone p =
     (if at p 0 = CHR ''Z'' \<or> at p 0 = CHR ''z'' then Some (1, False, 0, 0)
      else if \<not> (at p 0 = CHR ''+'' \<or> at p 0 = CHR ''-'') then None
      else let p1 = drop 1 p; (n, tzhour) = read_int p1 in
           if n \<noteq> 2 \<or> at p1 2 \<noteq> CHR '':'' then None
           else let p2 = drop 3 p1; (n, tzminute) = read_int p2 in
                if n \<noteq> 2 then None
                else Some (6, at p 0 = CHR ''-'', tzhour, tzminute))"

section \<open>Numbers\<close>

text \<open>
  Removing underscores.  The left neighbour is the character before, NUL at the start; the
  positions that the loop has overwritten so far are all further left.
\<close>

definition num_char :: "int \<Rightarrow> char \<Rightarrow> bool" where
  "num_char base c \<longleftrightarrow> isdigit c \<or> base = 16 \<and> is_hex_char c"

fun squeeze :: "int \<Rightarrow> char \<Rightarrow> string \<Rightarrow> string option" where
  "squeeze base left [] = Some []"
| "squeeze base left (c # cs) =
     (if c \<noteq> CHR ''_'' then map_option ((#) c) (squeeze base c cs)
      else if \<not> num_char base left then None
      else if \<not> num_char base (at cs 0) then None
      else squeeze base c cs)"

fun check_points :: "char \<Rightarrow> string \<Rightarrow> string option" where
  "check_points left [] = Some []"
| "check_points left (c # cs) =
     (if c = CHR ''.''
      then if \<not> isdigit left \<or> \<not> isdigit (at cs 0) then None
           else map_option ((#) c) (check_points c cs)
      else map_option ((#) (tolower c)) (check_points c cs))"

definition process_numstr :: "string \<Rightarrow> int \<Rightarrow> string + string" where
  "process_numstr buffer base =
     (case squeeze base NUL buffer of
        None \<Rightarrow> Inl ''underscore only allowed between digits''
      | Some b \<Rightarrow>
          (case check_points NUL b of
             None \<Rightarrow> Inl ''decimal point must be surrounded by digits''
           | Some b' \<Rightarrow>
               (let q = (if at b' 0 = CHR ''+'' \<or> at b' 0 = CHR ''-'' then drop 1 b' else b') in
                if base = 10 \<and> at q 0 = CHR ''0'' \<and> isdigit (at q 1)
                then Inl ''leading 0 in numbers'' else Inr b')))"

text \<open>\<open>strtoll\<close>: value, whether it is out of range, whether nothing was converted, and the rest.\<close>

definition digit_value :: "char \<Rightarrow> int" where
  "digit_value c =
     (if isdigit c then digit c
      else if is_lower c then code c - 87
      else if is_upper c then code c - 55 else 99)"

fun digits_loop :: "int \<Rightarrow> string \<Rightarrow> int \<Rightarrow> nat \<Rightarrow> int \<times> nat \<times> string" where
  "digits_loop base [] val n = (val, n, [])"
| "digits_loop base (c # cs) val n =
     (if digit_value c < base then digits_loop base cs (val * base + digit_value c) (Suc n)
      else (val, n, c # cs))"

record strto =
  st_int :: "64 word"
  st_erange :: bool
  st_none :: bool
  st_rest :: string

definition strtoll :: "string \<Rightarrow> int \<Rightarrow> strto" where
  "strtoll s base =
     (let neg = (at s 0 = CHR ''-'');
          body = (if at s 0 = CHR ''+'' \<or> at s 0 = CHR ''-'' then drop 1 s else s);
          (val, n, rest) = digits_loop base body 0 0;
          v = (if neg then - val else val)
      in if n = 0 then \<lparr>st_int = 0, st_erange = False, st_none = True, st_rest = s\<rparr>
         else \<lparr>st_int = word_of_int (if v < - (2 ^ 63) then - (2 ^ 63) else if v \<ge> 2 ^ 63 then 2 ^ 63 - 1 else v),
               st_erange = (v < - (2 ^ 63) \<or> 2 ^ 63 \<le> v), st_none = False, st_rest = rest\<rparr>)"

section \<open>Doubles\<close>

text \<open>
  The nearest IEEE double of \<open>m * 10 ^ e\<close>, ties to even: the bits without the sign, and
  whether \<open>strtod\<close> reports a range error (overflow, or a result that is tiny and inexact).
\<close>

fun bit_length :: "nat \<Rightarrow> nat" where
  "bit_length n = (if n = 0 then 0 else Suc (bit_length (n div 2)))"

declare bit_length.simps [simp del]

text \<open>Round \<open>p / q * 2 ^ (- x)\<close> to an integer; with it, whether that was exact.\<close>

definition round_ratio :: "nat \<Rightarrow> nat \<Rightarrow> int \<Rightarrow> nat \<times> bool" where
  "round_ratio p q x =
     (let a = p * 2 ^ nat (- x); b = q * 2 ^ nat x; n = a div b; r = a mod b
      in (if 2 * r < b \<or> (2 * r = b \<and> even n) then n else Suc n, r = 0))"

definition double_exponent :: "nat \<Rightarrow> nat \<Rightarrow> int" where
  "double_exponent p q =
     (let x = int (bit_length p) - int (bit_length q) - 53;
          a = p * 2 ^ nat (- x); b = q * 2 ^ nat x
      in if a div b < 2 ^ 52 then x - 1 else if a div b < 2 ^ 53 then x else x + 1)"

definition ratio_to_double :: "nat \<Rightarrow> nat \<Rightarrow> 64 word \<times> bool" where
  "ratio_to_double p q =
     (if p = 0 then (0, False)
      else
        (let x0 = double_exponent p q;
             n0 = fst (round_ratio p q x0);
             tiny = (if n0 = 2 ^ 53 then x0 + 1 else x0) < -1074;
             x = max x0 (-1074);
             (n, exact) = round_ratio p q x;
             (n', x') = (if n = 2 ^ 53 then (2 ^ 52, x + 1) else (n, x))
         in if 971 < x' then (0x7FF0000000000000, True)
            else (if n' < 2 ^ 52 then of_nat n'
                  else of_nat (n' - 2 ^ 52) + of_int ((x' + 1075) * 2 ^ 52), tiny \<and> \<not> exact)))"

definition decimal_to_double :: "nat \<Rightarrow> int \<Rightarrow> 64 word \<times> bool" where
  "decimal_to_double m e = ratio_to_double (m * 10 ^ nat e) (10 ^ nat (- e))"

fun frac_loop :: "string \<Rightarrow> nat \<Rightarrow> nat \<Rightarrow> nat \<times> nat \<times> string" where
  "frac_loop [] m k = (m, k, [])"
| "frac_loop (c # cs) m k =
     (if isdigit c then frac_loop cs (10 * m + nat (digit c)) (Suc k) else (m, k, c # cs))"

text \<open>The optional exponent; without digits it is not part of the number.\<close>

definition read_exponent :: "string \<Rightarrow> int \<times> string" where
  "read_exponent s =
     (if at s 0 \<noteq> CHR ''e'' \<and> at s 0 \<noteq> CHR ''E'' then (0, s)
      else let neg = (at s 1 = CHR ''-'');
               body = (if at s 1 = CHR ''+'' \<or> at s 1 = CHR ''-'' then drop 2 s else drop 1 s);
               (m, k, rest) = frac_loop body 0 0
           in if k = 0 then (0, s) else (if neg then - int m else int m, rest))"

record strtod_result =
  sd_bits :: "64 word"
  sd_erange :: bool
  sd_none :: bool
  sd_rest :: string

definition SIGN_BIT :: "64 word" where "SIGN_BIT = 0x8000000000000000"

definition strtod :: "string \<Rightarrow> strtod_result" where
  "strtod s =
     (let sign = (if at s 0 = CHR ''-'' then SIGN_BIT else 0);
          body = (if at s 0 = CHR ''+'' \<or> at s 0 = CHR ''-'' then drop 1 s else s)
      in if take 3 body = ''nan''
         then \<lparr>sd_bits = sign OR 0x7FF8000000000000, sd_erange = False, sd_none = False, sd_rest = drop 3 body\<rparr>
         else if take 3 body = ''inf''
         then \<lparr>sd_bits = sign OR 0x7FF0000000000000, sd_erange = False, sd_none = False, sd_rest = drop 3 body\<rparr>
         else
           let (m1, k1, r1) = frac_loop body 0 0;
               (m2, k2, r2) = (if at r1 0 = CHR ''.'' then frac_loop (drop 1 r1) m1 0 else (m1, 0, r1))
           in if k1 + k2 = 0 then \<lparr>sd_bits = 0, sd_erange = False, sd_none = True, sd_rest = s\<rparr>
              else let (x, r3) = read_exponent r2;
                       (bits, er) = decimal_to_double m2 (x - int k2)
                   in \<lparr>sd_bits = sign OR bits, sd_erange = er, sd_none = False, sd_rest = r3\<rparr>)"

end
