(* ===== verification/Toml_Scanner.thy ===== *)
theory Toml_Scanner
  imports Toml_Literals
begin

text \<open>
  The scanner of \<open>src/src/lib/tomlc17.c\<close>: \<open>scanner_t\<close> as the characters still to be read, the
  line number and the two nesting counters; \<open>scan_get\<close> to \<open>scan_value\<close>.  \<open>TOK_FIN\<close> as a
  character is \<open>None\<close>.  A failed scan is the text that \<open>SETERROR\<close> leaves in the error buffer;
  it ends the parse, so the sticky field \<open>errmsg\<close> is never read again.
\<close>

abbreviation TAB :: char where "TAB \<equiv> CHR 0x09"

abbreviation LF :: char where "LF \<equiv> CHR 0x0A"

abbreviation CR :: char where "CR \<equiv> CHR 0x0D"

abbreviation DQ :: char where "DQ \<equiv> CHR 0x22"

abbreviation SQ :: char where "SQ \<equiv> CHR 0x27"

abbreviation BSL :: char where "BSL \<equiv> CHR 0x5C"

definition ERRMSG_SIZE :: nat where "ERRMSG_SIZE = 200"

text \<open>\<open>SETERROR\<close>: what the buffer holds afterwards.\<close>

definition seterror :: "int \<Rightarrow> string \<Rightarrow> string" where
  "seterror lineno msg =
     take (ERRMSG_SIZE - 1) ((if lineno \<noteq> 0 then ''(line '' @ show_int lineno @ '') '' else []) @ msg)"

section \<open>Scanner and tokens\<close>

datatype toktyp =
    TOK_DOT | TOK_EQUAL | TOK_COMMA | TOK_LBRACK | TOK_LLBRACK | TOK_RBRACK | TOK_RRBRACK
  | TOK_LBRACE | TOK_RBRACE | TOK_LIT | TOK_STRING | TOK_MLSTRING | TOK_LITSTRING
  | TOK_MLLITSTRING | TOK_TIME | TOK_DATE | TOK_DATETIME | TOK_DATETIMETZ | TOK_INTEGER
  | TOK_FLOAT | TOK_BOOL | TOK_ENDL | TOK_FIN

text \<open>The union of a token; the escape pointer is an offset into the token's text.\<close>

datatype tokval =
    NoVal | Escp "nat option" | ValInt64 "64 word" | ValFp64 "64 word" | ValB1 bool | ValTs ts

record token =
  toktyp :: toktyp
  tok_lineno :: int
  tok_str :: string
  tok_u :: tokval

record scanner =
  cur :: string
  lineno :: int
  bracket_level :: int
  brace_level :: int

definition BRACKET_LEVEL_MAX :: int where "BRACKET_LEVEL_MAX = 30"

definition BRACE_LEVEL_MAX :: int where "BRACE_LEVEL_MAX = 30"

definition scan_init :: "string \<Rightarrow> scanner" where
  "scan_init src = \<lparr>cur = src, lineno = 1, bracket_level = 0, brace_level = 0\<rparr>"

section \<open>Characters of the input\<close>

text \<open>The next character; a carriage return before a line feed is dropped.\<close>

definition scan_get :: "scanner \<Rightarrow> char option \<times> scanner" where
  "scan_get sp =
     (case cur sp of
        [] \<Rightarrow> (None, sp)
      | c # p \<Rightarrow>
          (let crlf = (c = CR \<and> p \<noteq> [] \<and> hd p = LF);
               ret = (if crlf then LF else c)
           in (Some ret, sp\<lparr>cur := (if crlf then tl p else p),
                 lineno := lineno sp + (if ret = LF then 1 else 0)\<rparr>)))"

definition scan_match :: "scanner \<Rightarrow> char \<Rightarrow> bool" where
  "scan_match sp ch \<longleftrightarrow>
     (case cur sp of
        [] \<Rightarrow> False
      | c # p \<Rightarrow> c = ch \<or> ch = LF \<and> p \<noteq> [] \<and> c = CR \<and> hd p = LF)"

definition scan_matchany :: "scanner \<Rightarrow> string \<Rightarrow> bool" where
  "scan_matchany sp accept = list_ex (scan_match sp) accept"

definition scan_nmatch :: "scanner \<Rightarrow> char \<Rightarrow> nat \<Rightarrow> bool" where
  "scan_nmatch sp ch n \<longleftrightarrow> take n (cur sp) = replicate n ch"

definition scan_copystr :: "scanner \<Rightarrow> nat \<Rightarrow> string" where
  "scan_copystr sp dstsz = take (dstsz - 1) (cur sp)"

primrec scan_skip :: "nat \<Rightarrow> scanner \<Rightarrow> scanner" where
  "scan_skip 0 sp = sp"
| "scan_skip (Suc n) sp = scan_skip n (snd (scan_get sp))"

definition mktoken :: "scanner \<Rightarrow> toktyp \<Rightarrow> token" where
  "mktoken sp typ = \<lparr>toktyp = typ, tok_lineno = lineno sp, tok_str = [], tok_u = NoVal\<rparr>"

text \<open>The text between an earlier and a later position.\<close>

definition between :: "scanner \<Rightarrow> scanner \<Rightarrow> string" where
  "between sp0 sp = take (length (cur sp0) - length (cur sp)) (cur sp0)"

definition advance :: "nat \<Rightarrow> scanner \<Rightarrow> scanner" where
  "advance n sp = sp\<lparr>cur := drop n (cur sp)\<rparr>"

lemma scan_get_length [simp]: "length (cur (snd (scan_get sp))) \<le> length (cur sp)"
  by (auto simp: scan_get_def Let_def split: list.splits)

lemma scan_get_less:
  "scan_get sp = (Some c, sp') \<Longrightarrow> length (cur sp') < length (cur sp)"
  by (auto simp: scan_get_def Let_def split: list.splits)

lemma scan_get_le:
  "scan_get sp = (x, sp') \<Longrightarrow> length (cur sp') \<le> length (cur sp)"
  by (metis scan_get_length snd_conv)

lemma scan_get_consumes:
  "(x, sp') = scan_get sp \<Longrightarrow>
     length (cur sp') \<le> length (cur sp) \<and> (x \<noteq> None \<longrightarrow> length (cur sp') < length (cur sp))"
  by (auto simp: scan_get_def Let_def split: list.splits)

lemma scan_skip_le: "length (cur (scan_skip n sp)) \<le> length (cur sp)"
proof (induction n arbitrary: sp)
  case (Suc n)
  show ?case using Suc [of "snd (scan_get sp)"] scan_get_length [of sp] by (simp del: scan_get_length)
qed simp

lemma scan_match_less:
  "scan_match sp c \<Longrightarrow> length (cur (snd (scan_get sp))) < length (cur sp)"
  by (auto simp: scan_match_def scan_get_def Let_def split: list.splits)

lemma scan_skip_less: "scan_match sp c \<Longrightarrow> 0 < n \<Longrightarrow> length (cur (scan_skip n sp)) < length (cur sp)"
  using scan_match_less [of sp c] scan_skip_le [of "n - 1" "snd (scan_get sp)"] by (cases n) auto

section \<open>Strings\<close>

definition is_simple_escape :: "char option \<Rightarrow> bool" where
  "is_simple_escape ch \<longleftrightarrow> (case ch of None \<Rightarrow> False | Some c \<Rightarrow> c \<in> set (''btnfre'' @ [DQ, BSL]))"

definition hex_count :: "char option \<Rightarrow> nat" where
  "hex_count ch =
     (if ch = Some CHR ''x'' then 2 else if ch = Some CHR ''u'' then 4
      else if ch = Some CHR ''U'' then 8 else 0)"

text \<open>Whether \<open>n\<close> hexadecimal digits follow, and where the check stopped.\<close>

fun hex_digits :: "nat \<Rightarrow> scanner \<Rightarrow> bool \<times> scanner" where
  "hex_digits 0 sp = (True, sp)"
| "hex_digits (Suc n) sp =
     (case scan_get sp of
        (Some c, sp') \<Rightarrow> if is_hex_char c then hex_digits n sp' else (False, sp')
      | (None, sp') \<Rightarrow> (False, sp'))"

lemma hex_digits_le: "hex_digits n sp = (b, sp') \<Longrightarrow> length (cur sp') \<le> length (cur sp)"
  by (induction n sp rule: hex_digits.induct)
    (auto split: prod.splits option.splits if_splits dest!: scan_get_le)

definition hex_error :: "scanner \<Rightarrow> char option \<Rightarrow> string" where
  "hex_error sp ch =
     seterror (lineno sp)
       (''expect '' @ show_int (int (hex_count ch)) @ '' hex digits after '' @ BSL # (case ch of None \<Rightarrow> [] | Some c \<Rightarrow> [c]))"

definition note_escape :: "scanner \<Rightarrow> scanner \<Rightarrow> nat option \<Rightarrow> nat option" where
  "note_escape start sp escp =
     (case escp of None \<Rightarrow> Some (length (cur start) - length (cur sp)) | Some e \<Rightarrow> Some e)"

function string_loop :: "scanner \<Rightarrow> nat option \<Rightarrow> scanner \<Rightarrow> string + nat option \<times> scanner" where
  "string_loop start escp sp =
     (if scan_match sp DQ then Inr (escp, sp)
      else case scan_get sp of
        (None, sp1) \<Rightarrow> Inl (seterror (lineno sp1) ''unterminated string'')
      | (Some ch, sp1) \<Rightarrow>
          if ch \<noteq> BSL
          then if \<not> (is_valid_char ch \<or> ch = CHR '' '' \<or> ch = TAB)
               then Inl (seterror (lineno sp1) ''invalid char in string'')
               else string_loop start escp sp1
          else case scan_get sp1 of
            (esc, sp2) \<Rightarrow>
              if is_simple_escape esc then string_loop start (note_escape start sp escp) sp2
              else if hex_count esc = 0
              then Inl (seterror (lineno sp2) ''bad escape char in string'')
              else case hex_digits (hex_count esc) sp2 of
                (ok, sp3) \<Rightarrow>
                  if ok then string_loop start (note_escape start sp escp) sp3
                  else Inl (hex_error sp3 esc))"
  by pat_completeness auto
termination
  by (relation "measure (\<lambda>(start, escp, sp). length (cur sp))")
    (auto dest!: scan_get_consumes hex_digits_le [OF sym])

declare string_loop.simps [simp del]

text \<open>The blanks after a line-ending backslash, and all white space after its newline.\<close>

function blank_loop :: "char option \<Rightarrow> scanner \<Rightarrow> char option \<times> scanner" where
  "blank_loop ch sp =
     (if ch = Some CHR '' '' \<or> ch = Some TAB
      then case scan_get sp of
             (None, sp') \<Rightarrow> (None, sp')
           | (Some c, sp') \<Rightarrow> blank_loop (Some c) sp'
      else (ch, sp))"
  by pat_completeness auto
termination
  by (relation "measure (\<lambda>(ch, sp). length (cur sp))") (auto split: prod.splits dest: scan_get_less)

declare blank_loop.simps [simp del]

function ws_loop :: "scanner \<Rightarrow> scanner" where
  "ws_loop sp = (if scan_matchany sp [CHR '' '', TAB, LF] then ws_loop (snd (scan_get sp)) else sp)"
  by pat_completeness auto
termination
proof (relation "measure (\<lambda>sp. length (cur sp))")
  fix sp
  assume "scan_matchany sp [CHR '' '', TAB, LF]"
  then obtain c where "scan_match sp c" unfolding scan_matchany_def list_ex_iff by blast
  from scan_match_less [OF this] show "(snd (scan_get sp), sp) \<in> measure (\<lambda>sp. length (cur sp))"
    unfolding in_measure .
qed simp

declare ws_loop.simps [simp del]

lemma blank_loop_le: "blank_loop ch sp = (r, sp') \<Longrightarrow> length (cur sp') \<le> length (cur sp)"
proof (induction ch sp rule: blank_loop.induct)
  case (1 ch sp)
  then show ?case
    by (subst (asm) blank_loop.simps)
      (auto split: prod.splits option.splits if_splits dest!: scan_get_le intro: order_trans)
qed

lemma ws_loop_le: "length (cur (ws_loop sp)) \<le> length (cur sp)"
proof (induction sp rule: ws_loop.induct)
  case (1 sp)
  then show ?case
    using scan_get_length [of sp] by (subst ws_loop.simps) (auto intro: order_trans)
qed

function mlstring_loop :: "scanner \<Rightarrow> nat option \<Rightarrow> scanner \<Rightarrow> string + nat option \<times> scanner" where
  "mlstring_loop start escp sp =
     (if scan_nmatch sp DQ 3 \<and> scan_nmatch sp DQ 4 \<and> scan_nmatch sp DQ 6
      then Inl (seterror (lineno sp) ''detected sequences of 3 or more double quotes'')
      else if scan_nmatch sp DQ 3 \<and> \<not> scan_nmatch sp DQ 4 then Inr (escp, sp)
      else case scan_get sp of
        (None, sp1) \<Rightarrow> Inl (seterror (lineno sp1) (''unterminated '' @ [DQ, DQ, DQ]))
      | (Some ch, sp1) \<Rightarrow>
          if ch \<noteq> BSL
          then if \<not> (is_valid_char ch \<or> ch \<in> {CHR '' '', TAB, LF})
               then Inl (seterror (lineno sp1) ''invalid char in string'')
               else mlstring_loop start escp sp1
          else case scan_get sp1 of
            (esc, sp2) \<Rightarrow>
              if is_simple_escape esc then mlstring_loop start (note_escape start sp escp) sp2
              else if hex_count esc \<noteq> 0
              then (case hex_digits (hex_count esc) sp2 of
                      (ok, sp3) \<Rightarrow>
                        if ok then mlstring_loop start (note_escape start sp escp) sp3
                        else Inl (hex_error sp3 esc))
              else case blank_loop esc sp2 of
                (nl, sp3) \<Rightarrow>
                  if nl = Some LF
                  then mlstring_loop start (note_escape start sp escp) (ws_loop sp3)
                  else Inl (seterror (lineno sp3) ''bad escape char in string''))"
  by pat_completeness auto
termination
  by (relation "measure (\<lambda>(start, escp, sp). length (cur sp))")
    (auto dest!: scan_get_consumes hex_digits_le [OF sym] blank_loop_le [OF sym]
      intro!: order.strict_trans1 [OF ws_loop_le])

declare mlstring_loop.simps [simp del]

text \<open>The opening quotes and a newline right behind them are not part of the text.\<close>

definition ml_start :: "scanner \<Rightarrow> scanner" where
  "ml_start sp = (let sp1 = scan_skip 3 sp in if scan_match sp1 LF then scan_skip 1 sp1 else sp1)"

definition scan_multiline_string :: "scanner \<Rightarrow> string + token \<times> scanner" where
  "scan_multiline_string sp =
     (let sp0 = ml_start sp in
      case mlstring_loop sp0 None sp0 of
        Inl e \<Rightarrow> Inl e
      | Inr (escp, sp1) \<Rightarrow>
          Inr ((mktoken sp0 TOK_MLSTRING)\<lparr>tok_str := between sp0 sp1, tok_u := Escp escp\<rparr>, scan_skip 3 sp1))"

definition scan_string :: "scanner \<Rightarrow> string + token \<times> scanner" where
  "scan_string sp =
     (if scan_nmatch sp DQ 3 then scan_multiline_string sp
      else let sp0 = scan_skip 1 sp in
           case string_loop sp0 None sp0 of
             Inl e \<Rightarrow> Inl e
           | Inr (escp, sp1) \<Rightarrow>
               Inr ((mktoken sp0 TOK_STRING)\<lparr>tok_str := between sp0 sp1, tok_u := Escp escp\<rparr>, scan_skip 1 sp1))"

function mllit_loop :: "scanner \<Rightarrow> string + scanner" where
  "mllit_loop sp =
     (if scan_nmatch sp SQ 3 \<and> scan_nmatch sp SQ 4 \<and> scan_nmatch sp SQ 6
      then Inl (seterror (lineno sp) ''sequences of 3 or more single quotes'')
      else if scan_nmatch sp SQ 3 \<and> \<not> scan_nmatch sp SQ 4 then Inr sp
      else case scan_get sp of
        (None, sp1) \<Rightarrow> Inl (seterror (lineno sp1) ''unterminated multiline lit string'')
      | (Some ch, sp1) \<Rightarrow>
          if \<not> (is_valid_char ch \<or> ch \<in> {CHR '' '', TAB, LF})
          then Inl (seterror (lineno sp1) ''invalid char in string'')
          else mllit_loop sp1)"
  by pat_completeness auto
termination
  by (relation "measure (\<lambda>sp. length (cur sp))") (auto dest!: scan_get_consumes)

declare mllit_loop.simps [simp del]

definition scan_multiline_litstring :: "scanner \<Rightarrow> string + token \<times> scanner" where
  "scan_multiline_litstring sp =
     (let sp0 = ml_start sp in
      case mllit_loop sp0 of
        Inl e \<Rightarrow> Inl e
      | Inr sp1 \<Rightarrow> Inr ((mktoken sp0 TOK_MLLITSTRING)\<lparr>tok_str := between sp0 sp1\<rparr>, scan_skip 3 sp1))"

function lit_loop :: "scanner \<Rightarrow> string + scanner" where
  "lit_loop sp =
     (if scan_match sp SQ then Inr sp
      else case scan_get sp of
        (None, sp1) \<Rightarrow> Inl (seterror (lineno sp1) ''unterminated string'')
      | (Some ch, sp1) \<Rightarrow>
          if \<not> (is_valid_char ch \<or> ch = TAB)
          then Inl (seterror (lineno sp1) ''invalid char in string'')
          else lit_loop sp1)"
  by pat_completeness auto
termination
  by (relation "measure (\<lambda>sp. length (cur sp))") (auto dest!: scan_get_consumes)

declare lit_loop.simps [simp del]

definition scan_litstring :: "scanner \<Rightarrow> string + token \<times> scanner" where
  "scan_litstring sp =
     (if scan_nmatch sp SQ 3 then scan_multiline_litstring sp
      else let sp0 = scan_skip 1 sp in
           case lit_loop sp0 of
             Inl e \<Rightarrow> Inl e
           | Inr sp1 \<Rightarrow> Inr ((mktoken sp0 TOK_LITSTRING)\<lparr>tok_str := between sp0 sp1\<rparr>, scan_skip 1 sp1))"

section \<open>Dates and times\<close>

definition ts_val :: "int \<Rightarrow> int \<Rightarrow> int \<Rightarrow> int \<Rightarrow> int \<Rightarrow> int \<Rightarrow> int \<Rightarrow> int \<Rightarrow> tokval" where
  "ts_val year month day hour minute sec usec tz =
     ValTs \<lparr>ts_year = year, ts_month = month, ts_day = day, ts_hour = hour, ts_minute = minute,
       ts_second = sec, ts_usec = usec, ts_tz = tz\<rparr>"

text \<open>The token of the next \<open>n\<close> characters.\<close>

definition literal_token :: "scanner \<Rightarrow> toktyp \<Rightarrow> nat \<Rightarrow> tokval \<Rightarrow> token \<times> scanner" where
  "literal_token sp typ n v =
     ((mktoken sp typ)\<lparr>tok_str := take n (cur sp), tok_u := v\<rparr>, advance n sp)"

definition scan_time :: "scanner \<Rightarrow> string + token \<times> scanner" where
  "scan_time sp =
     (case read_time (scan_copystr sp 20) of
        None \<Rightarrow> Inl (seterror (lineno sp) ''invalid time'')
      | Some (n, hour, minute, sec, usec) \<Rightarrow>
          if \<not> is_valid_time hour minute sec usec
          then Inl (seterror (lineno sp) ''invalid time'')
          else Inr (literal_token sp TOK_TIME n (ts_val (-1) (-1) (-1) hour minute sec usec (-1))))"

text \<open>What follows a date.\<close>

definition scan_after_date :: "scanner \<Rightarrow> string \<Rightarrow> int \<Rightarrow> int \<Rightarrow> int \<Rightarrow> string + token \<times> scanner" where
  "scan_after_date sp p year month day =
     (if \<not> (at p 0 \<in> {CHR ''T'', CHR '' '', CHR ''t''} \<and> isdigit (at p 1) \<and> isdigit (at p 2) \<and> at p 3 = CHR '':'')
      then if \<not> is_valid_date year month day then Inl (seterror (lineno sp) ''invalid date'')
           else Inr (literal_token sp TOK_DATE 10 (ts_val year month day (-1) (-1) (-1) (-1) (-1)))
      else case read_time (drop 1 p) of
        None \<Rightarrow> Inl (seterror (lineno sp) ''invalid timestamp'')
      | Some (n, hour, minute, sec, usec) \<Rightarrow>
          (case read_tzone (drop (1 + n) p) of
             None \<Rightarrow>
               if \<not> is_valid_date year month day then Inl (seterror (lineno sp) ''invalid date'')
               else if \<not> is_valid_time hour minute sec usec then Inl (seterror (lineno sp) ''invalid time'')
               else Inr (literal_token sp TOK_DATETIME (11 + n)
                      (ts_val year month day hour minute sec usec (-1)))
           | Some (k, neg, tzhour, tzminute) \<Rightarrow>
               if \<not> (0 \<le> tzminute \<and> tzminute < 60)
               then Inl (seterror (lineno sp) ''invalid timezone'')
               else let tz = (tzhour * 60 + tzminute) * (if neg then -1 else 1) in
                    if \<not> is_valid_date year month day then Inl (seterror (lineno sp) ''invalid date'')
                    else if \<not> is_valid_time hour minute sec usec then Inl (seterror (lineno sp) ''invalid time'')
                    else if \<not> is_valid_timezone tz then Inl (seterror (lineno sp) ''invalid timezone'')
                    else Inr (literal_token sp TOK_DATETIMETZ (11 + n + k)
                           (ts_val year month day hour minute sec usec tz))))"

definition scan_timestamp :: "scanner \<Rightarrow> string + token \<times> scanner" where
  "scan_timestamp sp =
     (let buffer = scan_copystr sp 80 in
      if isdigit (at buffer 0) \<and> isdigit (at buffer 1) \<and> at buffer 2 = CHR '':''
      then (case read_time buffer of
              None \<Rightarrow> Inl (seterror (lineno sp) ''invalid time'')
            | Some (n, hour, minute, sec, usec) \<Rightarrow>
                if \<not> is_valid_time hour minute sec usec then Inl (seterror (lineno sp) ''invalid time'')
                else Inr (literal_token sp TOK_TIME n (ts_val (-1) (-1) (-1) hour minute sec usec (-1))))
      else case read_date buffer of
        None \<Rightarrow> Inl (seterror (lineno sp) ''invalid date'')
      | Some (year, month, day) \<Rightarrow> scan_after_date sp (drop 10 buffer) year month day)"

section \<open>Numbers and booleans\<close>

text \<open>How much of the buffer may belong to a float.\<close>

definition float_len :: "string \<Rightarrow> nat" where
  "float_len buffer =
     (let sign = (if at buffer 0 = CHR ''+'' \<or> at buffer 0 = CHR ''-'' then 1 else 0);
          p = drop sign buffer
      in sign + (if take 3 p = ''nan'' \<or> take 3 p = ''inf'' then 3 else strspn p ''_0123456789eE.+-''))"

definition scan_float :: "scanner \<Rightarrow> string + token \<times> scanner" where
  "scan_float sp =
     (let buffer = scan_copystr sp 50; len = float_len buffer in
      case process_numstr (take len buffer) 10 of
        Inl reason \<Rightarrow> Inl (seterror (lineno sp) reason)
      | Inr b \<Rightarrow>
          (let r = strtod b in
           if sd_erange r \<or> sd_rest r \<noteq> [] \<or> sd_none r
           then Inl (seterror (lineno sp) ''error parsing float'')
           else Inr (literal_token sp TOK_FLOAT len (ValFp64 (sd_bits r)))))"

text \<open>The base and digits of \<open>0x\<close>, \<open>0o\<close> and \<open>0b\<close>.\<close>

definition prefix_base :: "string \<Rightarrow> (int \<times> string) option" where
  "prefix_base p =
     (if at p 0 \<noteq> CHR ''0'' then None
      else if at p 1 = CHR ''x'' then Some (16, ''_0123456789abcdefABCDEF'')
      else if at p 1 = CHR ''o'' then Some (8, ''_01234567'')
      else if at p 1 = CHR ''b'' then Some (2, ''_01'') else None)"

definition scan_based :: "scanner \<Rightarrow> string \<Rightarrow> int \<Rightarrow> string \<Rightarrow> string + token \<times> scanner" where
  "scan_based sp buffer base accept =
     (let n = strspn (drop 2 buffer) accept in
      case process_numstr (take n (drop 2 buffer)) base of
        Inl reason \<Rightarrow> Inl (seterror (lineno sp) reason)
      | Inr b \<Rightarrow>
          (let r = strtoll b base in
           if st_erange r \<or> st_rest r \<noteq> [] \<or> st_none r
           then Inl (seterror (lineno sp) ''error parsing integer'')
           else Inr (literal_token sp TOK_INTEGER (2 + n) (ValInt64 (st_int r)))))"

definition scan_number :: "scanner \<Rightarrow> string + token \<times> scanner" where
  "scan_number sp =
     (let buffer = scan_copystr sp 50 in
      case prefix_base buffer of
        Some (base, accept) \<Rightarrow> scan_based sp buffer base accept
      | None \<Rightarrow>
          (let p = (if at buffer 0 = CHR ''+'' \<or> at buffer 0 = CHR ''-'' then drop 1 buffer else buffer) in
           if at p 0 = CHR ''i'' \<or> at p 0 = CHR ''n'' then scan_float sp
           else let len = strspn buffer ''0123456789_+-.eE'' in
                case process_numstr (take len buffer) 10 of
                  Inl reason \<Rightarrow> Inl (seterror (lineno sp) reason)
                | Inr b \<Rightarrow>
                    (let r = strtoll b 10 in
                     if st_erange r \<or> st_rest r \<noteq> [] \<or> st_none r
                     then if st_rest r \<noteq> [] \<and> hd (st_rest r) \<in> set ''.eE'' then scan_float sp
                          else Inl (seterror (lineno sp) ''error parsing integer'')
                     else Inr (literal_token sp TOK_INTEGER len (ValInt64 (st_int r))))))"

definition scan_bool :: "scanner \<Rightarrow> string + token \<times> scanner" where
  "scan_bool sp =
     (let buffer = scan_copystr sp 10;
          stop = (\<lambda>p. at p 0 \<noteq> NUL \<and> at p 0 \<notin> set (''# '' @ [CR, LF, TAB] @ '',}]''))
      in if take 4 buffer = ''true''
         then if stop (drop 4 buffer) then Inl (seterror (lineno sp) ''invalid boolean value'')
              else Inr (literal_token sp TOK_BOOL 4 (ValB1 True))
         else if take 5 buffer = ''false''
         then if stop (drop 5 buffer) then Inl (seterror (lineno sp) ''invalid boolean value'')
              else Inr (literal_token sp TOK_BOOL 5 (ValB1 False))
         else Inl (seterror (lineno sp) ''invalid boolean value''))"

definition test_time :: "string \<Rightarrow> bool" where
  "test_time p \<longleftrightarrow> 2 < length p \<and> isdigit (at p 0) \<and> isdigit (at p 1) \<and> at p 2 = CHR '':''"

definition test_date :: "string \<Rightarrow> bool" where
  "test_date p \<longleftrightarrow>
     4 < length p \<and> isdigit (at p 0) \<and> isdigit (at p 1) \<and> isdigit (at p 2) \<and> isdigit (at p 3) \<and> at p 4 = CHR ''-''"

definition test_bool :: "string \<Rightarrow> bool" where
  "test_bool p \<longleftrightarrow> 0 < length p \<and> (at p 0 = CHR ''t'' \<or> at p 0 = CHR ''f'')"

definition test_number :: "string \<Rightarrow> bool" where
  "test_number p \<longleftrightarrow>
     0 < length p \<and> at p 0 \<in> set ''0123456789+-._'' \<or>
     2 < length p \<and> (take 3 p = ''nan'' \<or> take 3 p = ''inf'')"

definition scan_nonstring_literal :: "scanner \<Rightarrow> string + token \<times> scanner" where
  "scan_nonstring_literal sp =
     (if test_time (cur sp) then scan_time sp
      else if test_date (cur sp) then scan_timestamp sp
      else if test_bool (cur sp) then scan_bool sp
      else if test_number (cur sp) then scan_number sp
      else Inl (seterror (lineno sp) ''invalid value''))"

definition is_bare :: "char \<Rightarrow> bool" where
  "is_bare c \<longleftrightarrow> isalnum c \<or> c = CHR ''_'' \<or> c = CHR ''-''"

text \<open>Never fails; the text may be empty.\<close>

definition scan_literal :: "scanner \<Rightarrow> token \<times> scanner" where
  "scan_literal sp = literal_token sp TOK_LIT (length (takeWhile is_bare (cur sp))) NoVal"

section \<open>The next token\<close>

text \<open>\<open>scan_mark\<close> and \<open>scan_restore\<close>: position and line, not the nesting counters.\<close>

type_synonym scanner_state = "string \<times> int"

definition scan_mark :: "scanner \<Rightarrow> scanner_state" where
  "scan_mark sp = (cur sp, lineno sp)"

definition scan_restore :: "scanner \<Rightarrow> scanner_state \<Rightarrow> scanner" where
  "scan_restore sp mark = sp\<lparr>cur := fst mark, lineno := snd mark\<rparr>"

fun simple_token :: "char \<Rightarrow> toktyp option" where
  "simple_token ch =
     (if ch = LF then Some TOK_ENDL else if ch = CHR ''.'' then Some TOK_DOT
      else if ch = CHR ''='' then Some TOK_EQUAL else if ch = CHR '','' then Some TOK_COMMA
      else if ch = CHR ''{'' then Some TOK_LBRACE else if ch = CHR ''}'' then Some TOK_RBRACE
      else None)"

definition bad_in_comment :: "char \<Rightarrow> bool" where
  "bad_in_comment ch \<longleftrightarrow> code ch \<le> 8 \<or> 10 \<le> code ch \<and> code ch \<le> 31 \<or> code ch = 127"

function comment_loop :: "scanner \<Rightarrow> string + scanner" where
  "comment_loop sp =
     (if scan_match sp LF then Inr sp
      else case scan_get sp of
        (None, sp1) \<Rightarrow> Inr sp1
      | (Some ch, sp1) \<Rightarrow>
          if bad_in_comment ch then Inl (seterror (lineno sp1) ''bad control char in comment'')
          else comment_loop sp1)"
  by pat_completeness auto
termination
  by (relation "measure (\<lambda>sp. length (cur sp))") (auto dest!: scan_get_consumes)

declare comment_loop.simps [simp del]

lemma comment_loop_le: "comment_loop sp = Inr sp' \<Longrightarrow> length (cur sp') \<le> length (cur sp)"
proof (induction sp rule: comment_loop.induct)
  case (1 sp)
  then show ?case
    by (subst (asm) comment_loop.simps)
      (auto split: prod.splits option.splits if_splits dest!: scan_get_consumes [OF sym])
qed

text \<open>A bracket, or two of them where a key is expected.\<close>

definition bracket :: "scanner \<Rightarrow> scanner \<Rightarrow> bool \<Rightarrow> char \<Rightarrow> toktyp \<Rightarrow> toktyp \<Rightarrow> token \<times> scanner" where
  "bracket sp sp1 keymode ch single double =
     (if keymode \<and> scan_match sp1 ch
      then ((mktoken sp double)\<lparr>tok_str := [ch, ch]\<rparr>, snd (scan_get sp1))
      else ((mktoken sp single)\<lparr>tok_str := [ch]\<rparr>, sp1))"

function scan_next :: "bool \<Rightarrow> scanner \<Rightarrow> string + token \<times> scanner" where
  "scan_next keymode sp =
     (case scan_get sp of
        (None, sp1) \<Rightarrow> Inr (mktoken sp TOK_FIN, sp1)
      | (Some ch, sp1) \<Rightarrow>
          (case simple_token ch of
             Some typ \<Rightarrow> Inr ((mktoken sp typ)\<lparr>tok_str := take 1 (cur sp)\<rparr>, sp1)
           | None \<Rightarrow>
               if ch = CHR '' '' \<or> ch = TAB then scan_next keymode sp1
               else if ch = CHR ''#''
               then (case comment_loop sp1 of Inl e \<Rightarrow> Inl e | Inr sp2 \<Rightarrow> scan_next keymode sp2)
               else if ch = CHR ''['' then Inr (bracket sp sp1 keymode ch TOK_LBRACK TOK_LLBRACK)
               else if ch = CHR '']'' then Inr (bracket sp sp1 keymode ch TOK_RBRACK TOK_RRBRACK)
               else if ch = DQ then scan_string sp
               else if ch = SQ then scan_litstring sp
               else if keymode then Inr (scan_literal sp) else scan_nonstring_literal sp))"
  by pat_completeness auto
termination
  by (relation "measure (\<lambda>(keymode, sp). length (cur sp))")
    (auto dest!: scan_get_consumes comment_loop_le)

declare scan_next.simps [simp del]

definition check_overflow :: "scanner \<Rightarrow> token \<Rightarrow> string + scanner" where
  "check_overflow sp tok =
     (case toktyp tok of
        TOK_LBRACK \<Rightarrow>
          if bracket_level sp + 1 > BRACKET_LEVEL_MAX then Inl (seterror (lineno sp) ''stack overflow'')
          else Inr (sp\<lparr>bracket_level := bracket_level sp + 1\<rparr>)
      | TOK_RBRACK \<Rightarrow> Inr (sp\<lparr>bracket_level := bracket_level sp - 1\<rparr>)
      | TOK_LBRACE \<Rightarrow>
          if brace_level sp + 1 > BRACE_LEVEL_MAX then Inl (seterror (lineno sp) ''stack overflow'')
          else Inr (sp\<lparr>brace_level := brace_level sp + 1\<rparr>)
      | TOK_RBRACE \<Rightarrow> Inr (sp\<lparr>brace_level := brace_level sp - 1\<rparr>)
      | _ \<Rightarrow> Inr sp)"

definition scan_mode :: "bool \<Rightarrow> scanner \<Rightarrow> string + token \<times> scanner" where
  "scan_mode keymode sp =
     (case scan_next keymode sp of
        Inl e \<Rightarrow> Inl e
      | Inr (tok, sp1) \<Rightarrow>
          (case check_overflow sp1 tok of Inl e \<Rightarrow> Inl e | Inr sp2 \<Rightarrow> Inr (tok, sp2)))"

definition scan_key :: "scanner \<Rightarrow> string + token \<times> scanner" where
  "scan_key sp = scan_mode True sp"

definition scan_value :: "scanner \<Rightarrow> string + token \<times> scanner" where
  "scan_value sp = scan_mode False sp"

end
