(* ===== verification/Toml_Utf8.thy ===== *)
theory Toml_Utf8
  imports Toml_Datum
begin

text \<open>
  UTF-8 encoding and decoding of one character (\<open>ucs_to_utf8\<close> and \<open>utf8_to_ucs\<close> of
  \<open>src/src/lib/tomlc17.c\<close>), and the check of a whole document.  The decoder gets what is
  left of the document and returns the code point with the number of bytes.
\<close>

definition byte_of :: "32 word \<Rightarrow> char" where
  "byte_of w = char_of (unat (w AND 0xFF))"

definition of_byte :: "char \<Rightarrow> 32 word" where
  "of_byte c = of_nat (of_char c)"

definition ucs_to_utf8 :: "32 word \<Rightarrow> string option" where
  "ucs_to_utf8 ucs =
     (if ucs \<le> 0x7F then Some [byte_of ucs]
      else if ucs \<le> 0x7FF
      then Some [byte_of (0xC0 OR drop_bit 6 ucs), byte_of (0x80 OR ucs AND 0x3F)]
      else if ucs \<le> 0xFFFF
      then Some [byte_of (0xE0 OR drop_bit 12 ucs), byte_of (0x80 OR drop_bit 6 ucs AND 0x3F),
                 byte_of (0x80 OR ucs AND 0x3F)]
      else if ucs \<le> 0x1FFFFF
      then Some [byte_of (0xF0 OR drop_bit 18 ucs), byte_of (0x80 OR drop_bit 12 ucs AND 0x3F),
                 byte_of (0x80 OR drop_bit 6 ucs AND 0x3F), byte_of (0x80 OR ucs AND 0x3F)]
      else None)"

text \<open>The continuation bytes.\<close>

fun cont_loop :: "nat \<Rightarrow> string \<Rightarrow> 32 word \<Rightarrow> 32 word option" where
  "cont_loop 0 buf v = Some v"
| "cont_loop (Suc n) buf v =
     (case buf of
        [] \<Rightarrow> None
      | c # buf' \<Rightarrow>
          (let i = of_byte c in
           if drop_bit 6 i \<noteq> 0x2 then None
           else cont_loop n buf' (push_bit 6 v OR i AND 0x3F)))"

definition utf8_to_ucs :: "string \<Rightarrow> (32 word \<times> nat) option" where
  "utf8_to_ucs orig =
     (case orig of
        [] \<Rightarrow> None
      | c # buf \<Rightarrow>
          (let i = of_byte c;
               multi = (\<lambda>n mask. if length orig < Suc n then None
                         else map_option (\<lambda>v. (v, Suc n)) (cont_loop n buf (i AND mask)))
           in if drop_bit 7 i = 0 then Some (i, 1)
              else if drop_bit 5 i = 0x6 then multi 1 0x1F
              else if drop_bit 4 i = 0xE then multi 2 0x0F
              else if drop_bit 3 i = 0x1E then multi 3 0x07
              else None))"

lemma utf8_to_ucs_consumes: "utf8_to_ucs s = Some (ch, n) \<Longrightarrow> 0 < n \<and> n \<le> length s"
  by (auto simp: utf8_to_ucs_def Let_def split: list.splits if_splits)

section \<open>Decoding undoes encoding\<close>

text \<open>Masks as numerals.\<close>

lemma and_masks:
  "w AND 0x07 = take_bit 3 w" "w AND 0x0F = take_bit 4 w" "w AND 0x1F = take_bit 5 w"
  "w AND 0x3F = take_bit 6 w" "w AND 0xFF = take_bit 8 w" for w :: "32 word"
  by (simp_all add: take_bit_eq_mask mask_eq_exp_minus_1)

lemma of_byte_of: "of_byte (byte_of w) = take_bit 8 w"
proof -
  have "take_bit 8 (unat w) < 2 ^ 8" by (rule take_bit_nat_less_exp)
  then have "of_char (char_of (unat (take_bit 8 w)) :: char) = unat (take_bit 8 w)"
    by (simp add: unsigned_take_bit_eq)
  then show ?thesis by (simp add: of_byte_def byte_of_def and_masks)
qed

text \<open>A continuation byte gives its six bits back.\<close>

lemma cont_byte:
  "of_byte (byte_of (0x80 OR x AND 0x3F)) AND 0x3F = take_bit 6 x"
  "drop_bit 6 (of_byte (byte_of (0x80 OR x AND 0x3F))) = 0x2"
  by (simp_all add: of_byte_of and_masks take_bit_or drop_bit_or take_bit_take_bit drop_bit_take_bit)

lemma cont_loop_cons:
  "cont_loop (Suc n) (byte_of (0x80 OR x AND 0x3F) # buf) v = cont_loop n buf (push_bit 6 v OR take_bit 6 x)"
  using cont_byte by (simp add: Let_def)

text \<open>A code point of a few bits, the leading bytes, and the bits joined again.\<close>

lemma small_take_bit:
  "u \<le> 0x7F \<Longrightarrow> take_bit 7 u = u" "u \<le> 0x7FF \<Longrightarrow> take_bit 11 u = u"
  "u \<le> 0xFFFF \<Longrightarrow> take_bit 16 u = u" "u \<le> 0x1FFFFF \<Longrightarrow> take_bit 21 u = u" for u :: "32 word"
  by (auto simp: word_unat_eq_iff word_le_nat_alt unsigned_take_bit_eq intro!: take_bit_nat_eq_self)

lemma lead_byte:
  "take_bit 5 (of_byte (byte_of (0xC0 OR take_bit 5 x))) = take_bit 5 x"
  "drop_bit 5 (of_byte (byte_of (0xC0 OR take_bit 5 x))) = 0x6"
  "drop_bit 7 (of_byte (byte_of (0xC0 OR take_bit 5 x))) \<noteq> 0"
  "take_bit 4 (of_byte (byte_of (0xE0 OR take_bit 4 x))) = take_bit 4 x"
  "drop_bit 4 (of_byte (byte_of (0xE0 OR take_bit 4 x))) = 0xE"
  "drop_bit 5 (of_byte (byte_of (0xE0 OR take_bit 4 x))) = 0x7"
  "drop_bit 7 (of_byte (byte_of (0xE0 OR take_bit 4 x))) \<noteq> 0"
  "take_bit 3 (of_byte (byte_of (0xF0 OR take_bit 3 x))) = take_bit 3 x"
  "drop_bit 3 (of_byte (byte_of (0xF0 OR take_bit 3 x))) = 0x1E"
  "drop_bit 4 (of_byte (byte_of (0xF0 OR take_bit 3 x))) = 0xF"
  "drop_bit 5 (of_byte (byte_of (0xF0 OR take_bit 3 x))) = 0x7"
  "drop_bit 7 (of_byte (byte_of (0xF0 OR take_bit 3 x))) \<noteq> 0"
  by (simp_all add: of_byte_of take_bit_or drop_bit_or take_bit_take_bit drop_bit_take_bit)

lemma join_bits: "push_bit n (take_bit m (drop_bit n u)) OR take_bit n u = take_bit (m + n) u" for u :: "32 word"
  by (rule bit_eqI) (auto simp: bit_simps)

lemma top_bits:
  "take_bit (m + n) u = u \<Longrightarrow> take_bit m (drop_bit n u) = drop_bit n u" for u :: "32 word"
  by (metis take_bit_drop_bit)

lemma join_bits_top:
  "take_bit (m + n) u = u \<Longrightarrow> push_bit n (take_bit m (drop_bit n u)) OR take_bit n u = u" for u :: "32 word"
  by (simp add: join_bits)

lemma join_two: "push_bit 6 (take_bit m (drop_bit (6 + n) u)) OR take_bit 6 (drop_bit n u) = take_bit (m + 6) (drop_bit n u)"
  for u :: "32 word"
  using join_bits [of 6 m "drop_bit n u"] by (simp add: add.commute)

lemma utf8_roundtrip:
  assumes "ucs_to_utf8 u = Some bs"
  shows "utf8_to_ucs (bs @ rest) = Some (u, length bs)"
proof -
  consider (one) "u \<le> 0x7F" | (two) "\<not> u \<le> 0x7F" "u \<le> 0x7FF" | (three) "\<not> u \<le> 0x7FF" "u \<le> 0xFFFF" "\<not> u \<le> 0x7F"
    | (more) "\<not> u \<le> 0xFFFF" "u \<le> 0x1FFFFF" "\<not> u \<le> 0x7FF" "\<not> u \<le> 0x7F"
    using assms by (auto simp: ucs_to_utf8_def split: if_splits)
  then show ?thesis
  proof cases
    case one
    then have t: "take_bit 7 u = u" by (rule small_take_bit)
    then have "take_bit 8 u = u" using take_bit_take_bit [of 8 7 u] by simp
    moreover have "drop_bit 7 u = 0" using t drop_bit_take_bit [of 7 7 u] by simp
    ultimately show ?thesis
      using assms one by (auto simp: ucs_to_utf8_def utf8_to_ucs_def of_byte_of Let_def)
  next
    case two
    then have t: "take_bit (5 + 6) u = u" using small_take_bit(2) by simp
    have "bs = [byte_of (0xC0 OR take_bit 5 (drop_bit 6 u)), byte_of (0x80 OR u AND 0x3F)]"
      using assms two by (auto simp: ucs_to_utf8_def top_bits [OF t])
    then show ?thesis
      using join_bits_top [OF t] lead_byte(1-3) cont_loop_cons [of 0]
      by (simp add: utf8_to_ucs_def Let_def and_masks numeral_2_eq_2 numeral_3_eq_3 del: cont_loop.simps(2))
  next
    case three
    then have t: "take_bit (4 + 12) u = u" using small_take_bit(3) by simp
    have "bs = [byte_of (0xE0 OR take_bit 4 (drop_bit 12 u)), byte_of (0x80 OR drop_bit 6 u AND 0x3F),
        byte_of (0x80 OR u AND 0x3F)]"
      using assms three by (auto simp: ucs_to_utf8_def top_bits [OF t])
    then show ?thesis
      using join_two [of 4 6 u] join_bits [of 6 10 u] t lead_byte(4-7) cont_loop_cons [of 0] cont_loop_cons [of 1]
      by (simp add: utf8_to_ucs_def Let_def and_masks numeral_2_eq_2 numeral_3_eq_3 del: cont_loop.simps(2))
  next
    case more
    then have t: "take_bit (3 + 18) u = u" using small_take_bit(4) by simp
    have "bs = [byte_of (0xF0 OR take_bit 3 (drop_bit 18 u)), byte_of (0x80 OR drop_bit 12 u AND 0x3F),
        byte_of (0x80 OR drop_bit 6 u AND 0x3F), byte_of (0x80 OR u AND 0x3F)]"
      using assms more by (auto simp: ucs_to_utf8_def top_bits [OF t])
    then show ?thesis
      using join_two [of 3 12 u] join_two [of 9 6 u] join_bits [of 6 15 u] t lead_byte(8-12)
        cont_loop_cons [of 0] cont_loop_cons [of 1] cont_loop_cons [of 2]
      by (simp add: utf8_to_ucs_def Let_def and_masks numeral_2_eq_2 numeral_3_eq_3 del: cont_loop.simps(2))
  qed
qed

end
