(* ===== verification/Toml_Merge.thy ===== *)
theory Toml_Merge
  imports Toml_Datum
begin

text \<open>
  Deep copy, override and comparison of TOML trees (\<open>datum_copy\<close>, \<open>datum_merge\<close>,
  \<open>datum_equiv\<close>, \<open>toml_merge\<close> and \<open>toml_equiv\<close> of \<open>src/src/lib/tomlc17.c\<close>).  A
  function that fills its destination through a pointer returns the new destination, or
  the reason of its failure.  A parse result is the top table or an error message.
\<close>

section \<open>Copy\<close>

fun arr_set :: "datum \<Rightarrow> nat \<Rightarrow> datum \<Rightarrow> datum" where
  "arr_set (DArray f xs) i v = DArray f (xs[i := v])"
| "arr_set d i v = d"

fun datum_copy :: "datum \<Rightarrow> string + datum"
and copy_table :: "(string \<times> datum) list \<Rightarrow> datum \<Rightarrow> string + datum"
and copy_array :: "datum list \<Rightarrow> datum \<Rightarrow> string + datum" where
  "datum_copy (DString f s) = Inr (DString 0 s)"
| "datum_copy (DTable f kvs) = copy_table kvs (mkdatum TOML_TABLE)"
| "datum_copy (DArray f xs) = copy_array xs (mkdatum TOML_ARRAY)"
| "datum_copy (DUnknown f) = Inr (DUnknown f)"
| "datum_copy (DInt64 f i) = Inr (DInt64 f i)"
| "datum_copy (DFp64 f x) = Inr (DFp64 f x)"
| "datum_copy (DBoolean f b) = Inr (DBoolean f b)"
| "datum_copy (DDate f t) = Inr (DDate f t)"
| "datum_copy (DTime f t) = Inr (DTime f t)"
| "datum_copy (DDatetime f t) = Inr (DDatetime f t)"
| "datum_copy (DDatetimetz f t) = Inr (DDatetimetz f t)"
| "copy_table [] dst = Inr dst"
| "copy_table ((k, v) # kvs) dst =
     (case tab_emplace dst k of
        Inl reason \<Rightarrow> Inl reason
      | Inr (dst', i) \<Rightarrow>
          (case datum_copy v of
             Inl reason \<Rightarrow> Inl reason
           | Inr c \<Rightarrow> copy_table kvs (tab_set dst' i c)))"
| "copy_array [] dst = Inr dst"
| "copy_array (x # xs) dst =
     (case arr_emplace dst of
        Inl reason \<Rightarrow> Inl reason
      | Inr (dst', i) \<Rightarrow>
          (case datum_copy x of
             Inl reason \<Rightarrow> Inl reason
           | Inr c \<Rightarrow> copy_array xs (arr_set dst' i c)))"

section \<open>Merge\<close>

fun is_array_of_tables :: "datum \<Rightarrow> bool" where
  "is_array_of_tables (DArray f xs) = list_all (\<lambda>x. dtype x = TOML_TABLE) xs"
| "is_array_of_tables d = False"

fun datum_merge :: "datum \<Rightarrow> datum \<Rightarrow> string + datum"
and merge_table :: "datum \<Rightarrow> (string \<times> datum) list \<Rightarrow> string + datum" where
  "datum_merge dst (DTable f kvs) =
     (if dtype dst \<noteq> TOML_TABLE then datum_copy (DTable f kvs) else merge_table dst kvs)"
| "datum_merge dst (DArray f xs) =
     (if dtype dst \<noteq> TOML_ARRAY then datum_copy (DArray f xs)
      else if is_array_of_tables (DArray f xs) then copy_array xs dst
      else datum_copy (DArray f xs))"
| "datum_merge dst src = datum_copy src"
| "merge_table dst [] = Inr dst"
| "merge_table dst ((k, v) # kvs) =
     (case tab_emplace dst k of
        Inl reason \<Rightarrow> Inl reason
      | Inr (dst', i) \<Rightarrow>
          (case (if dtype (tab_value dst' i) \<noteq> TOML_UNKNOWN
                 then datum_merge (tab_value dst' i) v else datum_copy v) of
             Inl reason \<Rightarrow> Inl reason
           | Inr c \<Rightarrow> merge_table (tab_set dst' i c) kvs))"

text \<open>\<open>toml_merge\<close>; creating the pool is taken to succeed.\<close>

definition toml_merge :: "string + datum \<Rightarrow> string + datum \<Rightarrow> string + datum" where
  "toml_merge r1 r2 =
     (case r1 of
        Inl e \<Rightarrow> Inl ''param error: r1 not ok''
      | Inr t1 \<Rightarrow>
          (case r2 of
             Inl e \<Rightarrow> Inl ''param error: r2 not ok''
           | Inr t2 \<Rightarrow>
               (case datum_copy t1 of
                  Inl reason \<Rightarrow> Inl reason
                | Inr c \<Rightarrow> datum_merge c t2)))"

section \<open>Comparison\<close>

text \<open>IEEE comparison of two doubles by their bits: NaN differs from all, zeros agree.\<close>

definition fp_nan :: "64 word \<Rightarrow> bool" where
  "fp_nan x \<longleftrightarrow> x AND 0x7FF0000000000000 = 0x7FF0000000000000 \<and> x AND 0x000FFFFFFFFFFFFF \<noteq> 0"

definition fp_zero :: "64 word \<Rightarrow> bool" where
  "fp_zero x \<longleftrightarrow> x AND 0x7FFFFFFFFFFFFFFF = 0"

definition fp_eq :: "64 word \<Rightarrow> 64 word \<Rightarrow> bool" where
  "fp_eq x y \<longleftrightarrow> \<not> fp_nan x \<and> \<not> fp_nan y \<and> (x = y \<or> fp_zero x \<and> fp_zero y)"

definition same_date :: "ts \<Rightarrow> ts \<Rightarrow> bool" where
  "same_date a b \<longleftrightarrow> ts_year a = ts_year b \<and> ts_month a = ts_month b \<and> ts_day a = ts_day b"

definition same_time :: "ts \<Rightarrow> ts \<Rightarrow> bool" where
  "same_time a b \<longleftrightarrow>
     ts_hour a = ts_hour b \<and> ts_minute a = ts_minute b \<and> ts_second a = ts_second b \<and> ts_usec a = ts_usec b"

fun datum_equiv :: "datum \<Rightarrow> datum \<Rightarrow> bool"
and equiv_array :: "datum list \<Rightarrow> datum list \<Rightarrow> bool"
and equiv_table :: "(string \<times> datum) list \<Rightarrow> (string \<times> datum) list \<Rightarrow> bool" where
  "datum_equiv (DString f s) b = (case b of DString g t \<Rightarrow> s = t | _ \<Rightarrow> False)"
| "datum_equiv (DInt64 f i) b = (case b of DInt64 g j \<Rightarrow> i = j | _ \<Rightarrow> False)"
| "datum_equiv (DFp64 f x) b = (case b of DFp64 g y \<Rightarrow> fp_eq x y \<or> fp_nan x \<and> fp_nan y | _ \<Rightarrow> False)"
| "datum_equiv (DBoolean f x) b = (case b of DBoolean g y \<Rightarrow> x = y | _ \<Rightarrow> False)"
| "datum_equiv (DDate f x) b = (case b of DDate g y \<Rightarrow> same_date x y | _ \<Rightarrow> False)"
| "datum_equiv (DTime f x) b = (case b of DTime g y \<Rightarrow> same_time x y | _ \<Rightarrow> False)"
| "datum_equiv (DDatetime f x) b =
     (case b of DDatetime g y \<Rightarrow> same_date x y \<and> same_time x y | _ \<Rightarrow> False)"
| "datum_equiv (DDatetimetz f x) b =
     (case b of DDatetimetz g y \<Rightarrow> same_date x y \<and> same_time x y \<and> ts_tz x = ts_tz y | _ \<Rightarrow> False)"
| "datum_equiv (DArray f xs) b =
     (case b of DArray g ys \<Rightarrow> length xs = length ys \<and> equiv_array xs ys | _ \<Rightarrow> False)"
| "datum_equiv (DTable f kvs) b =
     (case b of DTable g lws \<Rightarrow> length kvs = length lws \<and> equiv_table kvs lws | _ \<Rightarrow> False)"
| "datum_equiv (DUnknown f) b = False"
| "equiv_array [] ys = True"
| "equiv_array (x # xs) ys = (case ys of [] \<Rightarrow> True | y # ys' \<Rightarrow> datum_equiv x y \<and> equiv_array xs ys')"
| "equiv_table [] lws = True"
| "equiv_table ((k, v) # kvs) lws =
     (case lws of [] \<Rightarrow> True
      | (l, w) # lws' \<Rightarrow> k = l \<and> datum_equiv v w \<and> equiv_table kvs lws')"

definition toml_equiv :: "string + datum \<Rightarrow> string + datum \<Rightarrow> bool" where
  "toml_equiv r1 r2 = (case (r1, r2) of (Inr a, Inr b) \<Rightarrow> datum_equiv a b | _ \<Rightarrow> False)"

section \<open>What a copy is\<close>

text \<open>The copy of a tree: equal but for the flags of strings, arrays and tables.\<close>

fun copied :: "datum \<Rightarrow> datum" where
  "copied (DString f s) = DString 0 s"
| "copied (DArray f xs) = DArray 0 (map copied xs)"
| "copied (DTable f kvs) = DTable 0 (map (\<lambda>(k, v). (k, copied v)) kvs)"
| "copied d = d"

lemma map_of_append_new: "map_of ds k = None \<Longrightarrow> map_of (ds @ [(k, c)]) = (map_of ds)(k \<mapsto> c)"
  by (rule ext) (auto simp: map_add_def split: option.split)

lemma map_of_update_slot:
  "find_slot (\<lambda>kv. fst kv = k) ds = Some i \<Longrightarrow> map_of (ds[i := (k, c)]) = (map_of ds)(k \<mapsto> c)"
proof (induction ds arbitrary: i)
  case (Cons a ds)
  show ?case
  proof (cases "fst a = k")
    case True
    with Cons.prems show ?thesis by (cases a) auto
  next
    case False
    with Cons.prems obtain j where "find_slot (\<lambda>kv. fst kv = k) ds = Some j" "i = Suc j" by auto
    with Cons.IH False show ?thesis by (cases a) (auto simp: fun_eq_iff)
  qed
qed simp

text \<open>Placing a value under a key.\<close>

lemma emplace_set:
  assumes "tab_emplace (DTable f ds) k = Inr (t', i)"
  shows "\<exists>es. tab_set t' i c = DTable f es \<and> map_of es = (map_of ds)(k \<mapsto> c)"
    "tab_value t' i = (case map_of ds k of None \<Rightarrow> DATUM_ZERO | Some d \<Rightarrow> d)"
proof -
  have "(\<exists>es. tab_set t' i c = DTable f es \<and> map_of es = (map_of ds)(k \<mapsto> c)) \<and>
    tab_value t' i = (case map_of ds k of None \<Rightarrow> DATUM_ZERO | Some d \<Rightarrow> d)"
  proof (cases "find_slot (\<lambda>kv. fst kv = k) ds")
    case None
    then have "map_of ds k = None" by (simp add: find_slot_map_of)
    with assms None show ?thesis
      by (auto simp: map_of_append_new nth_append simp del: map_of_append split: if_splits)
  next
    case (Some j)
    with find_slot_SomeD [OF Some] assms show ?thesis
      by (auto simp: map_of_update_slot find_slot_map_of)
  qed
  then show "\<exists>es. tab_set t' i c = DTable f es \<and> map_of es = (map_of ds)(k \<mapsto> c)"
    "tab_value t' i = (case map_of ds k of None \<Rightarrow> DATUM_ZERO | Some d \<Rightarrow> d)" by auto
qed

lemma emplace_new:
  "k \<notin> fst ` set ds \<Longrightarrow> length ds < TABLE_MAX \<Longrightarrow>
     tab_emplace (DTable f ds) k = Inr (DTable f (ds @ [(k, DATUM_ZERO)]), length ds)"
  using find_slot_map_of [of ds k] map_of_eq_None_iff [of ds k] by simp

lemma copy_total:
  "wf_datum d \<Longrightarrow> datum_copy d = Inr (copied d)"
  "distinct (map fst (ds @ kvs)) \<Longrightarrow> length ds + length kvs \<le> TABLE_MAX \<Longrightarrow> \<forall>kv \<in> set kvs. wf_datum (snd kv) \<Longrightarrow>
     copy_table kvs (DTable f ds) = Inr (DTable f (ds @ map (\<lambda>(k, v). (k, copied v)) kvs))"
  "length ys + length xs \<le> ARRAY_MAX \<Longrightarrow> \<forall>x \<in> set xs. wf_datum x \<Longrightarrow>
     copy_array xs (DArray f ys) = Inr (DArray f (ys @ map copied xs))"
proof (induction d and kvs "DTable f ds" and xs "DArray f ys" arbitrary: and ds f and ys f
    rule: datum_copy_copy_table_copy_array.induct)
  case (13 k v kvs)
  have new: "k \<notin> fst ` set ds" "length ds < TABLE_MAX" using 13 by auto
  note e = emplace_new [OF new, of f]
  have c: "datum_copy v = Inr (copied v)" by (rule 13(1) [OF e refl]) (use 13 in auto)
  have "copy_table kvs (DTable f (ds @ [(k, copied v)])) =
      Inr (DTable f ((ds @ [(k, copied v)]) @ map (\<lambda>(k, v). (k, copied v)) kvs))"
    by (rule 13(2) [OF e refl c]) (use 13 in \<open>auto simp: nth_append list_update_append\<close>)
  with e c show ?case by (simp add: nth_append list_update_append del: tab_emplace.simps)
next
  case (15 x xs)
  have e: "arr_emplace (DArray f ys) = Inr (DArray f (ys @ [DATUM_ZERO]), length ys)" using 15 by simp
  have c: "datum_copy x = Inr (copied x)" by (rule 15(1) [OF e refl]) (use 15 in auto)
  have "copy_array xs (DArray f (ys @ [copied x])) = Inr (DArray f ((ys @ [copied x]) @ map copied xs))"
    by (rule 15(2) [OF e refl c]) (use 15 in \<open>auto simp: list_update_append\<close>)
  with e c show ?case by (simp add: list_update_append del: arr_emplace.simps)
qed (auto)

section \<open>What a merge holds\<close>

lemma merge_table_lookup:
  assumes "merge_table (DTable f ds) kvs = Inr t" and "distinct (map fst kvs)"
    and "\<forall>k \<in> fst ` set kvs. \<forall>d. map_of ds k = Some d \<longrightarrow> good_value d"
  shows "\<exists>es. t = DTable f es \<and>
    (\<forall>k. (map_of kvs k = None \<longrightarrow> map_of es k = map_of ds k) \<and>
      (\<forall>v. map_of kvs k = Some v \<longrightarrow>
        (case map_of ds k of
           None \<Rightarrow> \<exists>c. datum_copy v = Inr c \<and> map_of es k = Some c
         | Some d \<Rightarrow> \<exists>c. datum_merge d v = Inr c \<and> map_of es k = Some c)))"
  using assms
proof (induction kvs arbitrary: ds)
  case (Cons kv kvs)
  obtain k0 v0 where kv: "kv = (k0, v0)" by (cases kv)
  obtain t' i where e: "tab_emplace (DTable f ds) k0 = Inr (t', i)"
    using Cons.prems(1) kv by (cases "tab_emplace (DTable f ds) k0") (auto simp del: tab_emplace.simps)
  note tv = emplace_set(2) [OF e]
  obtain c where c: "(if dtype (tab_value t' i) \<noteq> TOML_UNKNOWN then datum_merge (tab_value t' i) v0 else datum_copy v0) = Inr c"
    and m: "merge_table (tab_set t' i c) kvs = Inr t"
    using Cons.prems(1) e kv by (auto simp del: tab_emplace.simps split: sum.splits)
  obtain es where es: "tab_set t' i c = DTable f es" "map_of es = (map_of ds)(k0 \<mapsto> c)"
    using emplace_set(1) [OF e] by blast
  have k0: "k0 \<notin> fst ` set kvs" using Cons.prems(2) kv by simp
  have "\<exists>es'. t = DTable f es' \<and>
    (\<forall>k. (map_of kvs k = None \<longrightarrow> map_of es' k = map_of es k) \<and>
      (\<forall>v. map_of kvs k = Some v \<longrightarrow>
        (case map_of es k of
           None \<Rightarrow> \<exists>c. datum_copy v = Inr c \<and> map_of es' k = Some c
         | Some d \<Rightarrow> \<exists>c. datum_merge d v = Inr c \<and> map_of es' k = Some c)))"
    by (rule Cons.IH) (use m es k0 Cons.prems kv in auto)
  then obtain es' where es': "t = DTable f es'" "\<And>k. map_of kvs k = None \<Longrightarrow> map_of es' k = map_of es k"
    "\<And>k v. map_of kvs k = Some v \<Longrightarrow> (case map_of es k of
           None \<Rightarrow> \<exists>c. datum_copy v = Inr c \<and> map_of es' k = Some c
         | Some d \<Rightarrow> \<exists>c. datum_merge d v = Inr c \<and> map_of es' k = Some c)" by blast
  have n0: "map_of kvs k0 = None" using k0 by (simp add: map_of_eq_None_iff)
  have first: "case map_of ds k0 of None \<Rightarrow> \<exists>c. datum_copy v0 = Inr c \<and> map_of es' k0 = Some c
         | Some d \<Rightarrow> \<exists>c. datum_merge d v0 = Inr c \<and> map_of es' k0 = Some c"
    using c tv es(2) es'(2) [OF n0] Cons.prems(3) kv
    by (auto simp: good_value_def split: option.splits)
  have rest: "k \<noteq> k0 \<Longrightarrow> map_of es k = map_of ds k" for k using es(2) by simp
  have other: "case map_of ds k of None \<Rightarrow> \<exists>c. datum_copy v = Inr c \<and> map_of es' k = Some c
         | Some d \<Rightarrow> \<exists>c. datum_merge d v = Inr c \<and> map_of es' k = Some c"
    if "k \<noteq> k0" "map_of kvs k = Some v" for k v
    using es'(3) [OF that(2)] rest [OF that(1)] by simp
  have none: "map_of es' k = map_of ds k" if "map_of (kv # kvs) k = None" for k
    using that es'(2) [of k] rest [of k] kv by (auto split: if_splits)
  have some: "case map_of ds k of None \<Rightarrow> \<exists>c. datum_copy v = Inr c \<and> map_of es' k = Some c
         | Some d \<Rightarrow> \<exists>c. datum_merge d v = Inr c \<and> map_of es' k = Some c"
    if "map_of (kv # kvs) k = Some v" for k v
    using that first other [of k v] kv by (cases "k = k0") auto
  show ?case using es'(1) none some by blast
qed auto

lemma map_of_copied: "map_of (map (\<lambda>(k, v). (k, copied v)) ds) k = map_option copied (map_of ds k)"
  by (induction ds) auto

lemma dtype_copied [simp]: "dtype (copied d) = dtype d"
  by (cases d) auto

lemma merge_documents:
  assumes "toml_merge (Inr (DTable f ds)) (Inr (DTable g kvs)) = Inr t"
    and "wf_datum (DTable f ds)" and "distinct (map fst kvs)" and "\<forall>kv \<in> set ds. good_value (snd kv)"
  shows "\<exists>es. t = DTable 0 es \<and>
    (\<forall>k. (map_of kvs k = None \<longrightarrow> map_of es k = map_option copied (map_of ds k)) \<and>
      (\<forall>v. map_of kvs k = Some v \<longrightarrow>
        (case map_of ds k of
           None \<Rightarrow> \<exists>c. datum_copy v = Inr c \<and> map_of es k = Some c
         | Some d \<Rightarrow> \<exists>c. datum_merge (copied d) v = Inr c \<and> map_of es k = Some c)))"
proof -
  let ?ds = "map (\<lambda>(k, v). (k, copied v)) ds"
  have "merge_table (DTable 0 ?ds) kvs = Inr t"
    using assms(1) copy_total(1) [OF assms(2)] by (simp add: toml_merge_def)
  moreover have "\<forall>k \<in> fst ` set kvs. \<forall>d. map_of ?ds k = Some d \<longrightarrow> good_value d"
    using assms(4) by (auto simp: map_of_copied good_value_def dest!: map_of_SomeD)
  ultimately obtain es where "t = DTable 0 es"
    "\<forall>k. (map_of kvs k = None \<longrightarrow> map_of es k = map_of ?ds k) \<and>
      (\<forall>v. map_of kvs k = Some v \<longrightarrow>
        (case map_of ?ds k of
           None \<Rightarrow> \<exists>c. datum_copy v = Inr c \<and> map_of es k = Some c
         | Some d \<Rightarrow> \<exists>c. datum_merge d v = Inr c \<and> map_of es k = Some c))"
    using merge_table_lookup [OF _ assms(3)] by blast
  then show ?thesis
    by (intro exI [of _ es]) (simp add: map_of_copied case_map_option comp_def cong: option.case_cong)
qed

section \<open>Equivalence is reflexive on typed trees, and copies are equivalent\<close>

function typed :: "datum \<Rightarrow> bool" where
  "typed (DTable f kvs) \<longleftrightarrow> (\<forall>kv \<in> set kvs. typed (snd kv))"
| "typed (DArray f xs) \<longleftrightarrow> (\<forall>x \<in> set xs. typed x)"
| "typed (DUnknown f) = False"
| "typed (DString f s) = True"
| "typed (DInt64 f i) = True"
| "typed (DFp64 f x) = True"
| "typed (DBoolean f b) = True"
| "typed (DDate f t) = True"
| "typed (DTime f t) = True"
| "typed (DDatetime f t) = True"
| "typed (DDatetimetz f t) = True"
  by pat_completeness auto
termination
proof (relation "measure size", goal_cases)
  case (2 f kvs kv)
  then have "size (snd kv) < Suc (size_list (size_prod (\<lambda>_. 0) size) kvs)"
    by (induction kvs) (auto split: prod.splits)
  then show ?case by (simp add: size_list_conv_sum_list)
qed (auto simp: less_Suc_eq_le size_list_estimation')

lemma fp_refl: "fp_eq x x \<or> fp_nan x \<and> fp_nan x"
  by (simp add: fp_eq_def)

lemma same_refl [simp]: "same_date t t" "same_time t t"
  by (simp_all add: same_date_def same_time_def)

lemma equiv_lists:
  "\<forall>x \<in> set xs. datum_equiv x (g x) \<Longrightarrow> equiv_array xs (map g xs)"
  "\<forall>kv \<in> set kvs. datum_equiv (snd kv) (g (snd kv)) \<Longrightarrow> equiv_table kvs (map (\<lambda>(k, v). (k, g v)) kvs)"
proof -
  show "\<forall>x \<in> set xs. datum_equiv x (g x) \<Longrightarrow> equiv_array xs (map g xs)" by (induction xs) auto
  show "\<forall>kv \<in> set kvs. datum_equiv (snd kv) (g (snd kv)) \<Longrightarrow> equiv_table kvs (map (\<lambda>(k, v). (k, g v)) kvs)"
    by (induction kvs) auto
qed

lemma equiv_copied: "typed d \<Longrightarrow> datum_equiv d (copied d)"
proof (induction d rule: typed.induct)
  case (1 f kvs)
  then show ?case using equiv_lists(2) [of kvs copied] by simp
next
  case (2 f xs)
  then show ?case using equiv_lists(1) [of xs copied] by simp
qed (simp_all add: fp_eq_def)

lemma equiv_refl: "typed d \<Longrightarrow> datum_equiv d d"
proof (induction d rule: typed.induct)
  case (1 f kvs)
  then show ?case using equiv_lists(2) [of kvs "\<lambda>d. d"] by (simp add: case_prod_unfold)
next
  case (2 f xs)
  then show ?case using equiv_lists(1) [of xs "\<lambda>d. d"] by simp
qed (simp_all add: fp_eq_def)

end
