(* ===== verification/Toml_Parser.thy ===== *)
theory Toml_Parser
  imports Toml_Scanner Toml_Utf8 Toml_Merge
begin

text \<open>
  The parser of \<open>src/src/lib/tomlc17.c\<close>: \<open>parse_norm\<close>, keys, values, the three kinds of
  expressions, and \<open>toml_parse\<close>.  The tree is a value, so a pointer into it
  (\<open>pp->curtab\<close>, or the table that a key leads to) is the list of indices on the way down.
  A failed step ends the parse and frees the tree; it is the error text alone.  The memory
  pool is its fill level and its size.  The recursion of \<open>parse_val\<close> and the main loop have
  a bound on their calls, \<open>None\<close> when it is exhausted; \<open>toml_parse\<close> starts with more than
  the document can use up.
\<close>

record parser =
  scan :: scanner
  toptab :: datum
  curtab :: "nat list"
  pool_top :: nat
  pool_max :: nat

definition KEYPARTMAX :: nat where "KEYPARTMAX = 10"

definition pool_alloc :: "nat \<Rightarrow> parser \<Rightarrow> parser option" where
  "pool_alloc n pp =
     (if pool_top pp + n > pool_max pp then None else Some (pp\<lparr>pool_top := pool_top pp + n\<rparr>))"

section \<open>Escapes\<close>

definition hex_char :: "nat \<Rightarrow> char" where
  "hex_char n = (if n < 10 then char_of (48 + n) else char_of (87 + n))"

text \<open>\<open>%04x\<close> of a value below \<open>0x10000\<close>.\<close>

definition show_04x :: "32 word \<Rightarrow> string" where
  "show_04x w =
     map (\<lambda>k. hex_char (unat (drop_bit k w AND 0xF))) [12, 8, 4, 0]"

definition is_surrogate :: "32 word \<Rightarrow> bool" where
  "is_surrogate ucs \<longleftrightarrow> 0xD800 \<le> ucs \<and> ucs \<le> 0xDFFF"

definition strtol16 :: "string \<Rightarrow> 32 word" where
  "strtol16 buf = ucast (st_int (strtoll buf 16))"

text \<open>A numeric escape with its digits.\<close>

definition ucs_escape :: "int \<Rightarrow> bool \<Rightarrow> string \<Rightarrow> string + string" where
  "ucs_escape ln check buf =
     (let ucs = strtol16 buf in
      if check \<and> is_surrogate ucs
      then Inl (seterror ln (''invalid UTF8 char '' @ BSL # ''u'' @ show_04x ucs))
      else case ucs_to_utf8 ucs of
             None \<Rightarrow> Inl (seterror ln (''error converting UCS '' @ cstr buf @ '' to UTF8''))
           | Some bs \<Rightarrow> Inr bs)"

definition plain_escape :: "char \<Rightarrow> char option" where
  "plain_escape c =
     (if c = DQ \<or> c = BSL then Some c
      else if c = CHR ''b'' then Some CHR 0x08 else if c = CHR ''t'' then Some TAB
      else if c = CHR ''n'' then Some LF else if c = CHR ''f'' then Some CHR 0x0C
      else if c = CHR ''r'' then Some CR else if c = CHR ''e'' then Some CHR 0x1B else None)"

definition prepend :: "string \<Rightarrow> 'e + string \<Rightarrow> 'e + string" where
  "prepend s r = (case r of Inl e \<Rightarrow> Inl e | Inr t \<Rightarrow> Inr (s @ t))"

text \<open>The loop of \<open>parse_norm\<close>, from the position \<open>p\<close> to the NUL behind the buffer.\<close>

function norm_loop :: "int \<Rightarrow> string \<Rightarrow> string + string" where
  "norm_loop ln p =
     (if at p 0 = NUL then Inr []
      else if at p 0 \<noteq> BSL then prepend [at p 0] (norm_loop ln (drop 1 p))
      else case plain_escape (at p 1) of
        Some c \<Rightarrow> prepend [c] (norm_loop ln (drop 2 p))
      | None \<Rightarrow>
          if at p 1 = CHR ''x''
          then (case ucs_escape ln False (take 2 (drop 2 p)) of
                  Inl e \<Rightarrow> Inl e
                | Inr bs \<Rightarrow> prepend bs (norm_loop ln (drop 4 p)))
          else if at p 1 = CHR ''u'' \<or> at p 1 = CHR ''U''
          then (let sz = (if at p 1 = CHR ''u'' then 4 else 8) in
                case ucs_escape ln True (take sz (drop 2 p)) of
                  Inl e \<Rightarrow> Inl e
                | Inr bs \<Rightarrow> prepend bs (norm_loop ln (drop (2 + sz) p)))
          else if at p 1 \<in> {CHR '' '', TAB, CR}
          then (let q = drop (strspn (drop 1 p) [CHR '' '', TAB, CR]) (drop 1 p) in
                if at q 0 \<noteq> LF then Inl (seterror ln ''unexpected char after line-ending backslash'')
                else norm_loop ln (drop (strspn (drop 1 q) [CHR '' '', TAB, CR, LF]) (drop 1 q)))
          else if at p 1 = LF
          then norm_loop ln (drop (strspn (drop 1 p) [CHR '' '', TAB, CR, LF]) (drop 1 p))
          else Inl (seterror ln (''internal: unknown escape char '' @ [BSL, at p 1])))"
  by pat_completeness auto
termination
  by (relation "measure (\<lambda>(ln, p). length p)") (auto simp: at_def split: if_splits)

declare norm_loop.simps [simp del]

definition parse_norm :: "token \<Rightarrow> parser \<Rightarrow> string + string \<times> parser" where
  "parse_norm tok pp =
     (case pool_alloc (length (tok_str tok) + 1) pp of
        None \<Rightarrow> Inl (seterror (tok_lineno tok) ''out of memory'')
      | Some pp' \<Rightarrow>
          if toktyp tok \<in> {TOK_LIT, TOK_LITSTRING, TOK_MLLITSTRING} then Inr (tok_str tok, pp')
          else if toktyp tok \<in> {TOK_STRING, TOK_MLSTRING}
          then (case tok_u tok of
                  Escp (Some e) \<Rightarrow>
                    (case norm_loop (tok_lineno tok) (drop e (tok_str tok)) of
                       Inl err \<Rightarrow> Inl err
                     | Inr s \<Rightarrow> Inr (take e (tok_str tok) @ s, pp'))
                | _ \<Rightarrow> Inr (tok_str tok, pp'))
          else Inl (seterror 0 ''internal: arg must be a string''))"

section \<open>Keys\<close>

definition is_keypart :: "token \<Rightarrow> bool" where
  "is_keypart tok \<longleftrightarrow> toktyp tok \<in> {TOK_STRING, TOK_LITSTRING, TOK_LIT}"

function key_loop :: "string list \<Rightarrow> parser \<Rightarrow> string + string list \<times> parser" where
  "key_loop parts pp =
     (let mark = scan_mark (scan pp) in
      case scan_key (scan pp) of
        Inl e \<Rightarrow> Inl e
      | Inr (tok, sp1) \<Rightarrow>
          if toktyp tok \<noteq> TOK_DOT then Inr (parts, pp\<lparr>scan := scan_restore sp1 mark\<rparr>)
          else case scan_key sp1 of
            Inl e \<Rightarrow> Inl e
          | Inr (tok2, sp2) \<Rightarrow>
              if \<not> is_keypart tok2 then Inl (seterror (tok_lineno tok2) ''expects a string in dotted-key'')
              else if length parts \<ge> KEYPARTMAX then Inl (seterror (tok_lineno tok2) ''too many key parts'')
              else case parse_norm tok2 (pp\<lparr>scan := sp2\<rparr>) of
                Inl e \<Rightarrow> Inl e
              | Inr (s, pp') \<Rightarrow> key_loop (parts @ [s]) pp')"
  by pat_completeness auto
termination
  by (relation "measure (\<lambda>(parts, pp). KEYPARTMAX - length parts)") auto

declare key_loop.simps [simp del]

definition parse_key :: "token \<Rightarrow> parser \<Rightarrow> string + string list \<times> parser" where
  "parse_key tok pp =
     (if \<not> is_keypart tok then Inl (seterror (tok_lineno tok) ''missing key'')
      else case parse_norm tok pp of
        Inl e \<Rightarrow> Inl (seterror (tok_lineno tok) ''unable to normalize string; probably a unicode issue'')
      | Inr (s, pp') \<Rightarrow> key_loop [s] pp')"

section \<open>Positions in the tree\<close>

fun datum_at :: "datum \<Rightarrow> nat list \<Rightarrow> datum" where
  "datum_at d [] = d"
| "datum_at (DTable f kvs) (i # p) = (if i < length kvs then datum_at (snd (kvs ! i)) p else DATUM_ZERO)"
| "datum_at (DArray f xs) (i # p) = (if i < length xs then datum_at (xs ! i) p else DATUM_ZERO)"
| "datum_at d (i # p) = DATUM_ZERO"

fun put_at :: "datum \<Rightarrow> nat list \<Rightarrow> datum \<Rightarrow> datum" where
  "put_at d [] v = v"
| "put_at (DTable f kvs) (i # p) v =
     (if i < length kvs then tab_set (DTable f kvs) i (put_at (snd (kvs ! i)) p v) else DTable f kvs)"
| "put_at (DArray f xs) (i # p) v =
     (if i < length xs then arr_set (DArray f xs) i (put_at (xs ! i) p v) else DArray f xs)"
| "put_at d (i # p) v = d"

fun tab_size :: "datum \<Rightarrow> nat" where
  "tab_size (DTable f kvs) = length kvs"
| "tab_size d = 0"

definition new_table :: "bool \<Rightarrow> datum" where
  "new_table stdtabexpr = set_flag (if stdtabexpr then FLAG_STDEXPR else 0) (mkdatum TOML_TABLE)"

text \<open>Going on below a position, and putting the changed part back.\<close>

definition go_into ::
  "datum \<Rightarrow> nat list \<Rightarrow> (datum \<Rightarrow> string + datum \<times> nat list) \<Rightarrow> string + datum \<times> nat list" where
  "go_into tab path k =
     (case k (datum_at tab path) of
        Inl e \<Rightarrow> Inl e
      | Inr (sub, p) \<Rightarrow> Inr (put_at tab path sub, path @ p))"

fun descend_keypart :: "int \<Rightarrow> datum \<Rightarrow> string list \<Rightarrow> bool \<Rightarrow> string + datum \<times> nat list" where
  "descend_keypart ln tab [] std = Inr (tab, [])"
| "descend_keypart ln tab (key # keys) std =
     (case tab_find tab key of
        None \<Rightarrow>
          (case tab_add tab key (new_table std) of
             Inl reason \<Rightarrow> Inl (seterror ln reason)
           | Inr tab' \<Rightarrow> go_into tab' [tab_size tab' - 1] (\<lambda>t. descend_keypart ln t keys std))
      | Some j \<Rightarrow>
          (case tab_value tab j of
             DTable f kvs \<Rightarrow> go_into tab [j] (\<lambda>t. descend_keypart ln t keys std)
           | DArray f xs \<Rightarrow>
               if xs = [] then Inl (seterror ln (''array '' @ cstr key @ '' has no elements''))
               else if dtype (last xs) \<noteq> TOML_TABLE
               then Inl (seterror ln (''array '' @ cstr key @ '' must be array of tables''))
               else go_into tab [j, length xs - 1] (\<lambda>t. descend_keypart ln t keys std)
           | _ \<Rightarrow> Inl (seterror ln (''cannot locate table at key '' @ cstr key))))"

text \<open>The loop of \<open>parse_array_table_expr\<close>: it also rejects a static array.\<close>

fun array_walk :: "int \<Rightarrow> datum \<Rightarrow> string list \<Rightarrow> string + datum \<times> nat list" where
  "array_walk ln tab [] = Inr (tab, [])"
| "array_walk ln tab (key # keys) =
     (case tab_find tab key of
        None \<Rightarrow>
          (case tab_add tab key (new_table True) of
             Inl reason \<Rightarrow> Inl (seterror ln reason)
           | Inr tab' \<Rightarrow> go_into tab' [tab_size tab' - 1] (\<lambda>t. array_walk ln t keys))
      | Some j \<Rightarrow>
          (case tab_value tab j of
             DTable f kvs \<Rightarrow> go_into tab [j] (\<lambda>t. array_walk ln t keys)
           | DArray f xs \<Rightarrow>
               if has_flag FLAG_INLINED (DArray f xs)
               then Inl (seterror ln (''cannot expand array '' @ cstr key))
               else if xs = [] then Inl (seterror ln (''array '' @ cstr key @ '' has no elements''))
               else if dtype (last xs) \<noteq> TOML_TABLE
               then Inl (seterror ln (''array '' @ cstr key @ '' must be array of tables''))
               else go_into tab [j, length xs - 1] (\<lambda>t. array_walk ln t keys)
           | _ \<Rightarrow> Inl (seterror ln (''cannot locate table at key '' @ cstr key))))"

text \<open>
  The loop of \<open>parse_keyvalue_expr\<close>: a dotted key does not pass through arrays, and adds no
  table to one that has been defined before, but for the current table itself.
\<close>

fun keyvalue_walk :: "int \<Rightarrow> bool \<Rightarrow> datum \<Rightarrow> string list \<Rightarrow> string + datum \<times> nat list" where
  "keyvalue_walk ln first tab [] = Inr (tab, [])"
| "keyvalue_walk ln first tab (key # keys) =
     (case tab_find tab key of
        None \<Rightarrow>
          if \<not> first \<and> has_flag FLAG_EXPLICIT tab
          then Inl (seterror ln ''cannot extend a previously defined table using dotted expression'')
          else (case tab_add tab key (new_table False) of
                  Inl reason \<Rightarrow> Inl (seterror ln reason)
                | Inr tab' \<Rightarrow> go_into tab' [tab_size tab' - 1] (\<lambda>t. keyvalue_walk ln False t keys))
      | Some j \<Rightarrow>
          (case tab_value tab j of
             DTable f kvs \<Rightarrow> go_into tab [j] (\<lambda>t. keyvalue_walk ln False t keys)
           | DArray f xs \<Rightarrow>
               Inl (seterror ln (''encountered previously declared array '' @ SQ # cstr key @ [SQ]))
           | _ \<Rightarrow> Inl (seterror ln (''cannot locate table at '' @ SQ # cstr key @ [SQ]))))"

section \<open>Values\<close>

definition token_to_string :: "token \<Rightarrow> parser \<Rightarrow> string + datum \<times> parser" where
  "token_to_string tok pp =
     (case parse_norm tok pp of Inl e \<Rightarrow> Inl e | Inr (s, pp') \<Rightarrow> Inr (DString 0 s, pp'))"

definition token_to_timestamp :: "token \<Rightarrow> datum" where
  "token_to_timestamp tok =
     (case tok_u tok of
        ValTs t \<Rightarrow>
          (case toktyp tok of
             TOK_TIME \<Rightarrow> DTime 0 t
           | TOK_DATE \<Rightarrow> DDate 0 t
           | TOK_DATETIME \<Rightarrow> DDatetime 0 t
           | _ \<Rightarrow> DDatetimetz 0 t)
      | _ \<Rightarrow> mkdatum TOML_DATETIMETZ)"

definition token_to_int64 :: "token \<Rightarrow> datum" where
  "token_to_int64 tok = DInt64 0 (case tok_u tok of ValInt64 i \<Rightarrow> i | _ \<Rightarrow> 0)"

definition token_to_fp64 :: "token \<Rightarrow> datum" where
  "token_to_fp64 tok = DFp64 0 (case tok_u tok of ValFp64 x \<Rightarrow> x | _ \<Rightarrow> 0)"

definition token_to_boolean :: "token \<Rightarrow> datum" where
  "token_to_boolean tok = DBoolean 0 (case tok_u tok of ValB1 b \<Rightarrow> b | _ \<Rightarrow> False)"

text \<open>
  The key of an entry of an inline table, up to the first token of its value: the table with
  the place that the key leads to, the last part of the key, and that token.
\<close>

definition inline_key ::
  "token \<Rightarrow> datum \<Rightarrow> parser \<Rightarrow> string + datum \<times> nat list \<times> string \<times> token \<times> parser" where
  "inline_key tok tab pp =
     (case parse_key tok pp of
        Inl e \<Rightarrow> Inl e
      | Inr (keys, pp1) \<Rightarrow>
          (case descend_keypart (tok_lineno tok) tab (butlast keys) False of
             Inl e \<Rightarrow> Inl e
           | Inr (tab1, path) \<Rightarrow>
               if has_flag FLAG_INLINED (datum_at tab1 path)
               then Inl (seterror (tok_lineno tok) ''inline table cannot be extended'')
               else
                 (case scan_value (scan pp1) of
                    Inl e \<Rightarrow> Inl e
                  | Inr (eq, sp2) \<Rightarrow>
                      if toktyp eq = TOK_ENDL then Inl (seterror (tok_lineno eq) ''unexpected newline'')
                      else if toktyp eq \<noteq> TOK_EQUAL
                      then Inl (seterror (tok_lineno eq) (''missing '' @ SQ # CHR ''='' # [SQ]))
                      else (case scan_value sp2 of
                              Inl e \<Rightarrow> Inl e
                            | Inr (val, sp3) \<Rightarrow>
                                Inr (put_at tab1 path (set_flag FLAG_EXPLICIT (datum_at tab1 path)),
                                     path, last keys, val, pp1\<lparr>scan := sp3\<rparr>)))))"

fun parse_val :: "nat \<Rightarrow> token \<Rightarrow> parser \<Rightarrow> (string + datum \<times> parser) option"
and array_loop :: "nat \<Rightarrow> datum \<Rightarrow> bool \<Rightarrow> parser \<Rightarrow> (string + datum \<times> parser) option"
and table_loop :: "nat \<Rightarrow> datum \<Rightarrow> bool \<Rightarrow> parser \<Rightarrow> (string + datum \<times> parser) option" where
  "parse_val 0 tok pp = None"
| "parse_val (Suc n) tok pp =
     (case toktyp tok of
        TOK_STRING \<Rightarrow> Some (token_to_string tok pp)
      | TOK_MLSTRING \<Rightarrow> Some (token_to_string tok pp)
      | TOK_LITSTRING \<Rightarrow> Some (token_to_string tok pp)
      | TOK_MLLITSTRING \<Rightarrow> Some (token_to_string tok pp)
      | TOK_TIME \<Rightarrow> Some (Inr (token_to_timestamp tok, pp))
      | TOK_DATE \<Rightarrow> Some (Inr (token_to_timestamp tok, pp))
      | TOK_DATETIME \<Rightarrow> Some (Inr (token_to_timestamp tok, pp))
      | TOK_DATETIMETZ \<Rightarrow> Some (Inr (token_to_timestamp tok, pp))
      | TOK_INTEGER \<Rightarrow> Some (Inr (token_to_int64 tok, pp))
      | TOK_FLOAT \<Rightarrow> Some (Inr (token_to_fp64 tok, pp))
      | TOK_BOOL \<Rightarrow> Some (Inr (token_to_boolean tok, pp))
      | TOK_LBRACK \<Rightarrow> array_loop n (mkdatum TOML_ARRAY) False pp
      | TOK_LBRACE \<Rightarrow> table_loop n (mkdatum TOML_TABLE) False pp
      | _ \<Rightarrow> Some (Inl (seterror (tok_lineno tok) ''missing value'')))"
| "array_loop 0 arr need_comma pp = None"
| "array_loop (Suc n) arr need_comma pp =
     (case scan_value (scan pp) of
        Inl e \<Rightarrow> Some (Inl e)
      | Inr (tok, sp) \<Rightarrow>
          if toktyp tok = TOK_ENDL then array_loop n arr need_comma (pp\<lparr>scan := sp\<rparr>)
          else if toktyp tok = TOK_RBRACK
          then Some (Inr (set_flag_recursive FLAG_INLINED arr, pp\<lparr>scan := sp\<rparr>))
          else if toktyp tok = TOK_COMMA
          then if need_comma then array_loop n arr False (pp\<lparr>scan := sp\<rparr>)
               else Some (Inl (seterror (tok_lineno tok) ''syntax error while parsing array: unexpected comma''))
          else if need_comma
          then Some (Inl (seterror (tok_lineno tok) ''syntax error while parsing array: missing comma''))
          else (case parse_val n tok (pp\<lparr>scan := sp\<rparr>) of
                  None \<Rightarrow> None
                | Some (Inl e) \<Rightarrow> Some (Inl e)
                | Some (Inr (v, pp')) \<Rightarrow>
                    (case arr_emplace arr of
                       Inl reason \<Rightarrow> Some (Inl (seterror (tok_lineno tok) (''while parsing array: '' @ reason)))
                     | Inr (arr', i) \<Rightarrow> array_loop n (arr_set arr' i v) True pp')))"
| "table_loop 0 tab need_comma pp = None"
| "table_loop (Suc n) tab need_comma pp =
     (case scan_key (scan pp) of
        Inl e \<Rightarrow> Some (Inl e)
      | Inr (tok, sp) \<Rightarrow>
          if toktyp tok = TOK_RBRACE
          then Some (Inr (set_flag_recursive FLAG_INLINED tab, pp\<lparr>scan := sp\<rparr>))
          else if toktyp tok = TOK_COMMA
          then if need_comma then table_loop n tab False (pp\<lparr>scan := sp\<rparr>)
               else Some (Inl (seterror (tok_lineno tok) ''unexpected comma''))
          else if toktyp tok = TOK_ENDL then table_loop n tab need_comma (pp\<lparr>scan := sp\<rparr>)
          else if need_comma then Some (Inl (seterror (tok_lineno tok) ''missing comma''))
          else (case inline_key tok tab (pp\<lparr>scan := sp\<rparr>) of
                  Inl e \<Rightarrow> Some (Inl e)
                | Inr (tab', path, key, val, pp1) \<Rightarrow>
                    (case parse_val n val pp1 of
                       None \<Rightarrow> None
                     | Some (Inl e) \<Rightarrow> Some (Inl e)
                     | Some (Inr (v, pp2)) \<Rightarrow>
                         (case tab_add (datum_at tab' path) key v of
                            Inl reason \<Rightarrow> Some (Inl (seterror (tok_lineno val) reason))
                          | Inr t \<Rightarrow> table_loop n (put_at tab' path t) True pp2))))"

section \<open>Expressions\<close>

text \<open>\<open>[a.b.c]\<close>.\<close>

definition std_table_place :: "int \<Rightarrow> datum \<Rightarrow> string \<Rightarrow> string + datum \<times> nat" where
  "std_table_place ln tab key =
     (case tab_find tab key of
        None \<Rightarrow>
          if has_flag FLAG_INLINED tab then Inl (seterror ln ''inline table cannot be extended'')
          else (case tab_add tab key (new_table True) of
                  Inl reason \<Rightarrow> Inl (seterror ln reason)
                | Inr tab' \<Rightarrow> Inr (tab', tab_size tab' - 1))
      | Some j \<Rightarrow>
          if has_flag FLAG_EXPLICIT (tab_value tab j)
          then Inl (seterror ln ''table defined more than once'')
          else if \<not> has_flag FLAG_STDEXPR (tab_value tab j)
          then Inl (seterror ln ''table defined before'')
          else Inr (tab, j))"

definition parse_std_table_expr :: "parser \<Rightarrow> string + parser" where
  "parse_std_table_expr pp =
     (case scan_key (scan pp) of
        Inl e \<Rightarrow> Inl e
      | Inr (tok, sp1) \<Rightarrow>
          (case parse_key tok (pp\<lparr>scan := sp1\<rparr>) of
             Inl e \<Rightarrow> Inl e
           | Inr (keys, pp1) \<Rightarrow>
               (case scan_key (scan pp1) of
                  Inl e \<Rightarrow> Inl e
                | Inr (rb, sp2) \<Rightarrow>
                    if toktyp rb \<noteq> TOK_RBRACK then Inl (seterror (tok_lineno rb) ''missing right-bracket'')
                    else (case descend_keypart (tok_lineno tok) (toptab pp1) (butlast keys) True of
                            Inl e \<Rightarrow> Inl e
                          | Inr (top1, path) \<Rightarrow>
                              (case std_table_place (tok_lineno tok) (datum_at top1 path) (last keys) of
                                 Inl e \<Rightarrow> Inl e
                               | Inr (tab, j) \<Rightarrow>
                                   Inr (pp1\<lparr>scan := sp2,
                                     toptab := put_at top1 path
                                       (tab_set tab j (set_flag FLAG_EXPLICIT (tab_value tab j))),
                                     curtab := path @ [j]\<rparr>))))))"

text \<open>\<open>[[a.b.c]]\<close>.\<close>

definition array_table_place :: "int \<Rightarrow> datum \<Rightarrow> string \<Rightarrow> string + datum \<times> nat list" where
  "array_table_place ln tab key =
     (case (case tab_find tab key of
              None \<Rightarrow> tab_add tab key (mkdatum TOML_ARRAY)
            | Some j \<Rightarrow> Inr tab) of
        Inl reason \<Rightarrow> Inl (seterror ln reason)
      | Inr tab' \<Rightarrow>
          (case tab_find tab' key of
             None \<Rightarrow> Inl (seterror ln ''entry must be an array'')
           | Some idx \<Rightarrow>
               if dtype (tab_value tab' idx) \<noteq> TOML_ARRAY then Inl (seterror ln ''entry must be an array'')
               else if has_flag FLAG_INLINED (tab_value tab' idx)
               then Inl (seterror ln ''cannot extend a static array'')
               else (case arr_emplace (tab_value tab' idx) of
                       Inl reason \<Rightarrow> Inl (seterror ln reason)
                     | Inr (arr, i) \<Rightarrow>
                         Inr (tab_set tab' idx (arr_set arr i (mkdatum TOML_TABLE)), [idx, i]))))"

definition parse_array_table_expr :: "parser \<Rightarrow> string + parser" where
  "parse_array_table_expr pp =
     (case scan_key (scan pp) of
        Inl e \<Rightarrow> Inl e
      | Inr (tok, sp1) \<Rightarrow>
          (case parse_key tok (pp\<lparr>scan := sp1\<rparr>) of
             Inl e \<Rightarrow> Inl e
           | Inr (keys, pp1) \<Rightarrow>
               (case scan_key (scan pp1) of
                  Inl e \<Rightarrow> Inl e
                | Inr (rrb, sp2) \<Rightarrow>
                    if toktyp rrb \<noteq> TOK_RRBRACK
                    then Inl (seterror (tok_lineno rrb) (''missing '' @ SQ # '']]'' @ [SQ]))
                    else (case array_walk (tok_lineno tok) (toptab pp1) (butlast keys) of
                            Inl e \<Rightarrow> Inl e
                          | Inr (top1, path) \<Rightarrow>
                              (case array_table_place (tok_lineno tok) (datum_at top1 path) (last keys) of
                                 Inl e \<Rightarrow> Inl e
                               | Inr (tab, p) \<Rightarrow>
                                   Inr (pp1\<lparr>scan := sp2, toptab := put_at top1 path tab,
                                     curtab := path @ p\<rparr>))))))"

text \<open>\<open>a.b.c = value\<close>.\<close>

definition parse_keyvalue_expr :: "nat \<Rightarrow> token \<Rightarrow> parser \<Rightarrow> (string + parser) option" where
  "parse_keyvalue_expr n tok pp =
     (let ln = tok_lineno tok in
      case parse_key tok pp of
        Inl e \<Rightarrow> Some (Inl e)
      | Inr (keys, pp1) \<Rightarrow>
          (case scan_key (scan pp1) of
             Inl e \<Rightarrow> Some (Inl e)
           | Inr (eq, sp2) \<Rightarrow>
               if toktyp eq \<noteq> TOK_EQUAL
               then Some (Inl (seterror (tok_lineno eq) (''expect '' @ SQ # CHR ''='' # [SQ])))
               else (case keyvalue_walk ln True (datum_at (toptab pp1) (curtab pp1)) (butlast keys) of
                       Inl e \<Rightarrow> Some (Inl e)
                     | Inr (tab1, path) \<Rightarrow>
                         let tab = datum_at tab1 path in
                         if has_flag FLAG_INLINED tab
                         then Some (Inl (seterror ln ''inline table cannot be extended''))
                         else if 1 < length keys \<and> has_flag FLAG_EXPLICIT tab
                         then Some (Inl (seterror ln ''cannot extend a previously defined table using dotted expression''))
                         else (case scan_value sp2 of
                                 Inl e \<Rightarrow> Some (Inl e)
                               | Inr (val, sp3) \<Rightarrow>
                                   (case parse_val n val (pp1\<lparr>scan := sp3\<rparr>) of
                                      None \<Rightarrow> None
                                    | Some (Inl e) \<Rightarrow> Some (Inl e)
                                    | Some (Inr (v, pp2)) \<Rightarrow>
                                        (case tab_add tab (last keys) v of
                                           Inl reason \<Rightarrow> Some (Inl (seterror ln reason))
                                         | Inr t \<Rightarrow>
                                             Some (Inr (pp2\<lparr>toptab := put_at (toptab pp2) (curtab pp2)
                                                              (put_at tab1 path t)\<rparr>)))))))) "

section \<open>Documents\<close>

text \<open>One round of the main loop behind the token \<open>tok\<close>, which is not the end of the input.\<close>

definition parse_expr :: "nat \<Rightarrow> token \<Rightarrow> parser \<Rightarrow> (string + parser) option" where
  "parse_expr n tok pp =
     (if toktyp tok = TOK_LBRACK then Some (parse_std_table_expr pp)
      else if toktyp tok = TOK_LLBRACK then Some (parse_array_table_expr pp)
      else parse_keyvalue_expr n tok pp)"

fun doc_loop :: "nat \<Rightarrow> parser \<Rightarrow> (string + datum) option" where
  "doc_loop 0 pp = None"
| "doc_loop (Suc n) pp =
     (case scan_key (scan pp) of
        Inl e \<Rightarrow> Some (Inl e)
      | Inr (tok, sp1) \<Rightarrow>
          if toktyp tok = TOK_FIN then Some (Inr (toptab pp))
          else if toktyp tok = TOK_ENDL then doc_loop n (pp\<lparr>scan := sp1\<rparr>)
          else (case parse_expr n tok (pp\<lparr>scan := sp1\<rparr>) of
                  None \<Rightarrow> None
                | Some (Inl e) \<Rightarrow> Some (Inl e)
                | Some (Inr pp1) \<Rightarrow>
                    (case scan_key (scan pp1) of
                       Inl e \<Rightarrow> Some (Inl e)
                     | Inr (tok2, sp2) \<Rightarrow>
                         if toktyp tok2 = TOK_FIN \<or> toktyp tok2 = TOK_ENDL
                         then doc_loop n (pp1\<lparr>scan := sp2\<rparr>)
                         else Some (Inl (seterror (tok_lineno tok2) ''ENDL expected'')))))"

record toml_option =
  check_utf8 :: bool

definition toml_default_option :: toml_option where
  "toml_default_option = \<lparr>check_utf8 = False\<rparr>"

text \<open>The check of the whole text, with its line counter: the error, if any.\<close>

function utf8_check :: "int \<Rightarrow> string \<Rightarrow> string option" where
  "utf8_check line src =
     (if src = [] then None
      else case utf8_to_ucs src of
        None \<Rightarrow> Some (snprintf_s ERRMSG_SIZE (''invalid UTF8 char on line '' @ show_int line))
      | Some (ch, n) \<Rightarrow>
          if is_surrogate ch
          then Some (snprintf_s ERRMSG_SIZE
                 (''invalid UTF8 char '' @ BSL # ''u'' @ show_04x ch @ '' on line '' @ show_int line))
          else utf8_check (line + (if ch = 10 then 1 else 0)) (drop n src))"
  by pat_completeness auto
termination
  by (relation "measure (\<lambda>(line, src). length src)") (auto dest: utf8_to_ucs_consumes)

declare utf8_check.simps [simp del]

definition parser_init :: "string \<Rightarrow> parser" where
  "parser_init src =
     \<lparr>scan = scan_init src, toptab = mkdatum TOML_TABLE, curtab = [], pool_top = 0,
      pool_max = length src + 10\<rparr>"

text \<open>The bound: twice the length of the text, with some to spare.\<close>

definition parse_fuel :: "string \<Rightarrow> nat" where
  "parse_fuel src = 2 * length src + 3"

definition toml_parse :: "toml_option \<Rightarrow> string \<Rightarrow> nat \<Rightarrow> (string + datum) option" where
  "toml_parse opt buf len =
     (if at buf len \<noteq> NUL then Some (Inl ''src[] must be NUL terminated'')
      else let src = take len buf in
           case (if check_utf8 opt then utf8_check 1 src else None) of
             Some e \<Rightarrow> Some (Inl e)
           | None \<Rightarrow> doc_loop (parse_fuel src) (parser_init src))"

end
