(* ===== verification/Toml_Progress.thy ===== *)
theory Toml_Progress
  imports Toml_Parser
begin

text \<open>
  Why parsing ends, and why its memory pool is large enough: every token uses up at least a
  known part of the input, which pays for the recursion of the parser and for the strings
  it stores.
\<close>

section \<open>What a token costs\<close>

abbreviation left :: "scanner \<Rightarrow> nat" where
  "left sp \<equiv> length (cur sp)"

definition quoted :: "toktyp set" where
  "quoted = {TOK_STRING, TOK_MLSTRING, TOK_LITSTRING, TOK_MLLITSTRING}"

text \<open>A lower bound for the input that a token takes.\<close>

definition cost :: "token \<Rightarrow> nat" where
  "cost tok =
     (if toktyp tok = TOK_FIN then 0
      else if toktyp tok = TOK_LIT then length (tok_str tok)
      else if toktyp tok \<in> quoted then length (tok_str tok) + 2 else 1)"

text \<open>
  A scan that succeeds has used up what its token costs; only in key mode (\<open>km\<close>) is there a
  bare word, which may be empty.
\<close>

definition pays :: "bool \<Rightarrow> scanner \<Rightarrow> string + token \<times> scanner \<Rightarrow> bool" where
  "pays km sp r \<longleftrightarrow>
     (\<forall>tok sp'. r = Inr (tok, sp') \<longrightarrow>
        left sp' + cost tok \<le> left sp \<and> (toktyp tok = TOK_LIT \<longrightarrow> km))"

lemma paysD: "pays km sp r \<Longrightarrow> r = Inr (tok, sp') \<Longrightarrow> left sp' + cost tok \<le> left sp"
  by (simp add: pays_def)

lemma pays_Inl [simp]: "pays km sp (Inl e)"
  by (simp add: pays_def)

lemma pays_if [intro]: "(c \<Longrightarrow> pays km sp a) \<Longrightarrow> (\<not> c \<Longrightarrow> pays km sp b) \<Longrightarrow> pays km sp (if c then a else b)"
  by simp

lemma pays_shift: "pays km sp1 r \<Longrightarrow> left sp1 \<le> left sp \<Longrightarrow> pays km sp r"
  by (force simp: pays_def)

lemma toktyp_mktoken [simp]: "toktyp (mktoken sp ty) = ty"
  by (simp add: mktoken_def)

section \<open>Strings\<close>

lemma scan_nmatch_match: "scan_nmatch sp c n \<Longrightarrow> 0 < n \<Longrightarrow> scan_match sp c"
  by (cases n) (auto simp: scan_nmatch_def scan_match_def split: list.splits)

lemma string_loop_end:
  "string_loop start e sp = Inr (e', sp') \<Longrightarrow> left sp' \<le> left sp \<and> scan_match sp' DQ"
proof (induction start e sp rule: string_loop.induct)
  case (1 start e sp)
  note IH = "1.IH" and prem = "1.prems"
  show ?case
  proof (cases "scan_match sp DQ")
    case True
    with prem show ?thesis by (simp add: string_loop.simps [of start e sp])
  next
    case False
    with prem IH show ?thesis
      by (subst (asm) string_loop.simps)
        (force split: prod.splits option.splits if_splits dest!: scan_get_consumes [OF sym] hex_digits_le)
  qed
qed

text \<open>A round of a loop goes on with less input.\<close>

lemma mlstring_round:
  assumes "mlstring_loop start e sp = Inr r" and "\<not> (scan_nmatch sp DQ 3 \<and> \<not> scan_nmatch sp DQ 4)"
  shows "\<exists>e2 sp2. mlstring_loop start e2 sp2 = Inr r \<and> left sp2 < left sp"
proof -
  let ?e = "note_escape start sp e"
  obtain ch sp1 where g: "scan_get sp = (Some ch, sp1)"
    using assms mlstring_loop.simps [of start e sp]
    by (cases "scan_get sp"; cases "fst (scan_get sp)") (auto split: if_splits)
  have less: "left sp1 < left sp" by (rule scan_get_less [OF g])
  show ?thesis
  proof (cases "ch = BSL")
    case False
    then have "mlstring_loop start e sp1 = Inr r"
      using assms g mlstring_loop.simps [of start e sp] by (simp split: if_splits)
    with less show ?thesis by blast
  next
    case True
    obtain esc sp2 where g2: "scan_get sp1 = (esc, sp2)" by (cases "scan_get sp1")
    obtain ok sp3 where h: "hex_digits (hex_count esc) sp2 = (ok, sp3)"
      by (cases "hex_digits (hex_count esc) sp2")
    obtain nl sp4 where b: "blank_loop esc sp2 = (nl, sp4)" by (cases "blank_loop esc sp2")
    have le: "left sp2 \<le> left sp1" "left sp3 \<le> left sp2" "left (ws_loop sp4) \<le> left sp2"
      using scan_get_le [OF g2] hex_digits_le [OF h] blank_loop_le [OF b] ws_loop_le [of sp4] by auto
    have "mlstring_loop start ?e sp2 = Inr r \<or> mlstring_loop start ?e sp3 = Inr r \<or>
        mlstring_loop start ?e (ws_loop sp4) = Inr r"
      using assms g g2 h b True mlstring_loop.simps [of start e sp] by (auto split: if_splits)
    with less le show ?thesis by (meson le_less_trans)
  qed
qed

lemma mlstring_loop_end:
  "mlstring_loop start e sp = Inr (e', sp') \<Longrightarrow> left sp' \<le> left sp \<and> scan_match sp' DQ"
proof (induction "left sp" arbitrary: e sp rule: less_induct)
  case less
  show ?case
  proof (cases "scan_nmatch sp DQ 3 \<and> \<not> scan_nmatch sp DQ 4")
    case True
    with less.prems show ?thesis by (auto simp: mlstring_loop.simps [of start e sp] scan_nmatch_match)
  next
    case False
    then obtain e2 sp2 where "mlstring_loop start e2 sp2 = Inr (e', sp')" "left sp2 < left sp"
      using mlstring_round [OF less.prems] by blast
    with less.hyps show ?thesis by fastforce
  qed
qed

lemma mllit_loop_end: "mllit_loop sp = Inr sp' \<Longrightarrow> left sp' \<le> left sp \<and> scan_match sp' SQ"
proof (induction "left sp" arbitrary: sp rule: less_induct)
  case less
  show ?case
  proof (cases "scan_nmatch sp SQ 3 \<and> \<not> scan_nmatch sp SQ 4")
    case True
    with less.prems show ?thesis by (auto simp: mllit_loop.simps [of sp] scan_nmatch_match)
  next
    case False
    with less.prems obtain ch sp1 where "scan_get sp = (Some ch, sp1)" "mllit_loop sp1 = Inr sp'"
      using mllit_loop.simps [of sp]
      by (cases "scan_get sp"; cases "fst (scan_get sp)") (auto split: if_splits)
    with less.hyps show ?thesis using scan_get_less by fastforce
  qed
qed

lemma lit_loop_end: "lit_loop sp = Inr sp' \<Longrightarrow> left sp' \<le> left sp \<and> scan_match sp' SQ"
proof (induction "left sp" arbitrary: sp rule: less_induct)
  case less
  show ?case
  proof (cases "scan_match sp SQ")
    case True
    with less.prems show ?thesis by (simp add: lit_loop.simps [of sp])
  next
    case False
    with less.prems obtain ch sp1 where "scan_get sp = (Some ch, sp1)" "lit_loop sp1 = Inr sp'"
      using lit_loop.simps [of sp]
      by (cases "scan_get sp"; cases "fst (scan_get sp)") (auto split: if_splits)
    with less.hyps show ?thesis using scan_get_less by fastforce
  qed
qed

lemma length_between: "left sp' \<le> left sp \<Longrightarrow> length (between sp sp') = left sp - left sp'"
  by (simp add: between_def)

text \<open>A token between an opening and a closing quote.\<close>

lemma quoted_pays:
  assumes "typ \<in> quoted" and "left sp0 < left sp" and "left sp1 \<le> left sp0"
    and "scan_match sp1 c" and "0 < n"
  shows "left (scan_skip n sp1) + cost ((mktoken sp0 typ)\<lparr>tok_str := between sp0 sp1, tok_u := v\<rparr>) \<le> left sp"
    "left (scan_skip n sp1) + cost ((mktoken sp0 typ)\<lparr>tok_str := between sp0 sp1\<rparr>) \<le> left sp"
  using assms scan_skip_less [OF assms(4,5)] length_between [OF assms(3)]
  by (auto simp: cost_def quoted_def mktoken_def)

lemma ml_start_less: "scan_match sp c \<Longrightarrow> left (ml_start sp) < left sp"
  using scan_skip_less [of sp c 3] scan_skip_le [of 1 "scan_skip 3 sp"]
  by (auto simp: ml_start_def Let_def simp del: scan_skip.simps)

lemma scan_string_pays: "scan_match sp DQ \<Longrightarrow> pays km sp (scan_string sp)"
  unfolding scan_string_def scan_multiline_string_def pays_def
  using ml_start_less [of sp DQ] scan_skip_less [of sp DQ 1]
  by (auto simp: Let_def quoted_def simp del: scan_skip.simps split: sum.splits if_splits
      intro!: quoted_pays(1) dest!: mlstring_loop_end string_loop_end)

lemma scan_litstring_pays: "scan_match sp SQ \<Longrightarrow> pays km sp (scan_litstring sp)"
  unfolding scan_litstring_def scan_multiline_litstring_def pays_def
  using ml_start_less [of sp SQ] scan_skip_less [of sp SQ 1]
  by (auto simp: Let_def quoted_def simp del: scan_skip.simps split: sum.splits if_splits
      intro!: quoted_pays(2) dest!: mllit_loop_end lit_loop_end)

section \<open>Literals\<close>

lemma literal_pays:
  assumes "0 < n" and "cur sp \<noteq> []" and "typ \<notin> quoted \<union> {TOK_LIT, TOK_FIN}"
  shows "pays km sp (Inr (literal_token sp typ n v))"
  using assms by (cases "cur sp") (auto simp: pays_def literal_token_def cost_def mktoken_def advance_def)

lemma read_time_positive: "read_time p = Some (n, r) \<Longrightarrow> 0 < n"
  by (auto simp: read_time_def Let_def split: prod.splits if_splits)

lemma process_numstr_nil: "process_numstr [] base = Inr []"
  by (simp add: process_numstr_def at_def isdigit_def code_def)

lemma strto_nil: "st_none (strtoll [] base)" "sd_none (strtod [])"
  by (simp_all add: strtoll_def strtod_def at_def)

lemma numstr_positive:
  assumes "process_numstr (take n buffer) base = Inr b"
  shows "\<not> st_none (strtoll b base') \<Longrightarrow> 0 < n" "\<not> sd_none (strtod b) \<Longrightarrow> 0 < n"
proof -
  have "b = []" if "n = 0" using assms that by (simp add: process_numstr_nil)
  then show "\<not> st_none (strtoll b base') \<Longrightarrow> 0 < n" "\<not> sd_none (strtod b) \<Longrightarrow> 0 < n"
    using strto_nil by auto
qed

lemma scan_time_pays: "cur sp \<noteq> [] \<Longrightarrow> pays km sp (scan_time sp)"
  by (auto simp: scan_time_def quoted_def split: option.splits dest: read_time_positive intro!: literal_pays)

lemma scan_after_date_pays: "cur sp \<noteq> [] \<Longrightarrow> pays km sp (scan_after_date sp p y m d)"
  by (auto simp: scan_after_date_def quoted_def Let_def split: option.splits intro!: literal_pays)

lemma scan_timestamp_pays: "cur sp \<noteq> [] \<Longrightarrow> pays km sp (scan_timestamp sp)"
  by (auto simp: scan_timestamp_def quoted_def Let_def split: option.splits
      dest: read_time_positive intro!: literal_pays scan_after_date_pays)

lemma scan_bool_pays: "cur sp \<noteq> [] \<Longrightarrow> pays km sp (scan_bool sp)"
  by (auto simp: scan_bool_def quoted_def Let_def intro!: literal_pays)

lemma scan_float_pays: "cur sp \<noteq> [] \<Longrightarrow> pays km sp (scan_float sp)"
  by (auto simp: scan_float_def Let_def quoted_def split: sum.splits intro!: literal_pays dest: numstr_positive)

lemma scan_based_pays: "cur sp \<noteq> [] \<Longrightarrow> pays km sp (scan_based sp buffer base accept)"
  by (auto simp: scan_based_def quoted_def Let_def split: sum.splits intro!: literal_pays)

lemma scan_number_pays: "cur sp \<noteq> [] \<Longrightarrow> pays km sp (scan_number sp)"
  by (auto simp: scan_number_def Let_def quoted_def split: sum.splits option.splits
      intro!: literal_pays scan_float_pays scan_based_pays dest: numstr_positive)

lemma scan_nonstring_pays: "cur sp \<noteq> [] \<Longrightarrow> pays km sp (scan_nonstring_literal sp)"
  unfolding scan_nonstring_literal_def
  by (intro pays_if scan_time_pays scan_timestamp_pays scan_bool_pays scan_number_pays pays_Inl)

lemma scan_literal_pays: "pays True sp (Inr (scan_literal sp))"
  using length_takeWhile_le [of is_bare "cur sp"]
  by (auto simp: pays_def scan_literal_def literal_token_def cost_def mktoken_def advance_def)

section \<open>Tokens\<close>

lemma one_char_pays:
  "scan_get sp = (Some c, sp1) \<Longrightarrow> typ \<notin> quoted \<union> {TOK_LIT} \<Longrightarrow> left sp2 \<le> left sp1 \<Longrightarrow>
     pays km sp (Inr ((mktoken sp typ)\<lparr>tok_str := s\<rparr>, sp2))"
  using scan_get_less [of sp c sp1] by (auto simp: pays_def cost_def mktoken_def)

lemma simple_token_typ: "simple_token ch = Some typ \<Longrightarrow> typ \<notin> quoted \<union> {TOK_LIT, TOK_FIN}"
  by (auto simp: quoted_def split: if_splits)

lemma bracket_pays:
  "scan_get sp = (Some c, sp1) \<Longrightarrow> {a, b} \<inter> (quoted \<union> {TOK_LIT}) = {} \<Longrightarrow> pays km sp (Inr (bracket sp sp1 km ch a b))"
  by (auto simp: bracket_def intro!: one_char_pays)

lemma scan_get_match: "scan_get sp = (Some c, sp1) \<Longrightarrow> c \<noteq> LF \<Longrightarrow> scan_match sp c"
  by (auto simp: scan_get_def scan_match_def Let_def split: list.splits if_splits)

lemma scan_get_nonempty: "scan_get sp = (Some c, sp1) \<Longrightarrow> cur sp \<noteq> []"
  by (auto simp: scan_get_def)

lemma scan_next_pays: "pays km sp (scan_next km sp)"
proof (induction "left sp" arbitrary: sp rule: less_induct)
  case less
  show ?case
  proof (cases "scan_get sp")
    case (Pair x sp1)
    show ?thesis
    proof (cases x)
      case None
      with Pair scan_get_le [OF Pair] show ?thesis
        by (auto simp: scan_next.simps [of km sp] pays_def cost_def mktoken_def)
    next
      case (Some ch)
      with Pair have g: "scan_get sp = (Some ch, sp1)" by simp
      note lt = scan_get_less [OF g]
      consider (plain) ty where "simple_token ch = Some ty"
        | (blank) "simple_token ch = None" "ch = CHR '' '' \<or> ch = TAB"
        | (comment) "simple_token ch = None" "ch = CHR ''#''"
        | (other) "simple_token ch = None" "ch \<noteq> CHR '' ''" "ch \<noteq> TAB" "ch \<noteq> CHR ''#''"
        by (cases "simple_token ch") auto
      then show ?thesis
      proof cases
        case plain
        with g simple_token_typ [OF plain] show ?thesis
          by (auto simp del: simple_token.simps simp: scan_next.simps [of km sp] intro!: one_char_pays)
      next
        case blank
        with g lt less.hyps [of sp1] show ?thesis
          by (auto simp del: simple_token.simps simp: scan_next.simps [of km sp] intro: pays_shift)
      next
        case comment
        show ?thesis
        proof (cases "comment_loop sp1")
          case (Inr sp2)
          with comment_loop_le [OF Inr] lt have "left sp2 < left sp" by simp
          with comment g Inr less.hyps [of sp2] show ?thesis
            by (auto simp del: simple_token.simps simp: scan_next.simps [of km sp] intro: pays_shift)
        qed (use comment g in \<open>simp del: simple_token.simps add: scan_next.simps [of km sp]\<close>)
      next
        case other
        note m = scan_get_match [OF g] and n = scan_get_nonempty [OF g]
        show ?thesis
          unfolding scan_next.simps [of km sp] g prod.case option.case other(1)
        proof (intro pays_if)
          show "ch = DQ \<Longrightarrow> pays km sp (scan_string sp)" "ch = SQ \<Longrightarrow> pays km sp (scan_litstring sp)"
            using m by (simp_all add: scan_string_pays scan_litstring_pays)
          show "pays km sp (Inr (bracket sp sp1 km ch TOK_LBRACK TOK_LLBRACK))"
            "pays km sp (Inr (bracket sp sp1 km ch TOK_RBRACK TOK_RRBRACK))"
            by (rule bracket_pays [OF g]; simp add: quoted_def)+
        qed (use other n in \<open>simp_all add: scan_literal_pays scan_nonstring_pays\<close>)
      qed
    qed
  qed
qed

lemma check_overflow_left: "check_overflow sp tok = Inr sp' \<Longrightarrow> cur sp' = cur sp"
  by (auto simp: check_overflow_def split: toktyp.splits if_splits)

lemma scan_pays: "pays True sp (scan_key sp)" "pays False sp (scan_value sp)"
proof -
  have "pays km sp (scan_mode km sp)" for km
    using scan_next_pays [of km sp]
    by (force simp: pays_def scan_mode_def split: sum.splits prod.splits dest!: check_overflow_left)
  then show "pays True sp (scan_key sp)" "pays False sp (scan_value sp)"
    by (simp_all add: scan_key_def scan_value_def)
qed

lemma value_cost:
  assumes "scan_value sp = Inr (tok, sp')" and "toktyp tok \<noteq> TOK_FIN"
  shows "left sp' < left sp"
proof -
  have "left sp' + cost tok \<le> left sp" "toktyp tok \<noteq> TOK_LIT"
    using scan_pays(2) [of sp] assms(1) by (auto simp: pays_def)
  moreover from this(2) assms(2) have "0 < cost tok" by (simp add: cost_def)
  ultimately show ?thesis by simp
qed

section \<open>The parser\<close>

text \<open>
  A step of the parser that leaves the tree alone: it does not gain input, and the pool and
  the rest of the input together grow by at most \<open>k\<close>.
\<close>

definition moves :: "nat \<Rightarrow> parser \<Rightarrow> parser \<Rightarrow> bool" where
  "moves k pp pp' \<longleftrightarrow>
     toptab pp' = toptab pp \<and> curtab pp' = curtab pp \<and> pool_max pp' = pool_max pp \<and>
     left (scan pp') \<le> left (scan pp) \<and>
     pool_top pp' + left (scan pp') \<le> pool_top pp + left (scan pp) + k"

lemma moves_refl [simp, intro]: "moves k pp pp"
  by (simp add: moves_def)

lemma moves_trans: "moves j pp pp1 \<Longrightarrow> moves k pp1 pp2 \<Longrightarrow> j + k \<le> m \<Longrightarrow> moves m pp pp2"
  by (auto simp: moves_def)

lemma moves_mono: "moves j pp pp' \<Longrightarrow> j \<le> k \<Longrightarrow> moves k pp pp'"
  by (auto simp: moves_def)

text \<open>Scanning a token and then paying at most its cost is free.\<close>

lemma moves_scan:
  assumes "pays km (scan pp) r" and "r = Inr (tok, sp)" and "moves (k + cost tok) (pp\<lparr>scan := sp\<rparr>) pp'"
  shows "moves k pp pp'"
  using assms paysD [OF assms(1,2)] by (auto simp: moves_def)

lemma parse_norm_moves: "parse_norm tok pp = Inr (s, pp') \<Longrightarrow> moves (Suc (length (tok_str tok))) pp pp'"
  by (auto simp: parse_norm_def pool_alloc_def moves_def split: option.splits if_splits sum.splits tokval.splits)

lemma keypart_cost: "is_keypart tok \<Longrightarrow> length (tok_str tok) \<le> cost tok"
  by (auto simp: is_keypart_def cost_def quoted_def)

lemma quoted_cost: "toktyp tok \<in> quoted \<Longrightarrow> Suc (length (tok_str tok)) \<le> cost tok"
  by (auto simp: cost_def quoted_def)

lemma key_loop_moves: "key_loop parts pp = Inr (keys, pp') \<Longrightarrow> moves 0 pp pp' \<and> (parts \<noteq> [] \<longrightarrow> keys \<noteq> [])"
proof (induction parts pp rule: key_loop.induct)
  case (1 parts pp)
  obtain tok sp1 where s1: "scan_key (scan pp) = Inr (tok, sp1)"
    using "1.prems" by (cases "scan_key (scan pp)") (auto simp: key_loop.simps [of parts pp])
  show ?case
  proof (cases "toktyp tok = TOK_DOT")
    case False
    with "1.prems" s1 show ?thesis
      by (auto simp: key_loop.simps [of parts pp] moves_def scan_restore_def scan_mark_def Let_def)
  next
    case True
    obtain tok2 sp2 where s2: "scan_key sp1 = Inr (tok2, sp2)"
      using "1.prems" s1 True by (cases "scan_key sp1") (auto simp: key_loop.simps [of parts pp])
    obtain s pp1 where n: "is_keypart tok2" "\<not> KEYPARTMAX \<le> length parts"
      "parse_norm tok2 (pp\<lparr>scan := sp2\<rparr>) = Inr (s, pp1)" "key_loop (parts @ [s]) pp1 = Inr (keys, pp')"
      using "1.prems" s1 s2 True by (auto simp: key_loop.simps [of parts pp] Let_def split: if_splits sum.splits)
    have "moves 0 pp1 pp' \<and> keys \<noteq> []"
      using "1.IH" [OF refl s1 refl _ s2 refl _ _ n(3) refl n(4)] True n by simp
    moreover have "cost tok = 1" using True by (simp add: cost_def quoted_def)
    then have "moves 0 pp pp1"
      using paysD [OF scan_pays(1) s1] paysD [OF scan_pays(1) s2] parse_norm_moves [OF n(3)]
        keypart_cost [OF n(1)]
      by (auto simp: moves_def)
    ultimately show ?thesis by (auto intro: moves_trans)
  qed
qed

lemma parse_key_moves: "parse_key tok pp = Inr (keys, pp') \<Longrightarrow> moves (Suc (cost tok)) pp pp' \<and> keys \<noteq> []"
  by (force simp: parse_key_def moves_def split: if_splits sum.splits
      dest!: parse_norm_moves key_loop_moves keypart_cost)

lemma inline_key_moves:
  assumes "inline_key tok tab pp = Inr (tab', path, key, val, pp')"
  shows "left (scan pp') < left (scan pp)"
    "moves (cost tok) pp (pp'\<lparr>pool_top := pool_top pp' + cost val\<rparr>)"
proof -
  obtain keys pp1 eq sp2 sp3 where k: "parse_key tok pp = Inr (keys, pp1)"
    and e: "scan_value (scan pp1) = Inr (eq, sp2)" "toktyp eq = TOK_EQUAL"
    and v: "scan_value sp2 = Inr (val, sp3)" and p: "pp' = pp1\<lparr>scan := sp3\<rparr>"
    using assms by (auto simp: inline_key_def split: sum.splits if_splits)
  have c: "cost eq = 1" using e(2) by (simp add: cost_def quoted_def)
  show "left (scan pp') < left (scan pp)"
    "moves (cost tok) pp (pp'\<lparr>pool_top := pool_top pp' + cost val\<rparr>)"
    using conjunct1 [OF parse_key_moves [OF k]] paysD [OF scan_pays(2) e(1)] paysD [OF scan_pays(2) v] c p
    by (auto simp: moves_def)
qed

text \<open>Values.\<close>

definition steady :: "nat \<Rightarrow> parser \<Rightarrow> (string + 'a \<times> parser) option \<Rightarrow> bool" where
  "steady k pp r \<longleftrightarrow> (\<forall>v pp'. r = Some (Inr (v, pp')) \<longrightarrow> moves k pp pp')"

lemma steadyD: "steady k pp r \<Longrightarrow> r = Some (Inr (v, pp')) \<Longrightarrow> moves k pp pp'"
  by (simp add: steady_def)

lemma steady_simps [simp]:
  "steady k pp None" "steady k pp (Some (Inl e))" "steady k pp (Some (Inr (v, pp')) :: (string + 'a \<times> parser) option) = moves k pp pp'"
  by (auto simp: steady_def)

lemma steady_scan:
  assumes "scan_key (scan pp) = Inr (tok, sp) \<or> scan_value (scan pp) = Inr (tok, sp)"
    and "steady (k + cost tok) (pp\<lparr>scan := sp\<rparr>) r"
  shows "steady k pp r"
  using assms moves_scan [OF scan_pays(1)] moves_scan [OF scan_pays(2)] by (auto simp: steady_def)

lemma steady_then:
  assumes "moves j pp pp1" and "steady k pp1 r" and "j + k \<le> m"
  shows "steady m pp r"
  using assms by (auto simp: steady_def intro: moves_trans)

lemma token_to_string_steady:
  "toktyp tok \<in> quoted \<Longrightarrow> steady (cost tok) pp (Some (token_to_string tok pp))"
  using quoted_cost [of tok]
  by (auto simp: token_to_string_def split: sum.splits dest!: parse_norm_moves elim: moves_mono)

lemma inline_key_then:
  assumes "inline_key tok tab pp = Inr (tab', path, key, val, pp1)"
    and "moves (cost val) pp1 pp2" and "steady 0 pp2 r"
  shows "steady (cost tok) pp r"
proof -
  have "steady (cost val) pp1 r" using steady_then [OF assms(2,3)] by simp
  with inline_key_moves [OF assms(1)] show ?thesis by (auto simp: steady_def moves_def)
qed

lemma values_steady:
  "steady (cost tok) pp (parse_val n tok pp)"
  "steady 0 pp (array_loop n arr need pp)"
  "steady 0 pp (table_loop n tab need pp)"
proof (induction n tok pp and n arr need pp and n tab need pp
    rule: parse_val_array_loop_table_loop.induct)
  case (2 n tok pp)
  have mono: "steady 0 pp r \<Longrightarrow> steady (cost tok) pp r" for r :: "(string + datum \<times> parser) option"
    by (auto simp: steady_def intro: moves_mono)
  show ?case
    using token_to_string_steady [of tok pp] 2 mono
    by (auto simp: quoted_def simp del: array_loop.simps table_loop.simps split: toktyp.splits)
next
  case (4 n arr need pp)
  show ?case
  proof (cases "scan_value (scan pp)")
    case (Inr r)
    then obtain tok sp where s: "scan_value (scan pp) = Inr (tok, sp)" by (cases r) auto
    show ?thesis
    proof (rule steady_scan)
      show "scan_key (scan pp) = Inr (tok, sp) \<or> scan_value (scan pp) = Inr (tok, sp)" using s by simp
      let ?pp = "pp\<lparr>scan := sp\<rparr>"
      have up: "steady 0 ?pp q \<Longrightarrow> steady (cost tok) ?pp q" for q :: "(string + datum \<times> parser) option"
        by (auto simp: steady_def intro: moves_mono)
      show "steady (0 + cost tok) ?pp (array_loop (Suc n) arr need pp)"
        using 4 [OF s refl] s
        by (auto simp del: parse_val.simps split: sum.splits option.splits
            intro: up steady_then [where j = "cost tok" and k = 0])
    qed
  qed simp
next
  case (6 n tab need pp)
  show ?case
  proof (cases "scan_key (scan pp)")
    case (Inr r)
    then obtain tok sp where s: "scan_key (scan pp) = Inr (tok, sp)" by (cases r) auto
    show ?thesis
    proof (rule steady_scan)
      show "scan_key (scan pp) = Inr (tok, sp) \<or> scan_value (scan pp) = Inr (tok, sp)" using s by simp
      let ?pp = "pp\<lparr>scan := sp\<rparr>"
      have up: "steady 0 ?pp q \<Longrightarrow> steady (cost tok) ?pp q" for q :: "(string + datum \<times> parser) option"
        by (auto simp: steady_def intro: moves_mono)
      have entry: "steady (cost tok) ?pp (table_loop n (put_at tab' path t) True pp2)"
        if c: "toktyp tok \<noteq> TOK_RBRACE" "toktyp tok \<noteq> TOK_COMMA" "toktyp tok \<noteq> TOK_ENDL" "\<not> need"
          and k: "inline_key tok tab ?pp = Inr (tab', path, key, val, pp1)"
          and p: "parse_val n val pp1 = Some (Inr (v, pp2))" and a: "tab_add (datum_at tab' path) key v = Inr t"
        for tab' path key val pp1 v pp2 t
      proof (rule inline_key_then [OF k])
        show "moves (cost val) pp1 pp2" "steady 0 pp2 (table_loop n (put_at tab' path t) True pp2)"
          using 6 [OF s refl] c k p a by auto
      qed
      show "steady (0 + cost tok) ?pp (table_loop (Suc n) tab need pp)"
        using 6 [OF s refl] s entry
        by (auto simp del: parse_val.simps split: sum.splits option.splits prod.splits intro: up)
    qed
  qed simp
qed simp_all

text \<open>Twice the rest of the input, and a little more, is enough.\<close>

lemma values_left:
  "parse_val n tok pp = Some (Inr (v, pp')) \<Longrightarrow> left (scan pp') \<le> left (scan pp)"
  using values_steady(1) [of tok pp n] by (auto simp: steady_def moves_def)

lemma key_token_left:
  "scan_key (scan pp) = Inr (tok, sp) \<Longrightarrow> toktyp tok \<in> {TOK_COMMA, TOK_ENDL} \<Longrightarrow> left sp < left (scan pp)"
  using paysD [OF scan_pays(1), of "scan pp" tok sp] by (auto simp: cost_def quoted_def)

lemma values_total:
  "2 * left (scan pp) + 3 \<le> n \<Longrightarrow> parse_val n tok pp \<noteq> None"
  "2 * left (scan pp) + 2 \<le> n \<Longrightarrow> array_loop n arr need pp \<noteq> None"
  "2 * left (scan pp) + 2 \<le> n \<Longrightarrow> table_loop n tab need pp \<noteq> None"
proof (induction n tok pp and n arr need pp and n tab need pp
    rule: parse_val_array_loop_table_loop.induct)
  case (2 n tok pp)
  then show ?case by (simp del: array_loop.simps table_loop.simps split: toktyp.split)
next
  case (4 n arr need pp)
  show ?case
  proof (cases "scan_value (scan pp)")
    case (Inr r)
    then obtain tok sp where s: "scan_value (scan pp) = Inr (tok, sp)" by (cases r) auto
    show ?thesis
    proof (cases "toktyp tok = TOK_FIN")
      case True
      with s "4.prems" show ?thesis by (cases n) auto
    next
      case False
      note lt = value_cost [OF s False]
      note IH = "4.IH" [OF s refl]
      have skip: "array_loop n arr False (pp\<lparr>scan := sp\<rparr>) \<noteq> None" if "toktyp tok = TOK_COMMA" "need"
        using IH(2) that lt "4.prems" by simp
      have endl: "array_loop n arr need (pp\<lparr>scan := sp\<rparr>) \<noteq> None" if "toktyp tok = TOK_ENDL"
        using IH(1) that lt "4.prems" by simp
      have val: "parse_val n tok (pp\<lparr>scan := sp\<rparr>) \<noteq> None"
        if "toktyp tok \<noteq> TOK_ENDL" "toktyp tok \<noteq> TOK_RBRACK" "toktyp tok \<noteq> TOK_COMMA" "\<not> need"
        using IH(3) that lt "4.prems" by simp
      have add: "array_loop n (arr_set arr' i v) True q \<noteq> None"
        if "toktyp tok \<noteq> TOK_ENDL" "toktyp tok \<noteq> TOK_RBRACK" "toktyp tok \<noteq> TOK_COMMA" "\<not> need"
          and p: "parse_val n tok (pp\<lparr>scan := sp\<rparr>) = Some (Inr (v, q))" "arr_emplace arr = Inr (arr', i)"
        for v q arr' i
        using IH(4) that lt "4.prems" values_left [OF p(1)] by simp
      consider "toktyp tok = TOK_ENDL" | "toktyp tok = TOK_RBRACK" | "toktyp tok = TOK_COMMA"
        | "toktyp tok \<noteq> TOK_ENDL" "toktyp tok \<noteq> TOK_RBRACK" "toktyp tok \<noteq> TOK_COMMA" "need"
      | "toktyp tok \<noteq> TOK_ENDL" "toktyp tok \<noteq> TOK_RBRACK" "toktyp tok \<noteq> TOK_COMMA" "\<not> need" by blast
      then show ?thesis
        by cases (use s skip endl val add in \<open>auto simp del: parse_val.simps split: sum.split option.split\<close>)
    qed
  qed simp
next
  case (6 n tab need pp)
  show ?case
  proof (cases "scan_key (scan pp)")
    case (Inr r)
    then obtain tok sp where s: "scan_key (scan pp) = Inr (tok, sp)" by (cases r) auto
    have le: "left sp \<le> left (scan pp)" using paysD [OF scan_pays(1) s] by simp
    note IH = "6.IH" [OF s refl]
    have skip: "table_loop n tab False (pp\<lparr>scan := sp\<rparr>) \<noteq> None" if "toktyp tok = TOK_COMMA" "need"
      using IH(1) that key_token_left [OF s] "6.prems" by simp
    have endl: "table_loop n tab need (pp\<lparr>scan := sp\<rparr>) \<noteq> None" if "toktyp tok = TOK_ENDL"
      using IH(2) that key_token_left [OF s] "6.prems" by simp
    have entry: "parse_val n val pp1 \<noteq> None \<and>
        (\<forall>v pp2 t. parse_val n val pp1 = Some (Inr (v, pp2)) \<longrightarrow> tab_add (datum_at tab' path) key v = Inr t \<longrightarrow>
          table_loop n (put_at tab' path t) True pp2 \<noteq> None)"
      if "toktyp tok \<noteq> TOK_ENDL" "toktyp tok \<noteq> TOK_RBRACE" "toktyp tok \<noteq> TOK_COMMA" "\<not> need"
        and k: "inline_key tok tab (pp\<lparr>scan := sp\<rparr>) = Inr (tab', path, key, val, pp1)"
      for tab' path key val pp1
      using IH(3,4) that le inline_key_moves(1) [OF k] values_left [of n val pp1] "6.prems" by fastforce
    consider "toktyp tok = TOK_ENDL" | "toktyp tok = TOK_RBRACE" | "toktyp tok = TOK_COMMA"
      | "toktyp tok \<noteq> TOK_ENDL" "toktyp tok \<noteq> TOK_RBRACE" "toktyp tok \<noteq> TOK_COMMA" "need"
      | "toktyp tok \<noteq> TOK_ENDL" "toktyp tok \<noteq> TOK_RBRACE" "toktyp tok \<noteq> TOK_COMMA" "\<not> need" by blast
    then show ?thesis
      by cases (use s skip endl entry in \<open>auto simp del: parse_val.simps split: sum.split option.split\<close>)
  qed simp
qed simp_all

section \<open>Expressions and documents\<close>

text \<open>The part of the pool in use and the rest of the input.\<close>

definition pot :: "parser \<Rightarrow> nat" where
  "pot pp = pool_top pp + left (scan pp)"

lemma moves_pot: "moves k pp pp' \<Longrightarrow> pot pp' \<le> pot pp + k \<and> left (scan pp') \<le> left (scan pp)"
  by (simp add: moves_def pot_def)

lemma header_moves:
  assumes "scan_key (scan pp) = Inr (tok, sp1)" and "parse_key tok (pp\<lparr>scan := sp1\<rparr>) = Inr (keys, pp1)"
    and "scan_key (scan pp1) = Inr (rb, sp2)" and "toktyp rb \<in> {TOK_RBRACK, TOK_RRBRACK, TOK_EQUAL}"
  shows "left sp2 < left (scan pp)" "pool_top pp1 + left sp2 \<le> pot pp" "toptab pp1 = toptab pp" "keys \<noteq> []"
    "pool_max pp1 = pool_max pp" "curtab pp1 = curtab pp"
proof -
  have "cost rb = 1" using assms(4) by (auto simp: cost_def quoted_def)
  then show "left sp2 < left (scan pp)" "pool_top pp1 + left sp2 \<le> pot pp" "toptab pp1 = toptab pp" "keys \<noteq> []"
    "pool_max pp1 = pool_max pp" "curtab pp1 = curtab pp"
    using paysD [OF scan_pays(1) assms(1)] parse_key_moves [OF assms(2)] paysD [OF scan_pays(1) assms(3)]
    by (auto simp: moves_def pot_def)
qed

lemma parse_std_left:
  "parse_std_table_expr pp = Inr pp' \<Longrightarrow>
     left (scan pp') < left (scan pp) \<and> pot pp' \<le> pot pp \<and> pool_max pp' = pool_max pp"
  by (auto simp: parse_std_table_expr_def pot_def [of pp'] header_moves split: sum.splits prod.splits if_splits)

lemma parse_array_table_left:
  "parse_array_table_expr pp = Inr pp' \<Longrightarrow>
     left (scan pp') < left (scan pp) \<and> pot pp' \<le> pot pp \<and> pool_max pp' = pool_max pp"
  by (auto simp: parse_array_table_expr_def pot_def [of pp'] header_moves split: sum.splits prod.splits if_splits)

text \<open>The parts of a successful \<open>key = value\<close>.\<close>

lemma parse_keyvalue_cases:
  assumes "parse_keyvalue_expr n tok pp = Some (Inr pp')"
  obtains keys pp1 eq sp2 tab1 path val sp3 v pp2 t where
    "parse_key tok pp = Inr (keys, pp1)" "scan_key (scan pp1) = Inr (eq, sp2)" "toktyp eq = TOK_EQUAL"
    "keyvalue_walk (tok_lineno tok) True (datum_at (toptab pp1) (curtab pp1)) (butlast keys) = Inr (tab1, path)"
    "\<not> has_flag FLAG_INLINED (datum_at tab1 path)"
    "\<not> (1 < length keys \<and> has_flag FLAG_EXPLICIT (datum_at tab1 path))"
    "scan_value sp2 = Inr (val, sp3)" "parse_val n val (pp1\<lparr>scan := sp3\<rparr>) = Some (Inr (v, pp2))"
    "tab_add (datum_at tab1 path) (last keys) v = Inr t"
    "pp' = pp2\<lparr>toptab := put_at (toptab pp2) (curtab pp2) (put_at tab1 path t)\<rparr>"
  using assms unfolding parse_keyvalue_expr_def Let_def
  by (auto split: sum.splits option.splits if_splits simp del: parse_val.simps keyvalue_walk.simps)

lemma parse_keyvalue_left:
  assumes "parse_keyvalue_expr n tok pp = Some (Inr pp')"
  shows "left (scan pp') < left (scan pp)" "pot pp' \<le> pot pp + cost tok" "pool_max pp' = pool_max pp"
proof -
  obtain keys pp1 eq sp2 val sp3 v pp2 d where k: "parse_key tok pp = Inr (keys, pp1)"
    and e: "scan_key (scan pp1) = Inr (eq, sp2)" "toktyp eq = TOK_EQUAL"
    and v: "scan_value sp2 = Inr (val, sp3)" "parse_val n val (pp1\<lparr>scan := sp3\<rparr>) = Some (Inr (v, pp2))"
    and p: "pp' = pp2\<lparr>toptab := d\<rparr>"
    by (rule parse_keyvalue_cases [OF assms])
  have c: "cost eq = 1" using e(2) by (simp add: cost_def quoted_def)
  show "left (scan pp') < left (scan pp)" "pot pp' \<le> pot pp + cost tok" "pool_max pp' = pool_max pp"
    using parse_key_moves [OF k] paysD [OF scan_pays(1) e(1)] paysD [OF scan_pays(2) v(1)] c p
      steadyD [OF values_steady(1) v(2)]
    by (auto simp: moves_def pot_def)
qed

lemma parse_keyvalue_total:
  assumes "2 * left (scan pp) + 1 \<le> n"
  shows "parse_keyvalue_expr n tok pp \<noteq> None"
proof
  assume "parse_keyvalue_expr n tok pp = None"
  then obtain keys pp1 eq sp2 val sp3 where k: "parse_key tok pp = Inr (keys, pp1)"
    and e: "scan_key (scan pp1) = Inr (eq, sp2)" "toktyp eq = TOK_EQUAL"
    and v: "scan_value sp2 = Inr (val, sp3)" "parse_val n val (pp1\<lparr>scan := sp3\<rparr>) = None"
    unfolding parse_keyvalue_expr_def Let_def
    by (auto split: sum.splits option.splits if_splits simp del: parse_val.simps keyvalue_walk.simps)
  have "cost eq = 1" using e(2) by (simp add: cost_def quoted_def)
  then have "left sp3 < left (scan pp)"
    using parse_key_moves [OF k] paysD [OF scan_pays(1) e(1)] paysD [OF scan_pays(2) v(1)]
    by (auto simp: moves_def)
  with values_total(1) [of "pp1\<lparr>scan := sp3\<rparr>" n val] assms v(2) show False by simp
qed

lemma parse_expr_left:
  assumes "parse_expr n tok pp = Some (Inr pp')"
  shows "left (scan pp') < left (scan pp)" "pot pp' \<le> pot pp + cost tok" "pool_max pp' = pool_max pp"
  using assms parse_std_left [of pp pp'] parse_array_table_left [of pp pp'] parse_keyvalue_left [of n tok pp pp']
  by (auto simp: parse_expr_def split: if_splits)

lemma parse_expr_total: "2 * left (scan pp) + 1 \<le> n \<Longrightarrow> parse_expr n tok pp \<noteq> None"
  using parse_keyvalue_total by (simp add: parse_expr_def)

lemma doc_loop_total: "2 * left (scan pp) + 2 \<le> n \<Longrightarrow> doc_loop n pp \<noteq> None"
proof (induction n arbitrary: pp)
  case (Suc n)
  show ?case
  proof (cases "scan_key (scan pp)")
    case (Inr r)
    then obtain tok sp1 where s: "scan_key (scan pp) = Inr (tok, sp1)" by (cases r) auto
    note p = paysD [OF scan_pays(1) s]
    have endl: "doc_loop n (pp\<lparr>scan := sp1\<rparr>) \<noteq> None" if "toktyp tok = TOK_ENDL"
      using Suc.IH [of "pp\<lparr>scan := sp1\<rparr>"] Suc.prems key_token_left [OF s] that by simp
    have expr: "parse_expr n tok (pp\<lparr>scan := sp1\<rparr>) \<noteq> None"
      using p Suc.prems by (simp add: parse_expr_total)
    have rest: "doc_loop n (pp1\<lparr>scan := sp2\<rparr>) \<noteq> None"
      if e: "parse_expr n tok (pp\<lparr>scan := sp1\<rparr>) = Some (Inr pp1)" and s2: "scan_key (scan pp1) = Inr (tok2, sp2)"
      for pp1 tok2 sp2
      using Suc.IH [of "pp1\<lparr>scan := sp2\<rparr>"] Suc.prems p parse_expr_left(1) [OF e] paysD [OF scan_pays(1) s2] by simp
    show ?thesis using s endl expr rest by (auto split: sum.split option.split)
  qed simp
qed simp

lemma toml_parse_total: "toml_parse opt buf len \<noteq> None"
proof -
  have "doc_loop (parse_fuel src) (parser_init src) \<noteq> None" for src
    by (rule doc_loop_total) (simp add: parse_fuel_def parser_init_def scan_init_def)
  then show ?thesis by (auto simp: toml_parse_def Let_def split: option.splits)
qed

end
