(* ===== verification/Toml_Shape.thy ===== *)
theory Toml_Shape
  imports Toml_Progress
begin

text \<open>
  The tree that the parser builds: it stays well formed, its current table is a table, and
  no expression takes away or changes what earlier ones have put into it.
\<close>

section \<open>Well-formed trees\<close>

text \<open>
  Distinct keys, sizes within their limits, every value of a known type, and the mark of
  header tables on tables only.
\<close>

function tree_ok :: "datum \<Rightarrow> bool" where
  "tree_ok (DTable f kvs) \<longleftrightarrow>
     distinct (map fst kvs) \<and> length kvs \<le> TABLE_MAX \<and> (\<forall>kv \<in> set kvs. tree_ok (snd kv))"
| "tree_ok (DArray f xs) \<longleftrightarrow>
     f AND FLAG_STDEXPR = 0 \<and> length xs \<le> ARRAY_MAX \<and> (\<forall>x \<in> set xs. tree_ok x)"
| "tree_ok (DUnknown f) = False"
| "tree_ok (DString f s) \<longleftrightarrow> f AND FLAG_STDEXPR = 0"
| "tree_ok (DInt64 f i) \<longleftrightarrow> f AND FLAG_STDEXPR = 0"
| "tree_ok (DFp64 f x) \<longleftrightarrow> f AND FLAG_STDEXPR = 0"
| "tree_ok (DBoolean f b) \<longleftrightarrow> f AND FLAG_STDEXPR = 0"
| "tree_ok (DDate f t) \<longleftrightarrow> f AND FLAG_STDEXPR = 0"
| "tree_ok (DTime f t) \<longleftrightarrow> f AND FLAG_STDEXPR = 0"
| "tree_ok (DDatetime f t) \<longleftrightarrow> f AND FLAG_STDEXPR = 0"
| "tree_ok (DDatetimetz f t) \<longleftrightarrow> f AND FLAG_STDEXPR = 0"
  by pat_completeness auto
termination
proof (relation "measure size", goal_cases)
  case (2 f kvs kv)
  then have "size (snd kv) < Suc (size_list (size_prod (\<lambda>_. 0) size) kvs)"
    by (induction kvs) (auto split: prod.splits)
  then show ?case by (simp add: size_list_conv_sum_list)
qed (auto simp: less_Suc_eq_le size_list_estimation')

lemma tree_ok_good: "tree_ok d \<Longrightarrow> good_value d"
  by (cases d) (auto simp: good_value_def)

lemma tree_ok_wf: "tree_ok d \<Longrightarrow> wf_datum d \<and> typed d"
  by (induction d rule: tree_ok.induct) auto

lemma tree_ok_mkdatum [simp]: "ty \<noteq> TOML_UNKNOWN \<Longrightarrow> tree_ok (mkdatum ty)"
  by (cases ty) auto

text \<open>Flags other than the mark of header tables do not matter.\<close>

lemma std_flag:
  "(f OR FLAG_INLINED) AND FLAG_STDEXPR = f AND FLAG_STDEXPR"
  "(f OR FLAG_EXPLICIT) AND FLAG_STDEXPR = f AND FLAG_STDEXPR"
  by (simp_all add: FLAG_INLINED_def FLAG_STDEXPR_def FLAG_EXPLICIT_def bit.conj_disj_distrib2)

lemma tree_ok_inlined: "tree_ok d \<Longrightarrow> tree_ok (set_flag_recursive FLAG_INLINED d)"
  by (induction d rule: tree_ok.induct)
    (auto simp: std_flag case_prod_unfold comp_def)

lemma tree_ok_table_flag: "tree_ok d \<Longrightarrow> dtype d = TOML_TABLE \<Longrightarrow> tree_ok (set_flag g d)"
  by (cases d) auto

lemma tree_ok_new_table [simp]: "tree_ok (new_table b)" "dtype (new_table b) = TOML_TABLE"
  by (simp_all add: new_table_def)

section \<open>What later expressions keep\<close>

datatype step = Key string | Idx nat

text \<open>The value that a sequence of keys and array indices leads to.\<close>

fun reach :: "datum \<Rightarrow> step list \<Rightarrow> datum option" where
  "reach d [] = Some d"
| "reach (DTable f kvs) (Key k # p) = (case map_of kvs k of None \<Rightarrow> None | Some v \<Rightarrow> reach v p)"
| "reach (DArray f xs) (Idx i # p) = (if i < length xs then reach (xs ! i) p else None)"
| "reach d (s # p) = None"

definition scalar :: "datum \<Rightarrow> bool" where
  "scalar d \<longleftrightarrow> dtype d \<noteq> TOML_TABLE \<and> dtype d \<noteq> TOML_ARRAY"

text \<open>Everything that is there stays: scalars as they are, tables and arrays as such.\<close>

definition keeps :: "datum \<Rightarrow> datum \<Rightarrow> bool" where
  "keeps d d' \<longleftrightarrow>
     (\<forall>p v. reach d p = Some v \<longrightarrow>
        (\<exists>v'. reach d' p = Some v' \<and> dtype v' = dtype v \<and> (scalar v \<longrightarrow> v' = v)))"

lemma keeps_refl [simp, intro]: "keeps d d"
  by (simp add: keeps_def)

lemma keeps_trans: "keeps a b \<Longrightarrow> keeps b c \<Longrightarrow> keeps a c"
  unfolding keeps_def scalar_def by metis

lemma keeps_dtype: "keeps d d' \<Longrightarrow> dtype d' = dtype d"
  by (metis keeps_def option.inject reach.simps(1))

lemma keeps_table:
  assumes "\<And>k v. map_of kvs k = Some v \<Longrightarrow> \<exists>v'. map_of lws k = Some v' \<and> keeps v v'"
  shows "keeps (DTable f kvs) (DTable g lws)"
  unfolding keeps_def
proof (intro allI impI)
  fix p v
  assume r: "reach (DTable f kvs) p = Some v"
  show "\<exists>v'. reach (DTable g lws) p = Some v' \<and> dtype v' = dtype v \<and> (scalar v \<longrightarrow> v' = v)"
  proof (cases p)
    case Nil
    with r show ?thesis by (auto simp: scalar_def)
  next
    case (Cons s q)
    with r obtain k w where w: "s = Key k" "map_of kvs k = Some w" "reach w q = Some v"
      by (cases s) (auto split: option.splits)
    with assms [of k w] Cons show ?thesis by (auto simp: keeps_def)
  qed
qed

lemma keeps_array:
  assumes "length xs \<le> length ys" and "\<And>i. i < length xs \<Longrightarrow> keeps (xs ! i) (ys ! i)"
  shows "keeps (DArray f xs) (DArray g ys)"
  unfolding keeps_def
proof (intro allI impI)
  fix p v
  assume r: "reach (DArray f xs) p = Some v"
  show "\<exists>v'. reach (DArray g ys) p = Some v' \<and> dtype v' = dtype v \<and> (scalar v \<longrightarrow> v' = v)"
  proof (cases p)
    case Nil
    with r show ?thesis by (auto simp: scalar_def)
  next
    case (Cons s q)
    with r obtain i where w: "s = Idx i" "i < length xs" "reach (xs ! i) q = Some v"
      by (cases s) (auto split: if_splits)
    with assms Cons show ?thesis by (auto simp: keeps_def)
  qed
qed

lemma keeps_flag: "dtype d = TOML_TABLE \<Longrightarrow> keeps d (set_flag g d)"
  by (cases d) (auto intro: keeps_table)

section \<open>Changing a tree at a place\<close>

lemma map_of_nth_distinct:
  "distinct (map fst kvs) \<Longrightarrow> i < length kvs \<Longrightarrow> map_of kvs (fst (kvs ! i)) = Some (snd (kvs ! i))"
  by (metis map_of_eq_Some_iff nth_mem prod.collapse)

lemma map_of_tab_set:
  assumes "distinct (map fst kvs)" and "i < length kvs"
  shows "map_of (kvs[i := (fst (kvs ! i), v)]) = (map_of kvs)(fst (kvs ! i) \<mapsto> v)"
proof (rule map_of_update_slot, rule find_slot_SomeI)
  fix j
  assume "j < i"
  then have "map fst kvs ! j \<noteq> map fst kvs ! i"
    using assms by (auto simp: nth_eq_iff_index_eq simp del: nth_map)
  then show "fst (kvs ! j) \<noteq> fst (kvs ! i)" using assms(2) \<open>j < i\<close> by simp
qed (use assms in simp_all)

lemma keys_tab_set: "map fst (kvs[i := (fst (kvs ! i), v)]) = map fst kvs"
  by (cases "i < length kvs") (simp_all add: map_update list_update_same_conv list_update_beyond)

text \<open>A place that holds a table, which no invalid place does.\<close>

definition tab_place :: "datum \<Rightarrow> nat list \<Rightarrow> bool" where
  "tab_place d p \<longleftrightarrow> dtype (datum_at d p) = TOML_TABLE"

lemma datum_at_append: "datum_at d (p @ q) = datum_at (datum_at d p) q"
proof (induction d p rule: datum_at.induct)
  case (2 f kvs i p)
  then show ?case by (cases q) (auto simp: DATUM_ZERO_def)
next
  case (3 f xs i p)
  then show ?case by (cases q) (auto simp: DATUM_ZERO_def)
qed (cases q; simp add: DATUM_ZERO_def)+

lemma datum_at_put_at: "datum_at d p \<noteq> DATUM_ZERO \<Longrightarrow> datum_at (put_at d p v) p = v"
  by (induction d p v rule: put_at.induct) (auto split: if_splits)

lemma tab_place_nonzero: "tab_place d p \<Longrightarrow> datum_at d p \<noteq> DATUM_ZERO"
  by (auto simp: tab_place_def)

lemma tree_ok_at: "tree_ok d \<Longrightarrow> datum_at d p \<noteq> DATUM_ZERO \<Longrightarrow> tree_ok (datum_at d p)"
  by (induction d p rule: datum_at.induct) (auto split: if_splits)

lemma tree_ok_put: "tree_ok d \<Longrightarrow> tree_ok v \<Longrightarrow> tree_ok (put_at d p v)"
proof (induction d p v rule: put_at.induct)
  case (2 f kvs i p v)
  then show ?case
    using keys_tab_set [of kvs i] set_update_subset_insert [of kvs i] by fastforce
next
  case (3 f xs i p v)
  then show ?case using set_update_subset_insert [of xs i] by fastforce
qed auto

lemma keeps_put: "tree_ok d \<Longrightarrow> keeps (datum_at d p) v \<Longrightarrow> keeps d (put_at d p v)"
proof (induction d p v rule: put_at.induct)
  case (2 f kvs i p v)
  show ?case
  proof (cases "i < length kvs")
    case True
    have k: "keeps (snd (kvs ! i)) (put_at (snd (kvs ! i)) p v)" using 2 True by simp
    have "\<exists>w'. map_of (kvs[i := (fst (kvs ! i), put_at (snd (kvs ! i)) p v)]) key = Some w' \<and> keeps w w'"
      if w: "map_of kvs key = Some w" for key w
    proof (cases "key = fst (kvs ! i)")
      case eq: True
      with w "2.prems"(1) True map_of_nth_distinct [of kvs i] have "w = snd (kvs ! i)" by simp
      with k eq "2.prems"(1) True show ?thesis by (simp add: map_of_tab_set)
    qed (use w "2.prems"(1) True in \<open>auto simp: map_of_tab_set\<close>)
    then show ?thesis using True by (auto intro: keeps_table)
  qed simp
next
  case (3 f xs i p v)
  then show ?case by (auto intro!: keeps_array simp: nth_list_update)
qed auto

lemma dtype_put: "keeps (datum_at d p) v \<Longrightarrow> tree_ok d \<Longrightarrow> dtype (put_at d p v) = dtype d"
  by (rule keeps_dtype) (rule keeps_put)

section \<open>The insertions of the parser\<close>

text \<open>Adding a key to a table of typed values succeeds for a new key only, and appends it.\<close>

lemma tab_add_cases:
  assumes "tree_ok t" and "tab_add t k v = Inr t'"
  obtains f kvs where "t = DTable f kvs" "t' = DTable f (kvs @ [(k, v)])" "map_of kvs k = None"
    "length kvs < TABLE_MAX"
proof (cases t)
  case (DTable f kvs)
  show ?thesis
  proof (cases "map_of kvs k")
    case None
    then have "length kvs < TABLE_MAX"
      using assms DTable tab_add_full [of kvs k f v] by (cases "TABLE_MAX \<le> length kvs") auto
    with None tab_add_new [of kvs k f v] assms DTable that show ?thesis by auto
  next
    case (Some w)
    then have "good_value w" using assms(1) DTable map_of_SomeD [OF Some] by (force intro: tree_ok_good)
    with Some tab_add_dup [of kvs k w f v] assms DTable show ?thesis by simp
  qed
qed (use assms in \<open>auto simp: tab_add_def\<close>)

lemma tab_add_ok:
  assumes "tree_ok t" and "tree_ok v" and "tab_add t k v = Inr t'"
  shows "tree_ok t'" "keeps t t'" "datum_at t' [tab_size t' - 1] = v"
proof -
  obtain f kvs where "t = DTable f kvs" "t' = DTable f (kvs @ [(k, v)])" "map_of kvs k = None"
    "length kvs < TABLE_MAX"
    by (rule tab_add_cases [OF assms(1,3)])
  with assms(1,2) show "tree_ok t'" "keeps t t'" "datum_at t' [tab_size t' - 1] = v"
    by (auto simp: map_of_eq_None_iff intro!: keeps_table simp: map_add_def split: option.splits)
qed

lemma tab_find_at:
  "tab_find t k = Some j \<Longrightarrow> datum_at t [j] = tab_value t j \<and> dtype t = TOML_TABLE \<and> j < tab_size t"
  by (cases t) (auto dest: find_slot_SomeD)

lemma tab_value_ok: "tree_ok t \<Longrightarrow> tab_find t k = Some j \<Longrightarrow> tree_ok (tab_value t j)"
  by (cases t) (auto dest!: find_slot_SomeD)

text \<open>What a walk down the tree owes: a good tree that keeps the old one, and a place with a table.\<close>

definition walk_ok :: "datum \<Rightarrow> string + datum \<times> nat list \<Rightarrow> bool" where
  "walk_ok tab r \<longleftrightarrow> (\<forall>tab' p. r = Inr (tab', p) \<longrightarrow> tree_ok tab' \<and> keeps tab tab' \<and> tab_place tab' p)"

lemma walk_ok_Inl [simp]: "walk_ok tab (Inl e)"
  by (simp add: walk_ok_def)

lemma walk_ok_shift: "keeps tab tab' \<Longrightarrow> walk_ok tab' r \<Longrightarrow> walk_ok tab r"
  by (auto simp: walk_ok_def intro: keeps_trans)

lemma go_into_ok:
  assumes "tree_ok tab" and "tab_place tab path" and "walk_ok (datum_at tab path) (k (datum_at tab path))"
  shows "walk_ok tab (go_into tab path k)"
  using assms tree_ok_put [OF assms(1)] keeps_put [OF assms(1)] datum_at_put_at [OF tab_place_nonzero [OF assms(2)]]
  by (auto simp: walk_ok_def go_into_def tab_place_def datum_at_append split: sum.splits)

lemma walk_new:
  assumes "tree_ok tab" and "tab_add tab key (new_table b) = Inr tab'"
    and "\<And>t. tree_ok t \<Longrightarrow> dtype t = TOML_TABLE \<Longrightarrow> walk_ok t (k t)"
  shows "walk_ok tab (go_into tab' [tab_size tab' - 1] k)"
proof -
  note a = tab_add_ok [OF assms(1) tree_ok_new_table(1) assms(2)]
  have "walk_ok tab' (go_into tab' [tab_size tab' - 1] k)"
    by (rule go_into_ok) (use a assms(3) in \<open>auto simp: tab_place_def simp del: datum_at.simps\<close>)
  with a(2) show ?thesis by (rule walk_ok_shift)
qed

lemma walk_table:
  assumes "tree_ok tab" and "tab_find tab key = Some j" and "tab_value tab j = DTable f kvs"
    and "\<And>t. tree_ok t \<Longrightarrow> dtype t = TOML_TABLE \<Longrightarrow> walk_ok t (k t)"
  shows "walk_ok tab (go_into tab [j] k)"
  by (rule go_into_ok)
    (use assms tab_find_at [OF assms(2)] tab_value_ok [OF assms(1,2)] in
      \<open>auto simp: tab_place_def simp del: datum_at.simps\<close>)

lemma walk_array:
  assumes "tree_ok tab" and "tab_find tab key = Some j" and "tab_value tab j = DArray f xs"
    and "xs \<noteq> []" and "dtype (last xs) = TOML_TABLE"
    and "\<And>t. tree_ok t \<Longrightarrow> dtype t = TOML_TABLE \<Longrightarrow> walk_ok t (k t)"
  shows "walk_ok tab (go_into tab [j, length xs - 1] k)"
proof -
  have at: "datum_at tab [j, length xs - 1] = last xs"
    using assms(3,4) tab_find_at [OF assms(2)] datum_at_append [of tab "[j]" "[length xs - 1]"]
    by (simp add: last_conv_nth)
  moreover have "tree_ok (last xs)" using assms(4) tab_value_ok [OF assms(1,2)] assms(3) by simp
  ultimately show ?thesis using assms by (intro go_into_ok) (auto simp: tab_place_def simp del: datum_at.simps)
qed

lemma walk_done: "tree_ok tab \<Longrightarrow> dtype tab = TOML_TABLE \<Longrightarrow> walk_ok tab (Inr (tab, []))"
  by (simp add: walk_ok_def tab_place_def)

lemma descend_keypart_ok:
  "tree_ok tab \<Longrightarrow> dtype tab = TOML_TABLE \<Longrightarrow> walk_ok tab (descend_keypart ln tab keys std)"
  by (induction keys arbitrary: tab)
    (auto simp del: One_nat_def split: option.split sum.split datum.split
      intro: walk_done walk_new walk_table walk_array)

lemma array_walk_ok:
  "tree_ok tab \<Longrightarrow> dtype tab = TOML_TABLE \<Longrightarrow> walk_ok tab (array_walk ln tab keys)"
  by (induction keys arbitrary: tab)
    (auto simp del: One_nat_def split: option.split sum.split datum.split
      intro: walk_done walk_new walk_table walk_array)

lemma keyvalue_walk_ok:
  "tree_ok tab \<Longrightarrow> dtype tab = TOML_TABLE \<Longrightarrow> walk_ok tab (keyvalue_walk ln first tab keys)"
  by (induction keys arbitrary: tab first)
    (auto simp del: One_nat_def split: option.split sum.split datum.split
      intro: walk_done walk_new walk_table walk_array)

section \<open>Values and expressions\<close>

text \<open>A value that has been parsed is good.\<close>

definition value_ok :: "(string + datum \<times> parser) option \<Rightarrow> bool" where
  "value_ok r \<longleftrightarrow> (\<forall>v pp'. r = Some (Inr (v, pp')) \<longrightarrow> tree_ok v)"

lemma value_ok_simps [simp]:
  "value_ok None" "value_ok (Some (Inl e))" "value_ok (Some (Inr (v, pp))) = tree_ok v"
  by (auto simp: value_ok_def)

lemma token_values_ok:
  "value_ok (Some (token_to_string tok pp))" "tree_ok (token_to_timestamp tok)"
  "tree_ok (token_to_int64 tok)" "tree_ok (token_to_fp64 tok)" "tree_ok (token_to_boolean tok)"
  by (auto simp: token_to_string_def token_to_timestamp_def token_to_int64_def token_to_fp64_def
      token_to_boolean_def value_ok_def split: sum.splits tokval.split toktyp.split)

lemma arr_emplace_ok:
  assumes "tree_ok arr" and "dtype arr = TOML_ARRAY" and "arr_emplace arr = Inr (arr', i)" and "tree_ok v"
  shows "tree_ok (arr_set arr' i v)" "dtype (arr_set arr' i v) = TOML_ARRAY" "keeps arr (arr_set arr' i v)"
    "datum_at (arr_set arr' i v) [i] = v"
  using assms by (cases arr; auto intro!: keeps_array simp: list_update_append nth_append split: if_splits)+

lemma inline_key_ok:
  assumes "inline_key tok tab pp = Inr (tab', path, key, val, pp')" and "tree_ok tab" and "dtype tab = TOML_TABLE"
  shows "tree_ok tab'" "dtype tab' = TOML_TABLE" "tab_place tab' path"
proof -
  obtain tab1 keys where w: "descend_keypart (tok_lineno tok) tab (butlast keys) False = Inr (tab1, path)"
    and t: "tab' = put_at tab1 path (set_flag FLAG_EXPLICIT (datum_at tab1 path))"
    using assms(1) by (auto simp: inline_key_def split: sum.splits if_splits)
  have 1: "tree_ok tab1" "keeps tab tab1" "tab_place tab1 path"
    using descend_keypart_ok [OF assms(2,3)] w by (auto simp: walk_ok_def)
  have d: "dtype (datum_at tab1 path) = TOML_TABLE" using 1(3) by (simp add: tab_place_def)
  note k = keeps_flag [OF d, of FLAG_EXPLICIT]
  show "tree_ok tab'"
    unfolding t using 1 d tree_ok_at [OF 1(1) tab_place_nonzero] by (intro tree_ok_put tree_ok_table_flag)
  show "dtype tab' = TOML_TABLE" using dtype_put [OF k 1(1)] keeps_dtype [OF 1(2)] assms(3) t by simp
  show "tab_place tab' path"
    using t d datum_at_put_at [OF tab_place_nonzero [OF 1(3)]] by (simp add: tab_place_def)
qed

lemma tab_add_put_ok:
  assumes "tree_ok tab" and "tab_place tab path" and "tree_ok v" and "tab_add (datum_at tab path) key v = Inr t"
  shows "tree_ok (put_at tab path t)" "keeps tab (put_at tab path t)"
  using tab_add_ok [OF tree_ok_at [OF assms(1) tab_place_nonzero [OF assms(2)]] assms(3,4)] assms(1)
  by (auto intro: tree_ok_put keeps_put)

lemma values_ok:
  "value_ok (parse_val n tok pp)"
  "tree_ok arr \<Longrightarrow> dtype arr = TOML_ARRAY \<Longrightarrow> value_ok (array_loop n arr need pp)"
  "tree_ok tab \<Longrightarrow> dtype tab = TOML_TABLE \<Longrightarrow> value_ok (table_loop n tab need pp)"
proof (induction n tok pp and n arr need pp and n tab need pp
    rule: parse_val_array_loop_table_loop.induct)
  case (2 n tok pp)
  then show ?case
    by (simp add: token_values_ok del: array_loop.simps table_loop.simps mkdatum.simps split: toktyp.split)
next
  case (4 n arr need pp)
  have add: "value_ok (array_loop n (arr_set arr' i v) True q)"
    if s: "scan_value (scan pp) = Inr (tok, sp)"
      and c: "toktyp tok \<noteq> TOK_ENDL" "toktyp tok \<noteq> TOK_RBRACK" "toktyp tok \<noteq> TOK_COMMA" "\<not> need"
      and p: "parse_val n tok (pp\<lparr>scan := sp\<rparr>) = Some (Inr (v, q))" and e: "arr_emplace arr = Inr (arr', i)"
    for tok sp v q arr' i
  proof -
    have "tree_ok v" using "4.IH"(3) [OF s refl] c p by simp
    from arr_emplace_ok [OF "4.prems" e this] "4.IH"(4) [OF s refl] c p e show ?thesis by simp
  qed
  show ?case
    using "4.IH"(1,2) "4.prems" add
    by (auto simp: tree_ok_inlined simp del: parse_val.simps split: sum.split option.split)
next
  case (6 n tab need pp)
  have add: "value_ok (table_loop n (put_at tab' path t) True q)"
    if s: "scan_key (scan pp) = Inr (tok, sp)"
      and c: "toktyp tok \<noteq> TOK_ENDL" "toktyp tok \<noteq> TOK_RBRACE" "toktyp tok \<noteq> TOK_COMMA" "\<not> need"
      and k: "inline_key tok tab (pp\<lparr>scan := sp\<rparr>) = Inr (tab', path, key, val, pp1)"
      and p: "parse_val n val pp1 = Some (Inr (v, q))" and a: "tab_add (datum_at tab' path) key v = Inr t"
    for tok sp tab' path key val pp1 v q t
  proof -
    have v: "tree_ok v" using "6.IH"(3) [OF s refl c(2,3,1,4) k refl refl refl refl] p by simp
    note i = inline_key_ok [OF k "6.prems"] and o = tab_add_put_ok [OF inline_key_ok(1,3) [OF k "6.prems"] v a]
    show ?thesis
      using "6.IH"(4) [OF s refl c(2,3,1,4) k refl refl refl refl p refl refl a] i o keeps_dtype [OF o(2)] by simp
  qed
  show ?case
    using "6.IH"(1,2) "6.prems" add
    by (auto simp: tree_ok_inlined simp del: parse_val.simps split: sum.split option.split)
qed simp_all

text \<open>What holds between two expressions: \<open>curtab\<close> is a table of a good tree.\<close>

definition doc_ok :: "parser \<Rightarrow> bool" where
  "doc_ok pp \<longleftrightarrow> tree_ok (toptab pp) \<and> dtype (toptab pp) = TOML_TABLE \<and> tab_place (toptab pp) (curtab pp)"

text \<open>A place of an expression: the new table, the way to the current one, and what is kept.\<close>

definition place_ok :: "datum \<Rightarrow> datum \<Rightarrow> nat list \<Rightarrow> bool" where
  "place_ok tab tab' p \<longleftrightarrow> tree_ok tab' \<and> keeps tab tab' \<and> tab_place tab' p"

lemma tab_set_put: "j < tab_size tab \<Longrightarrow> tab_set tab j v = put_at tab [j] v"
  by (cases tab) auto

lemma put_place:
  assumes "tree_ok root" and "tab_place root path" and "place_ok (datum_at root path) tab p"
  shows "place_ok root (put_at root path tab) (path @ p)"
  using assms datum_at_put_at [OF tab_place_nonzero [OF assms(2)]]
  by (auto simp: place_ok_def tab_place_def datum_at_append intro: tree_ok_put keeps_put)

lemma place_trans: "keeps a b \<Longrightarrow> place_ok b c p \<Longrightarrow> place_ok a c p"
  by (auto simp: place_ok_def intro: keeps_trans)

lemma std_flag_table: "tree_ok d \<Longrightarrow> has_flag FLAG_STDEXPR d \<Longrightarrow> dtype d = TOML_TABLE"
  by (cases d) (auto simp: has_flag_def)

lemma std_table_place_ok:
  assumes "tree_ok tab" and "std_table_place ln tab key = Inr (tab', j)"
  shows "place_ok tab (tab_set tab' j (set_flag FLAG_EXPLICIT (tab_value tab' j))) [j]"
proof -
  have 1: "tree_ok tab' \<and> keeps tab tab' \<and> j < tab_size tab' \<and> datum_at tab' [j] = tab_value tab' j \<and>
      tree_ok (tab_value tab' j) \<and> dtype (tab_value tab' j) = TOML_TABLE"
  proof (cases "tab_find tab key")
    case None
    then have a: "tab_add tab key (new_table True) = Inr tab'" "j = tab_size tab' - 1"
      using assms(2) by (auto simp: std_table_place_def split: if_splits sum.splits)
    obtain f kvs where "tab' = DTable f (kvs @ [(key, new_table True)])"
      by (rule tab_add_cases [OF assms(1) a(1)])
    with a(2) tab_add_ok(1,2) [OF assms(1) tree_ok_new_table(1) a(1)] show ?thesis by simp
  next
    case (Some i)
    then have "tab' = tab" "j = i" "has_flag FLAG_STDEXPR (tab_value tab i)"
      using assms(2) by (auto simp: std_table_place_def split: if_splits)
    with Some assms(1) tab_find_at [OF Some] tab_value_ok [OF assms(1) Some] show ?thesis
      by (simp add: std_flag_table)
  qed
  let ?v = "set_flag FLAG_EXPLICIT (tab_value tab' j)"
  have "place_ok (datum_at tab' [j]) ?v []"
    using 1 by (simp add: place_ok_def tab_place_def tree_ok_table_flag keeps_flag del: datum_at.simps(2-4))
  then have "place_ok tab' (put_at tab' [j] ?v) ([j] @ [])"
    using 1 by (intro put_place) (auto simp: tab_place_def simp del: datum_at.simps(2-4))
  with 1 show ?thesis by (auto simp: tab_set_put intro: place_trans)
qed

lemma array_table_place_ok:
  assumes "tree_ok tab" and "array_table_place ln tab key = Inr (tab', p)"
  shows "place_ok tab tab' p"
proof -
  obtain tab1 idx arr i where t: "(case tab_find tab key of None \<Rightarrow> tab_add tab key (mkdatum TOML_ARRAY)
      | Some j \<Rightarrow> Inr tab) = Inr tab1"
    and f: "tab_find tab1 key = Some idx" and d: "dtype (tab_value tab1 idx) = TOML_ARRAY"
    and e: "arr_emplace (tab_value tab1 idx) = Inr (arr, i)"
    and r: "tab' = tab_set tab1 idx (arr_set arr i (mkdatum TOML_TABLE))" "p = [idx, i]"
    using assms(2) unfolding array_table_place_def
    by (auto simp del: arr_emplace.simps split: sum.splits option.splits if_splits)
  have 1: "tree_ok tab1" "keeps tab tab1"
    using t assms(1) tab_add_ok(1,2) [of tab "DArray 0 []" key tab1] by (auto split: option.splits)
  note at = tab_find_at [OF f] and ok = tab_value_ok [OF 1(1) f]
  let ?a = "arr_set arr i (mkdatum TOML_TABLE)"
  have a: "tree_ok ?a" "keeps (tab_value tab1 idx) ?a" "datum_at ?a [i] = mkdatum TOML_TABLE"
    using arr_emplace_ok [OF ok d e, of "mkdatum TOML_TABLE"] by simp_all
  have nz: "datum_at tab1 [idx] \<noteq> DATUM_ZERO"
    using at d by (auto simp del: datum_at.simps)
  have "place_ok tab1 (put_at tab1 [idx] ?a) p"
    unfolding place_ok_def
  proof (intro conjI)
    show "tree_ok (put_at tab1 [idx] ?a)" by (rule tree_ok_put [OF 1(1) a(1)])
    show "keeps tab1 (put_at tab1 [idx] ?a)" by (rule keeps_put [OF 1(1)]) (use at a(2) in simp)
    have "datum_at (put_at tab1 [idx] ?a) ([idx] @ [i]) = mkdatum TOML_TABLE"
      unfolding datum_at_append datum_at_put_at [OF nz] by (rule a(3))
    then show "tab_place (put_at tab1 [idx] ?a) p" using r(2) by (simp add: tab_place_def del: datum_at.simps)
  qed
  then show ?thesis using 1(2) r(1) at by (auto simp: tab_set_put intro: place_trans)
qed

text \<open>Every expression keeps the invariant and the contents.\<close>

lemma place_doc:
  assumes "tree_ok root" and "dtype root = TOML_TABLE" and "place_ok root root' p"
  shows "tree_ok root' \<and> dtype root' = TOML_TABLE \<and> tab_place root' p \<and> keeps root root'"
  using assms keeps_dtype [of root root'] by (auto simp: place_ok_def)

lemma parse_std_ok:
  assumes "doc_ok pp" and "parse_std_table_expr pp = Inr pp'"
  shows "doc_ok pp' \<and> keeps (toptab pp) (toptab pp')"
proof -
  obtain tok sp1 keys pp1 rb sp2 top1 path tab j where
    h: "scan_key (scan pp) = Inr (tok, sp1)" "parse_key tok (pp\<lparr>scan := sp1\<rparr>) = Inr (keys, pp1)"
      "scan_key (scan pp1) = Inr (rb, sp2)" "toktyp rb = TOK_RBRACK"
    and w: "descend_keypart (tok_lineno tok) (toptab pp1) (butlast keys) True = Inr (top1, path)"
    and s: "std_table_place (tok_lineno tok) (datum_at top1 path) (last keys) = Inr (tab, j)"
    and r: "pp' = pp1\<lparr>scan := sp2, toptab := put_at top1 path (tab_set tab j (set_flag FLAG_EXPLICIT (tab_value tab j))),
      curtab := path @ [j]\<rparr>"
    using assms(2) by (auto simp: parse_std_table_expr_def split: sum.splits if_splits prod.splits)
  have root: "toptab pp1 = toptab pp" using header_moves(3) [OF h(1-3)] h(4) by simp
  have 1: "tree_ok top1" "keeps (toptab pp) top1" "tab_place top1 path"
    using assms(1) w root descend_keypart_ok [of "toptab pp" "tok_lineno tok" "butlast keys" True]
    by (auto simp: doc_ok_def walk_ok_def)
  have "place_ok top1 (toptab pp') (curtab pp')"
    using put_place [OF 1(1,3) std_table_place_ok [OF tree_ok_at [OF 1(1) tab_place_nonzero [OF 1(3)]] s]] r by simp
  from place_trans [OF 1(2) this] show ?thesis
    using place_doc [of "toptab pp" "toptab pp'" "curtab pp'"] assms(1) by (simp add: doc_ok_def)
qed

lemma parse_array_table_ok:
  assumes "doc_ok pp" and "parse_array_table_expr pp = Inr pp'"
  shows "doc_ok pp' \<and> keeps (toptab pp) (toptab pp')"
proof -
  obtain tok sp1 keys pp1 rb sp2 top1 path tab p where
    h: "scan_key (scan pp) = Inr (tok, sp1)" "parse_key tok (pp\<lparr>scan := sp1\<rparr>) = Inr (keys, pp1)"
      "scan_key (scan pp1) = Inr (rb, sp2)" "toktyp rb = TOK_RRBRACK"
    and w: "array_walk (tok_lineno tok) (toptab pp1) (butlast keys) = Inr (top1, path)"
    and s: "array_table_place (tok_lineno tok) (datum_at top1 path) (last keys) = Inr (tab, p)"
    and r: "pp' = pp1\<lparr>scan := sp2, toptab := put_at top1 path tab, curtab := path @ p\<rparr>"
    using assms(2) by (auto simp: parse_array_table_expr_def split: sum.splits if_splits prod.splits)
  have root: "toptab pp1 = toptab pp" using header_moves(3) [OF h(1-3)] h(4) by simp
  have 1: "tree_ok top1" "keeps (toptab pp) top1" "tab_place top1 path"
    using assms(1) w root array_walk_ok [of "toptab pp" "tok_lineno tok" "butlast keys"]
    by (auto simp: doc_ok_def walk_ok_def)
  have "place_ok top1 (toptab pp') (curtab pp')"
    using put_place [OF 1(1,3) array_table_place_ok [OF tree_ok_at [OF 1(1) tab_place_nonzero [OF 1(3)]] s]] r by simp
  from place_trans [OF 1(2) this] show ?thesis
    using place_doc [of "toptab pp" "toptab pp'" "curtab pp'"] assms(1) by (simp add: doc_ok_def)
qed

lemma parse_keyvalue_ok:
  assumes "doc_ok pp" and "parse_keyvalue_expr n tok pp = Some (Inr pp')"
  shows "doc_ok pp' \<and> keeps (toptab pp) (toptab pp')"
proof -
  obtain keys pp1 sp3 tab1 path val v pp2 t where k: "parse_key tok pp = Inr (keys, pp1)"
    and w: "keyvalue_walk (tok_lineno tok) True (datum_at (toptab pp1) (curtab pp1)) (butlast keys) = Inr (tab1, path)"
    and v: "parse_val n val (pp1\<lparr>scan := sp3\<rparr>) = Some (Inr (v, pp2))"
    and a: "tab_add (datum_at tab1 path) (last keys) v = Inr t"
    and r: "pp' = pp2\<lparr>toptab := put_at (toptab pp2) (curtab pp2) (put_at tab1 path t)\<rparr>"
    by (rule parse_keyvalue_cases [OF assms(2)])
  have p: "toptab pp1 = toptab pp" "curtab pp1 = curtab pp" "toptab pp2 = toptab pp" "curtab pp2 = curtab pp"
    using parse_key_moves [OF k] steadyD [OF values_steady(1) v] by (auto simp: moves_def)
  let ?cur = "datum_at (toptab pp) (curtab pp)"
  have c: "tree_ok (toptab pp)" "tab_place (toptab pp) (curtab pp)" "tree_ok ?cur" "dtype ?cur = TOML_TABLE"
    using assms(1) tree_ok_at [OF _ tab_place_nonzero] by (auto simp: doc_ok_def tab_place_def)
  have 1: "tree_ok tab1" "keeps ?cur tab1" "tab_place tab1 path"
    using w p keyvalue_walk_ok [OF c(3,4), of "tok_lineno tok" True "butlast keys"] by (auto simp: walk_ok_def)
  have "tree_ok v" using values_ok(1) [of n val "pp1\<lparr>scan := sp3\<rparr>"] v by simp
  note o = tab_add_put_ok [OF 1(1,3) this a]
  have "place_ok ?cur (put_at tab1 path t) []"
    using o(1) c(4) keeps_trans [OF 1(2) o(2)] keeps_dtype [OF keeps_trans [OF 1(2) o(2)]]
    by (simp add: place_ok_def tab_place_def)
  from put_place [OF c(1,2) this] have "place_ok (toptab pp) (toptab pp') (curtab pp')" using r p by simp
  then show ?thesis using place_doc [of "toptab pp" "toptab pp'" "curtab pp'"] assms(1) by (simp add: doc_ok_def)
qed

lemma parse_expr_ok:
  "doc_ok pp \<Longrightarrow> parse_expr n tok pp = Some (Inr pp') \<Longrightarrow> doc_ok pp' \<and> keeps (toptab pp) (toptab pp')"
  using parse_std_ok [of pp pp'] parse_array_table_ok [of pp pp'] parse_keyvalue_ok [of pp n tok pp']
  by (simp add: parse_expr_def split: if_splits)

lemma doc_ok_init: "doc_ok (parser_init src)"
  by (simp add: doc_ok_def parser_init_def tab_place_def)

lemma doc_loop_ok:
  "doc_ok pp \<Longrightarrow> doc_loop n pp = Some (Inr t) \<Longrightarrow> tree_ok t \<and> dtype t = TOML_TABLE \<and> keeps (toptab pp) t"
proof (induction n arbitrary: pp)
  case (Suc n)
  then obtain tok sp1 where s: "scan_key (scan pp) = Inr (tok, sp1)"
    by (cases "scan_key (scan pp)") auto
  have d1: "doc_ok (pp\<lparr>scan := sp1\<rparr>)" using Suc.prems(1) by (simp add: doc_ok_def)
  consider (fin) "toktyp tok = TOK_FIN" | (endl) "toktyp tok = TOK_ENDL"
    | (expr) "toktyp tok \<noteq> TOK_FIN" "toktyp tok \<noteq> TOK_ENDL" by blast
  then show ?case
  proof cases
    case fin
    with Suc.prems s show ?thesis by (auto simp: doc_ok_def)
  next
    case endl
    with Suc.IH [OF d1] Suc.prems s show ?thesis by simp
  next
    case expr
    then obtain pp1 tok2 sp2 where e: "parse_expr n tok (pp\<lparr>scan := sp1\<rparr>) = Some (Inr pp1)"
      "doc_loop n (pp1\<lparr>scan := sp2\<rparr>) = Some (Inr t)"
      using Suc.prems(2) s by (auto split: option.splits sum.splits if_splits)
    have "doc_ok (pp1\<lparr>scan := sp2\<rparr>)" "keeps (toptab pp) (toptab pp1)"
      using parse_expr_ok [OF d1 e(1)] by (simp_all add: doc_ok_def)
    with Suc.IH [OF _ e(2)] keeps_trans [of "toptab pp" "toptab pp1" t] show ?thesis by simp
  qed
qed simp

lemma toml_parse_ok: "toml_parse opt buf len = Some (Inr t) \<Longrightarrow> tree_ok t \<and> dtype t = TOML_TABLE"
  using doc_loop_ok [OF doc_ok_init]
  by (auto simp: toml_parse_def Let_def split: if_splits option.splits)

end
