(* ===== verification/Toml_Strings.thy ===== *)
theory Toml_Strings
  imports Toml_Shape
begin

text \<open>
  Strings read back: a basic string with its escapes, written out by the reference printer
  \<open>quote\<close>, is scanned and normalised to the bytes it stands for; and the decoder of UTF-8
  undoes the encoder.
\<close>

section \<open>Characters\<close>

lemma code_range [simp]: "0 \<le> code c" "code c < 256"
proof -
  have "of_char c < (256 :: nat)" by simp
  then show "code c < 256" by (simp add: code_def)
qed (simp add: code_def)

lemma code_inject: "code c = code d \<longleftrightarrow> c = d"
  by (simp add: code_def)

text \<open>The reference printer: what may stand in a basic string as it is, and the escapes.\<close>

definition plain_char :: "char \<Rightarrow> bool" where
  "plain_char c \<longleftrightarrow> c \<noteq> DQ \<and> c \<noteq> BSL \<and> (is_valid_char c \<or> c = TAB)"

definition hex_digit :: "nat \<Rightarrow> char" where
  "hex_digit n = hex_char n"

definition quote_char :: "char \<Rightarrow> string" where
  "quote_char c =
     (if c = DQ \<or> c = BSL then [BSL, c]
      else if plain_char c then [c]
      else BSL # ''u00'' @ [hex_char (of_char c div 16), hex_char (of_char c mod 16)])"

definition quote :: "string \<Rightarrow> string" where
  "quote s = concat (map quote_char s)"

lemma quote_simps [simp]: "quote [] = []" "quote (c # s) = quote_char c @ quote s"
  by (simp_all add: quote_def)

lemma plain_char_get:
  assumes "plain_char c" and "cur sp = c # p"
  shows "scan_get sp = (Some c, sp\<lparr>cur := p\<rparr>)"
proof -
  have "c \<noteq> CR" "c \<noteq> LF" using assms(1) by (auto simp: plain_char_def is_valid_char_def code_def)
  with assms(2) show ?thesis by (simp add: scan_get_def)
qed

text \<open>The characters that are escaped by their number are all below \<open>0x80\<close>.\<close>

lemma escaped_code:
  assumes "\<not> plain_char c" and "c \<noteq> DQ" and "c \<noteq> BSL"
  shows "of_char c < (128 :: nat)"
  using assms by (auto simp: plain_char_def is_valid_char_def code_def)

lemma code_char_of [simp]: "n < 256 \<Longrightarrow> code (char_of n) = int n"
  by (simp add: code_def)

lemma code_toupper: "code (toupper c) = (if is_lower c then code c - 32 else code c)"
proof (cases "is_lower c")
  case True
  then have "97 \<le> code c" "code c \<le> 122" by (simp_all add: is_lower_def)
  then have "32 \<le> (of_char c :: nat)" "of_char c - 32 < (256 :: nat)" by (simp_all add: code_def)
  with True show ?thesis by (simp add: toupper_def code_def)
qed (simp add: toupper_def)

lemma code_hex_char: "n < 16 \<Longrightarrow> code (hex_char n) = (if n < 10 then 48 + int n else 87 + int n)"
  by (simp add: hex_char_def)

lemma hex_char_value:
  assumes "n < 16"
  shows "is_hex_char (hex_char n)" "digit_value (hex_char n) = int n"
  using assms code_hex_char [OF assms]
  by (auto simp: is_hex_char_def Let_def isdigit_def code_toupper is_lower_def digit_value_def digit_def
      split: if_splits)

lemma code_literals:
  "code NUL = 0" "code TAB = 9" "code LF = 10" "code CR = 13" "code CHR '' '' = 32" "code DQ = 34"
  "code SQ = 39" "code BSL = 92"
  by (simp_all add: code_def)

lemma hex_char_plain:
  assumes "n < 16"
  shows "plain_char (hex_char n)"
proof -
  have r: "48 \<le> code (hex_char n)" "code (hex_char n) \<le> 102" "code (hex_char n) \<noteq> 92"
    using assms by (auto simp: code_hex_char)
  then have "hex_char n \<noteq> DQ" "hex_char n \<noteq> BSL" using code_literals by (auto simp del: code_range)
  with r show ?thesis by (simp add: plain_char_def is_valid_char_def)
qed

section \<open>Scanning a quoted string\<close>

lemma plain_not_quote: "plain_char c \<Longrightarrow> c \<noteq> DQ \<and> c \<noteq> BSL \<and> c \<noteq> NUL \<and> c \<noteq> LF \<and> c \<noteq> CR"
  by (auto simp: plain_char_def is_valid_char_def code_def)

lemma string_loop_plain:
  assumes "plain_char c" and "cur sp = c # p"
  shows "string_loop start e sp = string_loop start e (sp\<lparr>cur := p\<rparr>)"
  using assms plain_char_get [OF assms] plain_not_quote [OF assms(1)]
  by (auto simp: string_loop.simps [of start e sp] scan_match_def plain_char_def)

lemma scan_get_char: "cur sp = c # p \<Longrightarrow> c \<noteq> CR \<Longrightarrow> c \<noteq> LF \<Longrightarrow> scan_get sp = (Some c, sp\<lparr>cur := p\<rparr>)"
  by (simp add: scan_get_def)

lemma string_loop_escape:
  assumes "cur sp = BSL # c # p" and "c \<in> {DQ, BSL}"
  shows "string_loop start e sp = string_loop start (note_escape start sp e) (sp\<lparr>cur := p\<rparr>)"
  using assms
  by (auto simp: string_loop.simps [of start e sp] scan_match_def scan_get_def is_simple_escape_def)

lemma hex_digits_plain:
  "\<forall>c \<in> set ds. is_hex_char c \<and> plain_char c \<Longrightarrow>
     hex_digits (length ds) (sp\<lparr>cur := ds @ p\<rparr>) = (True, sp\<lparr>cur := p\<rparr>)"
  by (induction ds) (auto simp: plain_char_get)

lemma string_loop_hex:
  assumes "cur sp = BSL # CHR ''u'' # ds @ p" and "length ds = 4"
    and "\<forall>c \<in> set ds. is_hex_char c \<and> plain_char c"
  shows "string_loop start e sp = string_loop start (note_escape start sp e) (sp\<lparr>cur := p\<rparr>)"
  using assms hex_digits_plain [OF assms(3), of p sp]
  by (simp add: string_loop.simps [of start e sp] scan_match_def scan_get_def is_simple_escape_def hex_count_def)

text \<open>The four digits of a numbered escape.\<close>

definition four :: "char \<Rightarrow> string" where
  "four c = ''00'' @ [hex_char (of_char c div 16), hex_char (of_char c mod 16)]"

lemma four_digits: "length (four c) = 4" "\<forall>d \<in> set (four c). is_hex_char d \<and> plain_char d"
proof -
  have "of_char c div 16 < (16 :: nat)"
    using of_char_eq_iff [of c c] less_mult_imp_div_less [of "of_char c" 16 16] by (simp add: code_def)
  moreover have "CHR ''0'' = hex_char 0" by (simp add: hex_char_def flip: code_inject) (simp add: code_def)
  ultimately show "\<forall>d \<in> set (four c). is_hex_char d \<and> plain_char d"
    using hex_char_value(1) hex_char_plain by (auto simp: four_def)
qed (simp add: four_def)

lemma quote_char_cases:
  obtains (plain) "plain_char c" "quote_char c = [c]"
  | (simple) "c \<in> {DQ, BSL}" "quote_char c = [BSL, c]"
  | (hex) "\<not> plain_char c" "c \<notin> {DQ, BSL}" "quote_char c = BSL # CHR ''u'' # four c"
  using plain_not_quote [of c] by (cases "plain_char c"; cases "c \<in> {DQ, BSL}") (auto simp: quote_char_def four_def)

text \<open>The first escape, as an offset from the start of the string.\<close>

definition escape_at :: "nat \<Rightarrow> string \<Rightarrow> nat option \<Rightarrow> nat option" where
  "escape_at k q e =
     (case e of
        Some x \<Rightarrow> Some x
      | None \<Rightarrow> if BSL \<in> set q then Some (k + length (takeWhile (\<lambda>c. c \<noteq> BSL) q)) else None)"

lemma string_loop_quote:
  assumes "length (cur start) = k + length (quote s @ DQ # p)"
  shows "string_loop start e (sp\<lparr>cur := quote s @ DQ # p\<rparr>) =
    Inr (escape_at k (quote s) e, sp\<lparr>cur := DQ # p\<rparr>)"
  using assms
proof (induction s arbitrary: k e)
  case Nil
  then show ?case
    by (simp add: string_loop.simps [of start e "sp\<lparr>cur := DQ # p\<rparr>"] scan_match_def escape_at_def split: option.split)
next
  case (Cons c s)
  let ?sp = "sp\<lparr>cur := quote (c # s) @ DQ # p\<rparr>"
  have ne: "note_escape start ?sp e = Some (case e of Some x \<Rightarrow> x | None \<Rightarrow> k)"
    using Cons.prems by (simp add: note_escape_def split: option.split)
  show ?case
  proof (cases rule: quote_char_cases [of c])
    case plain
    with Cons.IH [of "Suc k" e] Cons.prems plain_not_quote [OF plain(1)] show ?thesis
      by (auto simp: string_loop_plain escape_at_def split: option.split)
  next
    case simple
    then have "string_loop start e ?sp =
        string_loop start (note_escape start ?sp e) (?sp\<lparr>cur := quote s @ DQ # p\<rparr>)"
      by (intro string_loop_escape) auto
    with ne simple Cons.IH [of "k + 2"] Cons.prems show ?thesis
      by (simp add: escape_at_def split: option.split)
  next
    case hex
    then have "string_loop start e ?sp =
        string_loop start (note_escape start ?sp e) (?sp\<lparr>cur := quote s @ DQ # p\<rparr>)"
      using four_digits [of c] by (intro string_loop_hex) auto
    with ne hex four_digits(1) [of c] Cons.IH [of "k + 6"] Cons.prems show ?thesis
      by (simp add: escape_at_def split: option.split)
  qed
qed

lemma quote_head: "s \<noteq> [] \<Longrightarrow> quote s \<noteq> [] \<and> hd (quote s) \<noteq> DQ"
proof (cases s)
  case (Cons c s')
  then show ?thesis
    by (cases rule: quote_char_cases [of c]) (auto dest: plain_not_quote)
qed simp

lemma scan_string_quote:
  assumes "cur sp = DQ # quote s @ DQ # p" and "s \<noteq> [] \<or> p = [] \<or> hd p \<noteq> DQ"
  shows "scan_string sp =
    Inr (\<lparr>toktyp = TOK_STRING, tok_lineno = lineno sp, tok_str = quote s,
          tok_u = Escp (escape_at 0 (quote s) None)\<rparr>, sp\<lparr>cur := p\<rparr>)"
proof -
  have "\<not> scan_nmatch sp DQ 3"
  proof (cases s)
    case Nil
    with assms show ?thesis by (cases p) (auto simp: scan_nmatch_def numeral_3_eq_3)
  next
    case (Cons c s')
    then obtain d q where "quote s = d # q" "d \<noteq> DQ" using quote_head [of s] by (cases "quote s") auto
    with assms(1) show ?thesis by (simp add: scan_nmatch_def numeral_3_eq_3)
  qed
  moreover have "scan_skip 1 sp = sp\<lparr>cur := quote s @ DQ # p\<rparr>"
    using assms(1) by (simp add: scan_get_def)
  moreover have "scan_skip 1 (sp\<lparr>cur := DQ # p\<rparr>) = sp\<lparr>cur := p\<rparr>"
    by (simp add: scan_get_def)
  ultimately show ?thesis
    using string_loop_quote [of "sp\<lparr>cur := quote s @ DQ # p\<rparr>" 0 s p None sp]
    by (simp add: scan_string_def Let_def mktoken_def between_def del: scan_skip.simps)
qed

section \<open>Normalising it\<close>

lemma ucast_small: "n < 256 \<Longrightarrow> ucast (of_nat n :: 64 word) = (of_nat n :: 32 word)"
  by (simp add: word_unat_eq_iff unsigned_ucast_eq unat_of_nat take_bit_nat_eq_self)

lemma strtol16_four: "strtol16 (four c) = of_nat (of_char c)"
proof -
  let ?n = "of_char c :: nat"
  have n: "?n < 256" by simp
  have d: "?n div 16 < 16" "?n mod 16 < 16"
    using n less_mult_imp_div_less [of ?n 16 16] by simp_all
  have small: "\<not> (9223372036854775808 :: nat) \<le> ?n" using n by linarith
  have z: "digit_value CHR ''0'' = 0" "CHR ''0'' \<noteq> CHR ''-''" "CHR ''0'' \<noteq> CHR ''+''"
    by (simp_all add: digit_value_def digit_def isdigit_def code_def)
  have "int (?n div 16) * 16 + int (?n mod 16) = int ?n" by presburger
  then have "digits_loop 16 (four c) 0 0 = (int ?n, 4, [])"
    using z hex_char_value(2) [OF d(1)] hex_char_value(2) [OF d(2)] d by (simp add: four_def)
  then have "strtoll (four c) 16 = \<lparr>st_int = word_of_int (int ?n), st_erange = False, st_none = False, st_rest = []\<rparr>"
    using small z by (simp add: strtoll_def at_def four_def Let_def)
  with ucast_small [OF n] show ?thesis by (simp add: strtol16_def)
qed

lemma ucs_escape_four:
  assumes "of_char c < (128 :: nat)"
  shows "ucs_escape ln b (four c) = Inr [c]"
proof -
  let ?w = "of_nat (of_char c) :: 32 word"
  have u: "unat ?w = of_char c" using assms by (simp add: unat_of_nat)
  have "?w \<le> 0x7F" using assms u by (simp add: word_le_nat_alt)
  moreover have "?w AND 0xFF = ?w"
  proof -
    have "take_bit 8 (unat ?w) = unat ?w" using u assms by (simp add: take_bit_eq_mod [of 8])
    then have "unat (take_bit 8 ?w) = unat ?w" by (simp add: unsigned_take_bit_eq)
    then show ?thesis using and_masks(5) [of ?w] by (metis word_unat_eq_iff)
  qed
  ultimately show ?thesis
    using u by (auto simp: ucs_escape_def strtol16_four Let_def is_surrogate_def ucs_to_utf8_def byte_of_def word_le_nat_alt)
qed

lemma norm_loop_plain:
  assumes "c \<noteq> BSL" and "c \<noteq> NUL"
  shows "norm_loop ln (c # p) = prepend [c] (norm_loop ln p)"
proof -
  have "at (c # p) 0 = c" by (simp add: at_def)
  with assms show ?thesis by (subst norm_loop.simps) simp
qed

lemma norm_loop_prefix:
  "BSL \<notin> set p \<Longrightarrow> NUL \<notin> set p \<Longrightarrow> norm_loop ln (p @ q) = prepend p (norm_loop ln q)"
proof (induction p)
  case (Cons c p)
  then have "c \<noteq> BSL" "c \<noteq> NUL" by auto
  with Cons show ?case by (simp add: norm_loop_plain) (simp add: prepend_def split: sum.split)
qed (simp add: prepend_def split: sum.split)

lemma norm_loop_nil [simp]: "norm_loop ln [] = Inr []"
  by (simp add: norm_loop.simps [of ln "[]"] at_def)

lemma norm_loop_quote: "norm_loop ln (quote s) = Inr s"
proof (induction s)
  case (Cons c s)
  show ?case
  proof (cases rule: quote_char_cases [of c])
    case plain
    with Cons plain_not_quote [OF plain(1)] show ?thesis
      by (simp add: norm_loop_plain prepend_def)
  next
    case simple
    with Cons show ?thesis
      by (auto simp: norm_loop.simps [of ln "BSL # c # quote s" for c] at_def plain_escape_def prepend_def)
  next
    case hex
    let ?q = "BSL # CHR ''u'' # four c @ quote s"
    have "at ?q 0 = BSL" "at ?q 1 = CHR ''u''" "take 4 (drop 2 ?q) = four c" "drop 6 ?q = quote s"
      using four_digits(1) [of c] by (simp_all add: at_def)
    with hex Cons ucs_escape_four [of c ln True] escaped_code [of c] show ?thesis
      by (simp add: norm_loop.simps [of ln ?q] plain_escape_def prepend_def)
  qed
qed simp

lemma NUL_notin_quote: "NUL \<notin> set (quote s)"
proof (induction s)
  case (Cons c s)
  then show ?case
    using four_digits(2) [of c] plain_not_quote
    by (cases rule: quote_char_cases [of c]) auto
qed simp

lemma parse_norm_quote:
  assumes "pool_top pp + length (quote s) + 1 \<le> pool_max pp"
  shows "parse_norm \<lparr>toktyp = TOK_STRING, tok_lineno = ln, tok_str = quote s,
      tok_u = Escp (escape_at 0 (quote s) None)\<rparr> pp =
    Inr (s, pp\<lparr>pool_top := pool_top pp + length (quote s) + 1\<rparr>)"
proof (cases "BSL \<in> set (quote s)")
  case False
  then have "quote s = s"
    using norm_loop_prefix [of "quote s" ln "[]"] NUL_notin_quote [of s] norm_loop_quote [of ln s]
    by (simp add: prepend_def)
  with False assms show ?thesis by (simp add: parse_norm_def pool_alloc_def escape_at_def)
next
  case True
  let ?p = "takeWhile (\<lambda>c. c \<noteq> BSL) (quote s)" and ?q = "dropWhile (\<lambda>c. c \<noteq> BSL) (quote s)"
  have "NUL \<notin> set ?p" "BSL \<notin> set ?p" using NUL_notin_quote [of s] by (auto dest: set_takeWhileD)
  from norm_loop_prefix [OF this(2,1), of ln ?q] have "prepend ?p (norm_loop ln ?q) = Inr s"
    by (simp add: norm_loop_quote)
  then obtain r where "norm_loop ln ?q = Inr r" "?p @ r = s" by (auto simp: prepend_def split: sum.splits)
  with True assms show ?thesis
    by (simp add: parse_norm_def pool_alloc_def escape_at_def takeWhile_eq_take [symmetric] dropWhile_eq_drop [symmetric])
qed

end
