(* ===== verification/Toml_Text.thy ===== *)
theory Toml_Text
  imports Toml_Strings
begin

text \<open>
  Tokens read back: decimal integers within the range of 64 bits (and the error beyond it), truth
  values, basic strings, bare keys, the brackets of a header, blanks and comments.
\<close>

section \<open>Decimal numbers\<close>

lemma show_nat_char: "c \<in> set (show_nat n) \<Longrightarrow> isdigit c"
  by (auto simp: isdigit_def dest!: show_nat_digits)

lemma digit_char [simp]: "d < 10 \<Longrightarrow> digit (char_of (48 + d)) = int d"
  by (simp add: digit_def)

lemma digits_loop_all:
  "\<forall>c \<in> set s. isdigit c \<Longrightarrow>
     digits_loop 10 s v n = (foldl (\<lambda>v c. v * 10 + digit c) v s, n + length s, [])"
  by (induction s arbitrary: v n) (auto simp: digit_value_def digit_def isdigit_def)

lemma foldl_show_nat: "foldl (\<lambda>v c. v * 10 + digit c) 0 (show_nat n) = int n"
proof (induction n rule: show_nat.induct)
  case (1 n)
  have "int (n div 10) * 10 + int (n mod 10) = int n" by presburger
  with 1 show ?case by (auto simp: show_nat.simps [of n])
qed

lemma digits_loop_show_nat: "digits_loop 10 (show_nat n) 0 0 = (int n, length (show_nat n), [])"
  using digits_loop_all [of "show_nat n" 0 0] show_nat_char by (simp add: foldl_show_nat)

text \<open>No leading zeros.\<close>

lemma show_nat_lead: "hd (show_nat n) = CHR ''0'' \<Longrightarrow> n = 0"
proof (induction n rule: show_nat.induct)
  case (1 n)
  show ?case
  proof (cases "n < 10")
    case True
    with "1.prems" have "code (char_of (48 + n)) = code CHR ''0''" by (simp add: show_nat.simps [of n])
    with True show ?thesis by (simp add: code_def)
  next
    case False
    with 1 show_nat_nonempty [of "n div 10"] show ?thesis by (simp add: show_nat.simps [of n])
  qed
qed

lemma squeeze_id: "CHR ''_'' \<notin> set s \<Longrightarrow> squeeze base l s = Some s"
  by (induction s arbitrary: l) auto

lemma check_points_id:
  "\<forall>c \<in> set s. c \<noteq> CHR ''.'' \<and> \<not> is_upper c \<Longrightarrow> check_points l s = Some s"
  by (induction s arbitrary: l) (auto simp: tolower_def)

text \<open>The characters of a printed integer.\<close>

lemma show_int_char: "c \<in> set (show_int i) \<Longrightarrow> isdigit c \<or> c = CHR ''-''"
  by (auto simp: show_int_def dest: show_nat_char split: if_splits)

lemma isdigit_code: "isdigit c \<Longrightarrow> c \<in> set ''0123456789''"
proof -
  assume "isdigit c"
  then have "code c = 48 \<or> code c = 49 \<or> code c = 50 \<or> code c = 51 \<or> code c = 52 \<or> code c = 53 \<or>
      code c = 54 \<or> code c = 55 \<or> code c = 56 \<or> code c = 57"
    unfolding isdigit_def by presburger
  then have "code c \<in> set (map code ''0123456789'')" by (elim disjE) (simp_all add: code_def)
  then show ?thesis by (auto simp: code_inject)
qed

lemma show_nat_zero: "show_nat 0 = ''0''"
proof -
  have "code (char_of (48 + 0 :: nat)) = code CHR ''0''" by (simp add: code_def)
  then have "char_of (48 :: nat) = CHR ''0''" unfolding code_inject by simp
  then show ?thesis by (simp add: show_nat.simps [of 0])
qed

lemma at_simps [simp]:
  "at [] n = NUL" "at (c # s) 0 = c" "at (c # s) (Suc n) = at s n" "at (c # s) 1 = at s 0"
  by (simp_all add: at_def)

lemma show_nat_plain:
  "at (show_nat n) 0 \<noteq> CHR ''+''" "at (show_nat n) 0 \<noteq> CHR ''-''"
  "\<not> (at (show_nat n) 0 = CHR ''0'' \<and> isdigit (at (show_nat n) 1))"
proof -
  obtain c s where s: "show_nat n = c # s" using show_nat_nonempty [of n] by (cases "show_nat n") auto
  with show_nat_char [of c n] have d: "isdigit c" by simp
  then show "at (show_nat n) 0 \<noteq> CHR ''+''" "at (show_nat n) 0 \<noteq> CHR ''-''"
    by (auto simp: s isdigit_def code_def)
  show "\<not> (at (show_nat n) 0 = CHR ''0'' \<and> isdigit (at (show_nat n) 1))"
  proof
    assume a: "at (show_nat n) 0 = CHR ''0'' \<and> isdigit (at (show_nat n) 1)"
    with show_nat_lead [of n] have "n = 0" by (simp add: s)
    with a show False by (simp add: show_nat_zero isdigit_def code_def)
  qed
qed

text \<open>What stands behind the sign.\<close>

lemma show_int_body:
  "(if at (show_int i) 0 = CHR ''+'' \<or> at (show_int i) 0 = CHR ''-'' then drop 1 (show_int i) else show_int i) =
     show_nat (nat \<bar>i\<bar>)"
  "at (show_int i) 0 = CHR ''-'' \<longleftrightarrow> i < 0"
  using show_nat_plain [of "nat i"] by (auto simp: show_int_def)

lemma process_numstr_show_int: "process_numstr (show_int i) 10 = Inr (show_int i)"
proof -
  have no: "c \<noteq> CHR ''_'' \<and> c \<noteq> CHR ''.'' \<and> \<not> is_upper c" if "c \<in> set (show_int i)" for c
    using show_int_char [OF that] by (auto simp: isdigit_def is_upper_def code_def)
  have "squeeze 10 NUL (show_int i) = Some (show_int i)" "check_points NUL (show_int i) = Some (show_int i)"
    using no by (auto intro!: squeeze_id check_points_id)
  then show ?thesis
    unfolding process_numstr_def by (simp add: show_int_body(1) show_nat_plain(3) Let_def del: One_nat_def)
qed

lemma strtoll_show_int:
  "strtoll (show_int i) 10 =
     \<lparr>st_int = word_of_int (if i < - (2 ^ 63) then - (2 ^ 63) else if 2 ^ 63 \<le> i then 2 ^ 63 - 1 else i),
      st_erange = (i < - (2 ^ 63) \<or> 2 ^ 63 \<le> i), st_none = False, st_rest = []\<rparr>"
proof -
  have *: "(if i < 0 then - \<bar>i\<bar> else \<bar>i\<bar>) = i" by simp
  have d: "digits_loop 10 (if at (show_int i) 0 = CHR ''+'' \<or> at (show_int i) 0 = CHR ''-''
      then drop 1 (show_int i) else show_int i) 0 0 = (\<bar>i\<bar>, length (show_nat (nat \<bar>i\<bar>)), [])"
    unfolding show_int_body(1) digits_loop_show_nat by simp
  show ?thesis
    unfolding strtoll_def Let_def d prod.case
    unfolding show_int_body(2) * by (simp add: show_nat_nonempty)
qed

section \<open>The token of a number\<close>

text \<open>What may stand behind a number or a truth value.\<close>

definition stops :: string where
  "stops = [LF, CR, CHR '' '', TAB, CHR '','', CHR '']'', CHR ''}'', CHR ''#'']"

definition ends :: "string \<Rightarrow> bool" where
  "ends p \<longleftrightarrow> p = [] \<or> hd p \<in> set stops"

lemma ends_simps [simp]: "ends []" "ends (LF # p)"
  by (simp_all add: ends_def stops_def)

lemma ends_take: "ends p \<Longrightarrow> ends (take n p)"
  by (cases p; cases n) (auto simp: ends_def)

lemma ends_at: "ends p \<Longrightarrow> at p 0 \<notin> set ''0123456789_+-.:eExob'' \<and> \<not> isdigit (at p 0)"
  by (cases p) (auto simp: ends_def stops_def isdigit_def code_def)

lemma strspn_run:
  assumes "set s \<subseteq> set accept" and "ends p" and "set accept \<subseteq> set ''0123456789_+-.:eE''"
  shows "strspn (s @ p) accept = length s"
proof -
  have "takeWhile (\<lambda>c. c \<in> set accept) p = []"
  proof (cases p)
    case (Cons c q)
    with ends_at [OF assms(2)] have "c \<notin> set ''0123456789_+-.:eE''" by simp
    with assms(3) have "c \<notin> set accept" by blast
    with Cons show ?thesis by simp
  qed simp
  with assms(1) show ?thesis by (simp add: strspn_def takeWhile_append2 subset_iff)
qed

lemma show_int_cases:
  obtains c s where "show_int i = c # s" "\<forall>d \<in> set s. isdigit d" "isdigit c \<or> c = CHR ''-''"
    "c = CHR ''0'' \<Longrightarrow> i = 0 \<and> s = []"
proof -
  have ne: "show_nat n \<noteq> []" for n by (rule show_nat_nonempty)
  obtain c s where s: "show_int i = c # s" using ne by (cases "show_int i") (auto simp: show_int_def split: if_splits)
  have "\<forall>d \<in> set s. isdigit d"
    using s show_nat_char by (auto simp: show_int_def split: if_splits) (metis list.set_intros(2) show_nat_char)
  moreover have "isdigit c \<or> c = CHR ''-''" using show_int_char [of c i] s by simp
  moreover have "i = 0 \<and> s = []" if "c = CHR ''0''"
  proof -
    from that s have "\<not> i < 0" "show_nat (nat i) = CHR ''0'' # s" by (auto simp: show_int_def split: if_splits)
    with show_nat_lead [of "nat i"] have "i = 0" by simp
    with s that show ?thesis by (simp add: show_int_def show_nat_zero)
  qed
  ultimately show ?thesis using s that by blast
qed

text \<open>A printed integer is not taken for a date, a time or a based number.\<close>

lemma show_int_tests:
  assumes "ends p"
  shows "\<not> test_time (show_int i @ p)" "\<not> test_date (show_int i @ p)" "\<not> test_bool (show_int i @ p)"
    "test_number (show_int i @ p)"
proof -
  obtain c s where s: "show_int i = c # s" "\<forall>d \<in> set s. isdigit d" "isdigit c \<or> c = CHR ''-''"
    by (rule show_int_cases)
  have nd: "\<not> isdigit CHR '':''" "\<not> isdigit CHR ''-''" by (simp_all add: isdigit_def code_def)
  note p = ends_at [OF assms]
  have lead: "c \<in> set ''0123456789+-._''"
  proof (rule disjE [OF s(3)])
    assume "isdigit c"
    moreover have "set ''0123456789'' \<subseteq> set ''0123456789+-._''" by simp
    ultimately show ?thesis using isdigit_code by (rule_tac subsetD)
  qed simp
  have col: "x \<noteq> CHR '':''" "x \<noteq> CHR ''-''" if "isdigit x" for x using that nd by auto
  have e: "at p 0 \<noteq> CHR '':''" "at p 0 \<noteq> CHR ''-''" "\<not> isdigit (at p 0)" using p by auto
  show "\<not> test_time (show_int i @ p)"
  proof (cases s)
    case Nil
    with e show ?thesis by (simp add: test_time_def s(1))
  next
    case (Cons a r)
    with e col s(2) show ?thesis by (cases r) (auto simp: test_time_def s(1) numeral_2_eq_2)
  qed
  show "\<not> test_date (show_int i @ p)"
  proof -
    have "at (s @ p) 3 \<noteq> CHR ''-'' \<or> \<not> (isdigit (at (s @ p) 0) \<and> isdigit (at (s @ p) 1) \<and> isdigit (at (s @ p) 2))"
    proof (cases "length s \<le> 3")
      case True
      then have "length s = 0 \<or> length s = 1 \<or> length s = 2 \<or> length s = 3" by linarith
      then have "at (s @ p) (length s) = at p 0 \<and> length s \<in> {0, 1, 2, 3}" by (auto simp: at_def nth_append)
      with e show ?thesis by auto
    next
      case False
      then have "at (s @ p) 3 \<in> set s" by (simp add: at_def nth_append)
      with s(2) col show ?thesis by blast
    qed
    then show ?thesis by (auto simp: test_date_def s(1) eval_nat_numeral)
  qed
  show "\<not> test_bool (show_int i @ p)" using s(3) by (auto simp: test_bool_def s(1) isdigit_def code_def)
  show "test_number (show_int i @ p)"
    using lead by (simp add: test_number_def s(1))
qed

text \<open>The range of 64 bits.\<close>

definition int64_range :: "int \<Rightarrow> bool" where
  "int64_range i \<longleftrightarrow> - (2 ^ 63) \<le> i \<and> i < 2 ^ 63"

lemma scan_number_int:
  assumes "cur sp = show_int i @ p" and "ends p" and "length (show_int i) < 50"
  shows "scan_number sp =
    (if int64_range i
     then Inr (\<lparr>toktyp = TOK_INTEGER, tok_lineno = lineno sp, tok_str = show_int i, tok_u = ValInt64 (word_of_int i)\<rparr>,
               sp\<lparr>cur := p\<rparr>)
     else Inl (seterror (lineno sp) ''error parsing integer''))"
proof -
  obtain c s where s: "show_int i = c # s" "\<forall>d \<in> set s. isdigit d" "isdigit c \<or> c = CHR ''-''"
    "c = CHR ''0'' \<Longrightarrow> i = 0 \<and> s = []"
    by (rule show_int_cases) blast
  define q where "q = take (49 - length (show_int i)) p"
  have q: "ends q" unfolding q_def by (rule ends_take [OF assms(2)])
  have buf: "scan_copystr sp 50 = show_int i @ q"
    using assms(1,3) by (simp add: scan_copystr_def q_def)
  have pre: "prefix_base (show_int i @ q) = None"
    using ends_at [OF q] s(4) by (auto simp: prefix_base_def s(1))
  have dig: "x \<noteq> CHR ''i''" "x \<noteq> CHR ''n''" if "isdigit x" for x
    using that by (auto simp: isdigit_def code_def)
  have "at q 0 \<noteq> CHR ''i''" "at q 0 \<noteq> CHR ''n''"
    using q by (cases q; auto simp: ends_def stops_def)+
  then have "at (s @ q) 0 \<noteq> CHR ''i''" "at (s @ q) 0 \<noteq> CHR ''n''"
    using dig s(2) by (cases s; auto)+
  moreover have "c \<noteq> CHR ''i''" "c \<noteq> CHR ''n''" using s(3) dig by auto
  ultimately have letters: "(at (if b then drop 1 (show_int i @ q) else show_int i @ q) 0 = CHR ''i'' \<or>
      at (if b then drop 1 (show_int i @ q) else show_int i @ q) 0 = CHR ''n'') = False" for b
    by (simp add: s(1))
  have len: "strspn (show_int i @ q) ''0123456789_+-.eE'' = length (show_int i)"
  proof (rule strspn_run [OF _ q])
    show "set (show_int i) \<subseteq> set ''0123456789_+-.eE''"
    proof
      fix x
      assume "x \<in> set (show_int i)"
      then have "x \<in> set ''0123456789'' \<or> x = CHR ''-''" using show_int_char isdigit_code by blast
      moreover have "set ''0123456789'' \<subseteq> set ''0123456789_+-.eE''" by simp
      ultimately show "x \<in> set ''0123456789_+-.eE''" by (elim disjE) (erule (1) subsetD [rotated], simp)
    qed
  qed simp
  show ?thesis
    unfolding scan_number_def Let_def buf pre option.case len letters if_False
    by (simp add: assms(1) process_numstr_show_int strtoll_show_int literal_token_def mktoken_def advance_def
        int64_range_def del: One_nat_def)
qed

section \<open>Tokens of a line\<close>

definition word_char :: "char \<Rightarrow> bool" where
  "word_char c \<longleftrightarrow> c \<notin> {LF, CR, TAB, CHR '' '', CHR ''.'', CHR ''='', CHR '','', CHR ''{'', CHR ''}'', CHR ''#'',
     CHR ''['', CHR '']'', DQ, SQ}"

lemma is_bare_word: "is_bare c \<Longrightarrow> word_char c"
  by (auto simp: word_char_def is_bare_def isalnum_def isdigit_def is_upper_def is_lower_def code_def)

lemma is_bare_digit: "isdigit c \<Longrightarrow> is_bare c"
  by (simp add: is_bare_def isalnum_def)

lemma scan_next_word:
  assumes "cur sp = c # p" and "word_char c"
  shows "scan_next km sp = (if km then Inr (scan_literal sp) else scan_nonstring_literal sp)"
proof -
  have "scan_get sp = (Some c, sp\<lparr>cur := p\<rparr>)" using assms by (auto simp: word_char_def intro!: scan_get_char)
  with assms(2) show ?thesis by (simp add: scan_next.simps [of km sp] word_char_def)
qed

lemma scan_next_blank: "scan_next km (sp\<lparr>cur := replicate m CHR '' '' @ q\<rparr>) = scan_next km (sp\<lparr>cur := q\<rparr>)"
  by (induction m) (simp_all add: scan_next.simps [of km "sp\<lparr>cur := CHR '' '' # q\<rparr>" for q] scan_get_def)

lemma scan_next_space: "scan_next km (sp\<lparr>cur := CHR '' '' # q\<rparr>) = scan_next km (sp\<lparr>cur := q\<rparr>)"
  using scan_next_blank [of km 1 q sp] by simp

text \<open>A key, and what may stand behind it.\<close>

definition bare_key :: "string \<Rightarrow> bool" where
  "bare_key k \<longleftrightarrow> k \<noteq> [] \<and> list_all is_bare k"

lemma scan_key_word:
  assumes "bare_key k" and "p = [] \<or> \<not> is_bare (hd p)"
  shows "scan_key (sp\<lparr>cur := k @ p\<rparr>) =
    Inr (\<lparr>toktyp = TOK_LIT, tok_lineno = lineno sp, tok_str = k, tok_u = NoVal\<rparr>, sp\<lparr>cur := p\<rparr>)"
proof -
  obtain c k' where k: "k = c # k'" "is_bare c" using assms(1) by (cases k) (auto simp: bare_key_def)
  have "takeWhile is_bare (k @ p) = k"
    using assms by (cases p) (auto simp: bare_key_def list_all_iff takeWhile_append2)
  then have "scan_literal (sp\<lparr>cur := k @ p\<rparr>) =
      (\<lparr>toktyp = TOK_LIT, tok_lineno = lineno sp, tok_str = k, tok_u = NoVal\<rparr>, sp\<lparr>cur := p\<rparr>)"
    by (simp add: scan_literal_def literal_token_def mktoken_def advance_def)
  then show ?thesis
    using scan_next_word [of "sp\<lparr>cur := k @ p\<rparr>" c "k' @ p" True] k
    by (simp add: scan_key_def scan_mode_def is_bare_word check_overflow_def)
qed

lemma scan_key_equal:
  "scan_key (sp\<lparr>cur := replicate m CHR '' '' @ CHR ''='' # p\<rparr>) =
     Inr (\<lparr>toktyp = TOK_EQUAL, tok_lineno = lineno sp, tok_str = ''='', tok_u = NoVal\<rparr>, sp\<lparr>cur := p\<rparr>)"
  by (simp add: scan_key_def scan_mode_def scan_next_blank scan_next.simps [of True "sp\<lparr>cur := CHR ''='' # p\<rparr>"]
      scan_get_def mktoken_def check_overflow_def)

lemma scan_key_endl:
  "scan_key (sp\<lparr>cur := LF # p\<rparr>) =
     Inr (\<lparr>toktyp = TOK_ENDL, tok_lineno = lineno sp, tok_str = [LF], tok_u = NoVal\<rparr>,
          sp\<lparr>cur := p, lineno := lineno sp + 1\<rparr>)"
  by (simp add: scan_key_def scan_mode_def scan_next.simps [of True "sp\<lparr>cur := LF # p\<rparr>"]
      scan_get_def mktoken_def check_overflow_def)

lemma scan_key_fin: "scan_key (sp\<lparr>cur := []\<rparr>) = Inr (mktoken sp TOK_FIN, sp\<lparr>cur := []\<rparr>)"
  by (simp add: scan_key_def scan_mode_def scan_next.simps [of True "sp\<lparr>cur := []\<rparr>"]
      scan_get_def mktoken_def check_overflow_def)

lemma comment_loop_text:
  "list_all (\<lambda>c. \<not> bad_in_comment c) t \<Longrightarrow>
     comment_loop (sp\<lparr>cur := t @ LF # p\<rparr>) = Inr (sp\<lparr>cur := LF # p\<rparr>)"
proof (induction t)
  case (Cons c t)
  then have c: "\<not> bad_in_comment c" by simp
  then have "c \<noteq> LF" "c \<noteq> CR" by (auto simp: bad_in_comment_def code_def)
  with Cons show ?case
    by (simp add: comment_loop.simps [of "sp\<lparr>cur := c # t @ LF # p\<rparr>"] scan_match_def scan_get_def)
qed (simp add: comment_loop.simps [of "sp\<lparr>cur := LF # p\<rparr>"] scan_match_def)

lemma scan_key_comment:
  assumes "list_all (\<lambda>c. \<not> bad_in_comment c) t"
  shows "scan_key (sp\<lparr>cur := CHR ''#'' # t @ LF # p\<rparr>) = scan_key (sp\<lparr>cur := LF # p\<rparr>)"
  using comment_loop_text [OF assms, of p sp]
  by (simp add: scan_key_def scan_mode_def scan_next.simps [of True "sp\<lparr>cur := CHR ''#'' # t @ LF # p\<rparr>"] scan_get_def)

lemma scan_key_lbrack:
  assumes "p = [] \<or> hd p \<noteq> CHR ''[''" and "bracket_level sp < BRACKET_LEVEL_MAX"
  shows "scan_key (sp\<lparr>cur := CHR ''['' # p\<rparr>) =
    Inr (\<lparr>toktyp = TOK_LBRACK, tok_lineno = lineno sp, tok_str = ''['', tok_u = NoVal\<rparr>,
         sp\<lparr>cur := p, bracket_level := bracket_level sp + 1\<rparr>)"
  using assms
  by (cases p) (simp_all add: scan_key_def scan_mode_def scan_next.simps [of True "sp\<lparr>cur := CHR ''['' # p\<rparr>" for p]
      scan_get_def mktoken_def check_overflow_def bracket_def scan_match_def)

lemma scan_key_rbrack:
  "scan_key (sp\<lparr>cur := CHR '']'' # LF # p\<rparr>) =
    Inr (\<lparr>toktyp = TOK_RBRACK, tok_lineno = lineno sp, tok_str = '']'', tok_u = NoVal\<rparr>,
         sp\<lparr>cur := LF # p, bracket_level := bracket_level sp - 1\<rparr>)"
  by (simp add: scan_key_def scan_mode_def scan_next.simps [of True "sp\<lparr>cur := CHR '']'' # LF # p\<rparr>"]
      scan_get_def mktoken_def check_overflow_def bracket_def scan_match_def)

section \<open>Tokens of values\<close>

lemma scan_value_int:
  assumes "ends p" and "length (show_int i) < 50"
  shows "scan_value (sp\<lparr>cur := show_int i @ p\<rparr>) =
    (if int64_range i
     then Inr (\<lparr>toktyp = TOK_INTEGER, tok_lineno = lineno sp, tok_str = show_int i, tok_u = ValInt64 (word_of_int i)\<rparr>,
               sp\<lparr>cur := p\<rparr>)
     else Inl (seterror (lineno sp) ''error parsing integer''))"
proof -
  let ?sp = "sp\<lparr>cur := show_int i @ p\<rparr>"
  obtain c s where s: "show_int i = c # s" "isdigit c \<or> c = CHR ''-''" by (rule show_int_cases) blast
  then have "word_char c" using is_bare_word [of c] is_bare_digit [of c] by (auto simp: is_bare_def)
  then have "scan_next False ?sp = scan_nonstring_literal ?sp"
    using scan_next_word [of ?sp c "s @ p" False] by (simp add: s(1))
  also have "\<dots> = scan_number ?sp"
    using show_int_tests [OF assms(1), of i] by (simp add: scan_nonstring_literal_def)
  finally show ?thesis
    using scan_number_int [OF _ assms, of ?sp] by (simp add: scan_value_def scan_mode_def check_overflow_def)
qed

definition show_bool :: "bool \<Rightarrow> string" where
  "show_bool b = (if b then ''true'' else ''false'')"

lemma ends_stop:
  assumes "ends p"
  shows "\<not> (at p 0 \<noteq> NUL \<and> at p 0 \<notin> set (''# '' @ [CR, LF, TAB] @ '',}]''))"
  using assms by (cases p) (auto simp: ends_def stops_def)

lemma scan_value_bool:
  assumes "ends p"
  shows "scan_value (sp\<lparr>cur := show_bool b @ p\<rparr>) =
    Inr (\<lparr>toktyp = TOK_BOOL, tok_lineno = lineno sp, tok_str = show_bool b, tok_u = ValB1 b\<rparr>, sp\<lparr>cur := p\<rparr>)"
proof -
  let ?sp = "sp\<lparr>cur := show_bool b @ p\<rparr>"
  have "scan_bool ?sp =
      Inr (\<lparr>toktyp = TOK_BOOL, tok_lineno = lineno sp, tok_str = show_bool b, tok_u = ValB1 b\<rparr>, sp\<lparr>cur := p\<rparr>)"
    using ends_stop [OF ends_take [OF assms, of 5]] ends_stop [OF ends_take [OF assms, of 4]]
    by (cases b)
      (simp_all add: scan_bool_def scan_copystr_def show_bool_def literal_token_def mktoken_def advance_def Let_def
        eval_nat_numeral del: set_append set_simps)
  moreover have "scan_next False ?sp = scan_nonstring_literal ?sp"
    using scan_next_word [of ?sp "hd (show_bool b)" "tl (show_bool b) @ p" False]
    by (cases b) (simp_all add: show_bool_def word_char_def)
  moreover have "scan_nonstring_literal ?sp = scan_bool ?sp"
    by (cases b) (simp_all add: show_bool_def scan_nonstring_literal_def test_time_def test_date_def test_bool_def
        isdigit_def code_def)
  ultimately show ?thesis by (simp add: scan_value_def scan_mode_def check_overflow_def)
qed

lemma scan_value_string:
  assumes "p = [] \<or> hd p \<noteq> DQ"
  shows "scan_value (sp\<lparr>cur := DQ # quote s @ DQ # p\<rparr>) =
    Inr (\<lparr>toktyp = TOK_STRING, tok_lineno = lineno sp, tok_str = quote s,
          tok_u = Escp (escape_at 0 (quote s) None)\<rparr>, sp\<lparr>cur := p\<rparr>)"
proof -
  let ?sp = "sp\<lparr>cur := DQ # quote s @ DQ # p\<rparr>"
  have "scan_next False ?sp = scan_string ?sp" by (simp add: scan_next.simps [of False ?sp] scan_get_def)
  then show ?thesis
    using scan_string_quote [of ?sp s p] assms by (auto simp: scan_value_def scan_mode_def check_overflow_def)
qed

text \<open>Any byte string survives quoting, scanning and normalising.\<close>

lemma string_roundtrip:
  assumes "p = [] \<or> hd p \<noteq> DQ" and "pool_top pp + length (quote s) + 1 \<le> pool_max pp"
  shows "\<exists>tok. scan_value (sp\<lparr>cur := DQ # quote s @ DQ # p\<rparr>) = Inr (tok, sp\<lparr>cur := p\<rparr>) \<and>
    parse_val (Suc n) tok pp = Some (Inr (DString 0 s, pp\<lparr>pool_top := pool_top pp + length (quote s) + 1\<rparr>))"
  using scan_value_string [OF assms(1)] parse_norm_quote [OF assms(2)] by (simp add: token_to_string_def)

end
