(* ===== verification/Config_Text.thy ===== *)
theory Config_Text
  imports Toml_Text
begin

text \<open>
  Configurations read back: settings and then sections of settings, with comments and empty
  lines, the form of \<open>src/configs/caal.toml\<close> and of the entries that \<open>src/scripts/newcaal.sh\<close>
  appends.  The document that the reference printer \<open>show_config\<close> writes is parsed to exactly
  the tree \<open>config_tree\<close>.
\<close>

section \<open>Configurations as text\<close>

datatype config_value = VInt int | VBool bool | VString string

fun show_value :: "config_value \<Rightarrow> string" where
  "show_value (VInt i) = show_int i"
| "show_value (VBool b) = show_bool b"
| "show_value (VString s) = DQ # quote s @ [DQ]"

fun value_datum :: "config_value \<Rightarrow> datum" where
  "value_datum (VInt i) = DInt64 0 (word_of_int i)"
| "value_datum (VBool b) = DBoolean 0 b"
| "value_datum (VString s) = DString 0 s"

fun valid_value :: "config_value \<Rightarrow> bool" where
  "valid_value (VInt i) = int64_range i"
| "valid_value _ = True"

fun value_room :: "config_value \<Rightarrow> nat" where
  "value_room (VString s) = length (quote s) + 1"
| "value_room _ = 0"

text \<open>A setting with blanks before the equal sign, a comment, or an empty line.\<close>

datatype line = Setting string nat config_value | Comment string | Blank

fun show_line :: "line \<Rightarrow> string" where
  "show_line (Setting k m v) = k @ replicate m CHR '' '' @ CHR ''='' # CHR '' '' # show_value v @ [LF]"
| "show_line (Comment t) = CHR ''#'' # t @ [LF]"
| "show_line Blank = [LF]"

text \<open>Every number of 64 bits fits the buffer of the scanner.\<close>

lemma show_int_fits: "int64_range i \<Longrightarrow> length (show_int i) < 50"
  using length_show_nat [of "nat \<bar>i\<bar>" 19]
  by (auto simp: int64_range_def show_int_def nat_less_iff abs_if split: if_splits)

lemma scan_value_space: "scan_value (sp\<lparr>cur := CHR '' '' # q\<rparr>) = scan_value (sp\<lparr>cur := q\<rparr>)"
  by (simp add: scan_value_def scan_mode_def scan_next_space)

lemma value_parsed:
  assumes "valid_value v"
  obtains tok where "scan_value (sp\<lparr>cur := show_value v @ LF # p\<rparr>) = Inr (tok, sp\<lparr>cur := LF # p\<rparr>)"
    "\<forall>n pp. pool_top pp + value_room v \<le> pool_max pp \<longrightarrow>
       parse_val (Suc n) tok pp = Some (Inr (value_datum v, pp\<lparr>pool_top := pool_top pp + value_room v\<rparr>))"
proof (cases v)
  case (VInt i)
  with assms show ?thesis
    using that scan_value_int [of "LF # p" i sp] show_int_fits [of i] by (simp add: token_to_int64_def)
next
  case (VBool b)
  then show ?thesis
    using that scan_value_bool [of "LF # p" b sp] by (simp add: token_to_boolean_def)
next
  case (VString s)
  then show ?thesis
    using that scan_value_string [where p = "LF # p" and sp = sp and s = s] by (simp add: token_to_string_def parse_norm_quote)
qed

section \<open>Lines\<close>

lemma parse_key_bare:
  assumes "scan_key (scan pp) = Inr (tok2, sp1)" and "toktyp tok2 \<noteq> TOK_DOT"
    and "pool_top pp + length k + 1 \<le> pool_max pp"
  shows "parse_key \<lparr>toktyp = TOK_LIT, tok_lineno = ln, tok_str = k, tok_u = NoVal\<rparr> pp =
    Inr ([k], pp\<lparr>scan := scan_restore sp1 (scan_mark (scan pp)), pool_top := pool_top pp + length k + 1\<rparr>)"
  using assms
  by (simp add: parse_key_def is_keypart_def parse_norm_def pool_alloc_def
      key_loop.simps [of "[k]" "pp\<lparr>pool_top := p\<rparr>" for p])

lemma scan_self: "cur (scan pp) = q \<Longrightarrow> scan pp = (scan pp)\<lparr>cur := q\<rparr>"
  by simp

lemma scan_restore_cur: "scan_restore (sp\<lparr>cur := p\<rparr>) (scan_mark sp) = sp"
  by (simp add: scan_restore_def scan_mark_def)

lemma setting_parsed:
  assumes "cur (scan pp) = replicate m CHR '' '' @ CHR ''='' # CHR '' '' # show_value v @ LF # p"
    and "valid_value v"
    and "datum_at (toptab pp) (curtab pp) = DTable f kvs" and "f AND FLAG_INLINED = 0"
    and "k \<notin> fst ` set kvs" and "length kvs < TABLE_MAX"
    and "pool_top pp + length k + 1 + value_room v \<le> pool_max pp"
  shows "parse_keyvalue_expr (Suc n) \<lparr>toktyp = TOK_LIT, tok_lineno = ln, tok_str = k, tok_u = NoVal\<rparr> pp =
    Some (Inr (pp\<lparr>scan := (scan pp)\<lparr>cur := LF # p\<rparr>, pool_top := pool_top pp + length k + 1 + value_room v,
      toptab := put_at (toptab pp) (curtab pp) (DTable f (kvs @ [(k, value_datum v)]))\<rparr>))"
proof -
  obtain tok where tok: "scan_value ((scan pp)\<lparr>cur := show_value v @ LF # p\<rparr>) = Inr (tok, (scan pp)\<lparr>cur := LF # p\<rparr>)"
    "\<forall>n pp. pool_top pp + value_room v \<le> pool_max pp \<longrightarrow>
       parse_val (Suc n) tok pp = Some (Inr (value_datum v, pp\<lparr>pool_top := pool_top pp + value_room v\<rparr>))"
    by (rule value_parsed [OF assms(2), where sp = "scan pp" and p = p])
  let ?eq = "\<lparr>toktyp = TOK_EQUAL, tok_lineno = lineno (scan pp), tok_str = ''='', tok_u = NoVal\<rparr>"
  have eq: "scan_key (scan pp) = Inr (?eq, (scan pp)\<lparr>cur := CHR '' '' # show_value v @ LF # p\<rparr>)"
    by (subst scan_self [OF assms(1)]) (rule scan_key_equal)
  have "parse_key \<lparr>toktyp = TOK_LIT, tok_lineno = ln, tok_str = k, tok_u = NoVal\<rparr> pp =
      Inr ([k], pp\<lparr>pool_top := pool_top pp + length k + 1\<rparr>)"
    using parse_key_bare [OF eq, of k ln] assms(7) by (simp add: scan_restore_cur)
  moreover have "map_of kvs k = None" using assms(5) by (simp add: map_of_eq_None_iff)
  ultimately show ?thesis
    using assms(3,4,6,7) eq tok
    by (simp add: parse_keyvalue_expr_def scan_value_space has_flag_def tab_add_new del: parse_val.simps)
qed

lemma put_at_put_at: "put_at (put_at d p u) p v = put_at d p v"
proof (induction d p v rule: put_at.induct)
  case (2 f kvs i p v)
  then show ?case by (cases "i < length kvs") simp_all
qed simp_all

lemma put_at_same: "datum_at d p = v \<Longrightarrow> v \<noteq> DATUM_ZERO \<Longrightarrow> put_at d p v = d"
proof (induction d p v rule: put_at.induct)
  case (2 f kvs i p v)
  then show ?case by (cases "i < length kvs") auto
next
  case (3 f xs i p v)
  then show ?case by (cases "i < length xs") auto
qed simp_all

text \<open>
  The parser in front of the text \<open>p\<close>, with room in the pool for all of it, no bracket open,
  and the tree and current table as given.
\<close>

definition stands :: "parser \<Rightarrow> string \<Rightarrow> datum \<Rightarrow> nat list \<Rightarrow> bool" where
  "stands pp p t path \<longleftrightarrow>
     cur (scan pp) = p \<and> toptab pp = t \<and> curtab pp = path \<and> bracket_level (scan pp) \<le> 0 \<and>
     pool_top pp + length p \<le> pool_max pp"

definition adds :: "line \<Rightarrow> (string \<times> datum) list" where
  "adds l = (case l of Setting k m v \<Rightarrow> [(k, value_datum v)] | _ \<Rightarrow> [])"

fun valid_line :: "line \<Rightarrow> bool" where
  "valid_line (Setting k m v) \<longleftrightarrow> bare_key k \<and> valid_value v"
| "valid_line (Comment t) \<longleftrightarrow> list_all (\<lambda>c. \<not> bad_in_comment c) t"
| "valid_line Blank \<longleftrightarrow> True"

lemma value_room_le: "value_room v + 1 \<le> length (show_value v)"
proof (cases v)
  case (VInt i)
  then show ?thesis by (auto simp: show_int_def Suc_le_eq show_nat_nonempty)
next
  case (VBool b)
  then show ?thesis by (simp add: show_bool_def)
qed simp

lemma bare_next: "\<not> is_bare CHR '' ''" "\<not> is_bare CHR ''=''" "\<not> is_bare CHR '']''"
  by (simp_all add: is_bare_def isalnum_def isdigit_def is_upper_def is_lower_def code_def)

lemma skip_line:
  assumes "scan_key (scan pp) = scan_key ((scan pp)\<lparr>cur := LF # p\<rparr>)"
    and "stands pp (q @ LF # p) t path"
  shows "\<exists>pp'. stands pp' p t path \<and> doc_loop (Suc n) pp = doc_loop n pp'"
proof -
  let ?sp = "(scan pp)\<lparr>cur := p, lineno := lineno (scan pp) + 1\<rparr>"
  have "doc_loop (Suc n) pp = doc_loop n (pp\<lparr>scan := ?sp\<rparr>)" using assms(1) by (simp add: scan_key_endl)
  moreover have "stands (pp\<lparr>scan := ?sp\<rparr>) p t path" using assms(2) by (simp add: stands_def)
  ultimately show ?thesis by blast
qed

lemma line_parsed:
  assumes "stands pp (show_line l @ p) t path" and "valid_line l"
    and "datum_at t path = DTable f kvs" and "f AND FLAG_INLINED = 0"
    and "distinct (map fst (kvs @ adds l))" and "length (kvs @ adds l) \<le> TABLE_MAX"
  shows "\<exists>pp'. stands pp' p (put_at t path (DTable f (kvs @ adds l))) path \<and>
    doc_loop (Suc (Suc n)) pp = doc_loop (Suc n) pp'"
proof (cases l)
  case (Setting k m v)
  let ?q = "replicate m CHR '' '' @ CHR ''='' # CHR '' '' # show_value v @ LF # p"
  let ?tok = "\<lparr>toktyp = TOK_LIT, tok_lineno = lineno (scan pp), tok_str = k, tok_u = NoVal\<rparr>"
  let ?pp1 = "pp\<lparr>scan := (scan pp)\<lparr>cur := ?q\<rparr>\<rparr>"
  let ?pp2 = "?pp1\<lparr>scan := (scan pp)\<lparr>cur := LF # p\<rparr>, pool_top := pool_top pp + length k + 1 + value_room v,
      toptab := put_at t path (DTable f (kvs @ [(k, value_datum v)]))\<rparr>"
  have st: "cur (scan pp) = k @ ?q" "toptab pp = t" "curtab pp = path" "bracket_level (scan pp) \<le> 0"
    "pool_top pp + length (k @ ?q) \<le> pool_max pp"
    using assms(1) Setting by (simp_all add: stands_def)
  have "bare_key k" "valid_value v" using assms(2) Setting by simp_all
  have "hd ?q = CHR '' '' \<or> hd ?q = CHR ''=''" by (cases m) simp_all
  with bare_next have "?q = [] \<or> \<not> is_bare (hd ?q)" by metis
  with \<open>bare_key k\<close> have s1: "scan_key (scan pp) = Inr (?tok, scan ?pp1)"
    by (subst scan_self [OF st(1)]) (simp add: scan_key_word)
  have "k \<notin> fst ` set kvs" "length kvs < TABLE_MAX"
    using assms(5,6) Setting by (auto simp: adds_def)
  then have s2: "parse_keyvalue_expr (Suc n) ?tok ?pp1 = Some (Inr ?pp2)"
    using st assms(3,4) value_room_le [of v]
    by (subst setting_parsed [where m = m and v = v and p = p and f = f and kvs = kvs]) (auto simp: \<open>valid_value v\<close>)
  have "doc_loop (Suc (Suc n)) pp =
      doc_loop (Suc n) (?pp2\<lparr>scan := (scan pp)\<lparr>cur := p, lineno := lineno (scan pp) + 1\<rparr>\<rparr>)"
    using s1 s2 scan_key_endl [of p "scan pp"] by (simp add: parse_expr_def del: parse_val.simps)
  moreover have "stands (?pp2\<lparr>scan := (scan pp)\<lparr>cur := p, lineno := lineno (scan pp) + 1\<rparr>\<rparr>) p
      (put_at t path (DTable f (kvs @ adds l))) path"
    using st value_room_le [of v] Setting by (simp add: stands_def adds_def)
  ultimately show ?thesis by blast
next
  case (Comment c)
  have st: "cur (scan pp) = CHR ''#'' # c @ LF # p" using assms(1) Comment by (simp add: stands_def)
  have "scan_key (scan pp) = scan_key ((scan pp)\<lparr>cur := LF # p\<rparr>)"
    using assms(2) Comment by (subst scan_self [OF st]) (simp add: scan_key_comment)
  from skip_line [OF this, of "CHR ''#'' # c" t path "Suc n"] assms(1,3) Comment show ?thesis
    by (simp add: adds_def put_at_same DATUM_ZERO_def)
next
  case Blank
  have st: "cur (scan pp) = LF # p" using assms(1) Blank by (simp add: stands_def)
  have "scan_key (scan pp) = scan_key ((scan pp)\<lparr>cur := LF # p\<rparr>)"
    by (subst scan_self [OF st]) (rule refl)
  from skip_line [OF this, of "[]" t path "Suc n"] assms(1,3) Blank show ?thesis
    by (simp add: adds_def put_at_same DATUM_ZERO_def)
qed

text \<open>A block of lines, all of them for the current table.\<close>

definition show_block :: "line list \<Rightarrow> string" where
  "show_block ls = concat (map show_line ls)"

definition settings :: "line list \<Rightarrow> (string \<times> datum) list" where
  "settings ls = concat (map adds ls)"

lemma block_simps [simp]:
  "show_block [] = []" "show_block (l # ls) = show_line l @ show_block ls"
  "settings [] = []" "settings (l # ls) = adds l @ settings ls"
  by (simp_all add: show_block_def settings_def)

lemma block_parsed:
  assumes "stands pp (show_block ls @ p) t path" and "list_all valid_line ls"
    and "datum_at t path = DTable f kvs" and "f AND FLAG_INLINED = 0"
    and "distinct (map fst (kvs @ settings ls))" and "length (kvs @ settings ls) \<le> TABLE_MAX"
  shows "\<exists>pp'. stands pp' p (put_at t path (DTable f (kvs @ settings ls))) path \<and>
    doc_loop (length ls + Suc n) pp = doc_loop (Suc n) pp'"
  using assms
proof (induction ls arbitrary: pp t kvs)
  case Nil
  then show ?case by (auto simp: put_at_same DATUM_ZERO_def)
next
  case (Cons l ls)
  let ?t = "put_at t path (DTable f (kvs @ adds l))"
  obtain pp1 where 1: "stands pp1 (show_block ls @ p) ?t path"
    "doc_loop (length (l # ls) + Suc n) pp = doc_loop (length ls + Suc n) pp1"
    using line_parsed [of pp l "show_block ls @ p" t path f kvs "length ls + n"] Cons.prems
    by (auto simp: Int_Un_distrib simp del: doc_loop.simps)
  have "datum_at ?t path = DTable f (kvs @ adds l)"
    using Cons.prems(3) by (intro datum_at_put_at) (simp add: DATUM_ZERO_def)
  from Cons.IH [OF 1(1) _ this Cons.prems(4)] Cons.prems(2,5,6) 1(2) show ?case
    by (simp add: put_at_put_at del: doc_loop.simps)
qed

text \<open>The header of a section, which opens a new table at the end of the top table.\<close>

definition FLAG_HEADER :: flag where "FLAG_HEADER = FLAG_STDEXPR OR FLAG_EXPLICIT"

lemma level_cur: "sp\<lparr>cur := p, bracket_level := b\<rparr> = sp\<lparr>bracket_level := b, cur := p\<rparr>"
  by simp

lemma header_parsed:
  assumes "stands pp (CHR ''['' # k @ CHR '']'' # LF # p) (DTable f kvs) path" and "bare_key k"
    and "f AND FLAG_INLINED = 0" and "k \<notin> fst ` set kvs" and "length kvs < TABLE_MAX"
  shows "\<exists>pp'. stands pp' p (DTable f (kvs @ [(k, DTable FLAG_HEADER [])])) [length kvs] \<and>
    doc_loop (Suc n) pp = doc_loop n pp'"
proof -
  let ?sp = "scan pp" and ?ln = "lineno (scan pp)"
  let ?lb = "\<lparr>toktyp = TOK_LBRACK, tok_lineno = ?ln, tok_str = ''['', tok_u = NoVal\<rparr>"
  let ?rb = "\<lparr>toktyp = TOK_RBRACK, tok_lineno = ?ln, tok_str = '']'', tok_u = NoVal\<rparr>"
  let ?tok = "\<lparr>toktyp = TOK_LIT, tok_lineno = ?ln, tok_str = k, tok_u = NoVal\<rparr>"
  let ?spb = "?sp\<lparr>bracket_level := bracket_level ?sp + 1\<rparr>"
  let ?sp1 = "?spb\<lparr>cur := k @ CHR '']'' # LF # p\<rparr>"
  let ?sp2 = "?spb\<lparr>cur := CHR '']'' # LF # p\<rparr>"
  have st: "cur ?sp = CHR ''['' # k @ CHR '']'' # LF # p" "toptab pp = DTable f kvs" "curtab pp = path"
    "bracket_level ?sp \<le> 0" "pool_top pp + length k + 3 + length p \<le> pool_max pp"
    using assms(1) by (simp_all add: stands_def)
  have "k \<noteq> []" "hd k \<noteq> CHR ''[''"
    using assms(2) by (cases k; auto simp: bare_key_def dest!: is_bare_word; simp add: word_char_def)+
  then have s1: "scan_key ?sp = Inr (?lb, ?sp1)"
    using st(4) by (subst scan_self [OF st(1)], subst scan_key_lbrack) (auto simp: BRACKET_LEVEL_MAX_def level_cur)
  have s2: "scan_key ?sp1 = Inr (?tok, ?sp2)"
    using scan_key_word [OF assms(2), of "CHR '']'' # LF # p" ?spb] bare_next(3) by simp
  have s3: "scan_key ?sp2 = Inr (?rb, ?sp\<lparr>cur := LF # p\<rparr>)"
    using scan_key_rbrack [of p ?spb] by (simp add: level_cur)
  let ?sp3 = "?sp\<lparr>cur := CHR '']'' # LF # p\<rparr>"
  let ?pp1 = "pp\<lparr>scan := ?sp3, pool_top := pool_top pp + length k + 1\<rparr>"
  have k: "parse_key ?tok (pp\<lparr>scan := ?sp2\<rparr>) = Inr ([k], ?pp1)"
  proof -
    have "scan_key (scan (pp\<lparr>scan := ?sp2\<rparr>)) = Inr (?rb, ?sp\<lparr>cur := LF # p\<rparr>)" using s3 by simp
    moreover have "scan_restore (?sp\<lparr>cur := LF # p\<rparr>) (scan_mark ?sp2) = ?sp3"
      by (cases "scan pp") (simp add: scan_restore_def scan_mark_def)
    ultimately show ?thesis using parse_key_bare [of "pp\<lparr>scan := ?sp2\<rparr>" ?rb _ k ?ln] st(5) by simp
  qed
  let ?spd = "?sp\<lparr>bracket_level := bracket_level ?sp - 1\<rparr>"
  have s4: "scan_key ?sp3 = Inr (?rb, ?spd\<lparr>cur := LF # p\<rparr>)"
    using scan_key_rbrack [of p ?sp] by (simp add: level_cur)
  let ?pp2 = "?pp1\<lparr>scan := ?spd\<lparr>cur := LF # p\<rparr>,
      toptab := DTable f (kvs @ [(k, DTable FLAG_HEADER [])]), curtab := [length kvs]\<rparr>"
  have n: "map_of kvs k = None" using assms(4) by (simp add: map_of_eq_None_iff)
  have "find_slot (\<lambda>kv. fst kv = k) kvs = None" using n by (simp add: find_slot_map_of)
  then have "std_table_place ?ln (DTable f kvs) k = Inr (DTable f (kvs @ [(k, new_table True)]), length kvs)"
    using assms(3,5) n by (simp add: std_table_place_def has_flag_def tab_add_new)
  then have "parse_std_table_expr (pp\<lparr>scan := ?sp1\<rparr>) = Inr ?pp2"
    using s2 k s4 st(2) by (simp add: parse_std_table_expr_def nth_append new_table_def FLAG_HEADER_def)
  then have "doc_loop (Suc n) pp =
      doc_loop n (?pp2\<lparr>scan := (scan ?pp2)\<lparr>cur := p, lineno := ?ln + 1\<rparr>\<rparr>)"
    using s1 scan_key_endl [of p ?spd] by (simp add: parse_expr_def)
  moreover have "stands (?pp2\<lparr>scan := (scan ?pp2)\<lparr>cur := p, lineno := ?ln + 1\<rparr>\<rparr>) p
      (DTable f (kvs @ [(k, DTable FLAG_HEADER [])])) [length kvs]"
    using st by (simp add: stands_def)
  ultimately show ?thesis by blast
qed

section \<open>Documents\<close>

text \<open>Settings, then sections of settings.\<close>

type_synonym config = "line list \<times> (string \<times> line list) list"

definition show_section :: "string \<times> line list \<Rightarrow> string" where
  "show_section s = CHR ''['' # fst s @ CHR '']'' # LF # show_block (snd s)"

definition show_config :: "config \<Rightarrow> string" where
  "show_config d = show_block (fst d) @ concat (map show_section (snd d))"

definition section_entry :: "string \<times> line list \<Rightarrow> string \<times> datum" where
  "section_entry s = (fst s, DTable FLAG_HEADER (settings (snd s)))"

definition config_tree :: "config \<Rightarrow> datum" where
  "config_tree d = DTable 0 (settings (fst d) @ map section_entry (snd d))"

text \<open>Bare keys, values of 64 bits, no key twice in a table, no table beyond its limit.\<close>

definition valid_block :: "line list \<Rightarrow> bool" where
  "valid_block ls \<longleftrightarrow>
     list_all valid_line ls \<and> distinct (map fst (settings ls)) \<and> length (settings ls) \<le> TABLE_MAX"

definition valid_config :: "config \<Rightarrow> bool" where
  "valid_config d \<longleftrightarrow>
     valid_block (fst d) \<and> list_all (\<lambda>s. bare_key (fst s) \<and> valid_block (snd s)) (snd d) \<and>
     distinct (map fst (settings (fst d)) @ map fst (snd d)) \<and>
     length (settings (fst d)) + length (snd d) \<le> TABLE_MAX"

lemma header_not_inlined: "FLAG_HEADER AND FLAG_INLINED = 0"
  by (simp add: FLAG_HEADER_def FLAG_STDEXPR_def FLAG_EXPLICIT_def FLAG_INLINED_def)

lemma section_parsed:
  assumes "stands pp (show_section s @ p) (DTable f kvs) path" and "bare_key (fst s)" and "valid_block (snd s)"
    and "f AND FLAG_INLINED = 0" and "fst s \<notin> fst ` set kvs" and "length kvs < TABLE_MAX"
  shows "\<exists>pp'. stands pp' p (DTable f (kvs @ [section_entry s])) [length kvs] \<and>
    doc_loop (Suc (length (snd s)) + Suc n) pp = doc_loop (Suc n) pp'"
proof -
  let ?t = "DTable f (kvs @ [(fst s, DTable FLAG_HEADER [])])"
  obtain pp1 where 1: "stands pp1 (show_block (snd s) @ p) ?t [length kvs]"
    "doc_loop (Suc (length (snd s) + Suc n)) pp = doc_loop (length (snd s) + Suc n) pp1"
    using header_parsed [of pp "fst s" "show_block (snd s) @ p" f kvs path "length (snd s) + Suc n"] assms
    by (auto simp: show_section_def simp del: doc_loop.simps)
  have "datum_at ?t [length kvs] = DTable FLAG_HEADER []" by (simp add: nth_append)
  from block_parsed [OF 1(1) _ this header_not_inlined, of n] assms(3) 1(2) show ?thesis
    by (auto simp: valid_block_def section_entry_def nth_append simp del: doc_loop.simps)
qed

primrec sections_lines :: "(string \<times> line list) list \<Rightarrow> nat" where
  "sections_lines [] = 0"
| "sections_lines (s # ss) = Suc (length (snd s)) + sections_lines ss"

lemma sections_parsed:
  assumes "stands pp (concat (map show_section ss)) (DTable f kvs) path"
    and "list_all (\<lambda>s. bare_key (fst s) \<and> valid_block (snd s)) ss" and "f AND FLAG_INLINED = 0"
    and "distinct (map fst kvs @ map fst ss)" and "length kvs + length ss \<le> TABLE_MAX"
  shows "\<exists>pp' path'. stands pp' [] (DTable f (kvs @ map section_entry ss)) path' \<and>
    doc_loop (sections_lines ss + Suc n) pp = doc_loop (Suc n) pp'"
  using assms
proof (induction ss arbitrary: pp kvs path)
  case Nil
  then show ?case by auto
next
  case (Cons s ss)
  obtain pp1 where 1: "stands pp1 (concat (map show_section ss)) (DTable f (kvs @ [section_entry s])) [length kvs]"
    "doc_loop (Suc (length (snd s)) + Suc (sections_lines ss + n)) pp = doc_loop (Suc (sections_lines ss + n)) pp1"
    using section_parsed [of pp s "concat (map show_section ss)" f kvs path "sections_lines ss + n"] Cons.prems
    by (auto simp del: doc_loop.simps)
  have "fst (section_entry s) = fst s" by (simp add: section_entry_def)
  with Cons.IH [OF 1(1) _ Cons.prems(3)] Cons.prems(2,4,5) 1(2) show ?case
    by (auto simp: ac_simps simp del: doc_loop.simps)
qed

text \<open>The document has at least as many characters as lines.\<close>

lemma show_block_length: "length ls \<le> length (show_block ls)"
proof (induction ls)
  case (Cons l ls)
  then show ?case by (cases l) simp_all
qed simp

lemma sections_length: "sections_lines ss \<le> length (concat (map show_section ss))"
proof (induction ss)
  case (Cons s ss)
  then show ?case using show_block_length [of "snd s"] by (simp add: show_section_def)
qed simp

theorem config_parsed:
  assumes "valid_config d"
  shows "toml_parse toml_default_option (show_config d) (length (show_config d)) = Some (Inr (config_tree d))"
proof -
  obtain ls ss where d: "d = (ls, ss)" by (cases d)
  let ?src = "show_config d"
  have "stands (parser_init ?src) (show_block ls @ concat (map show_section ss)) (DTable 0 []) []"
    by (simp add: stands_def parser_init_def scan_init_def show_config_def d)
  note start = this
  define n where "n = parse_fuel ?src - (length ls + sections_lines ss) - 1"
  have n: "parse_fuel ?src = length ls + Suc (sections_lines ss + n)"
    using show_block_length [of ls] sections_length [of ss]
    by (simp add: n_def parse_fuel_def show_config_def d)
  obtain pp1 where 1: "stands pp1 (concat (map show_section ss)) (DTable 0 (settings ls)) []"
    "doc_loop (length ls + Suc (sections_lines ss + n)) (parser_init ?src) = doc_loop (Suc (sections_lines ss + n)) pp1"
    using block_parsed [OF start, of 0 "[]" "sections_lines ss + n"] assms
    by (auto simp: valid_config_def valid_block_def d simp del: doc_loop.simps)
  obtain pp2 path where 2: "stands pp2 [] (config_tree d) path"
    "doc_loop (sections_lines ss + Suc n) pp1 = doc_loop (Suc n) pp2"
    using sections_parsed [OF 1(1), of n] assms
    by (auto simp: valid_config_def config_tree_def d simp del: doc_loop.simps)
  have e: "cur (scan pp2) = []" using 2(1) by (simp add: stands_def)
  have "scan_key (scan pp2) = Inr (mktoken (scan pp2) TOK_FIN, scan pp2)"
    using scan_key_fin [of "scan pp2"] unfolding scan_self [OF e, symmetric] .
  then have "doc_loop (Suc n) pp2 = Some (Inr (config_tree d))" using 2(1) by (simp add: stands_def)
  with 1(2) 2(2) n show ?thesis
    by (simp add: toml_parse_def toml_default_option_def at_def del: doc_loop.simps)
qed

end
