(* ===== verification/Config_File.thy ===== *)
theory Config_File
  imports Config_Text Shell
begin

text \<open>
  From the file to the decision: \<open>toml_parse_file\<close> of \<open>src/src/lib/tomlc17.c\<close> with its growing
  buffer, how \<open>caalsh\<close> and \<open>caald\<close> use its result, and what both then decide about a
  configuration of the form of \<open>Config_Text\<close>.
\<close>

section \<open>Reading the file\<close>

text \<open>
  A stream opened for reading: the bytes still to come, and, when an error rather than the
  end of the file follows them, the message for it.
\<close>

record stream =
  st_bytes :: string
  st_error :: "string option"

text \<open>\<open>fread(p, 1, n, fp)\<close>: the bytes, and whether the stream has come to its end.\<close>

definition fread :: "nat \<Rightarrow> stream \<Rightarrow> string \<times> bool \<times> stream" where
  "fread n fp =
     (take n (st_bytes fp), length (st_bytes fp) < n, fp\<lparr>st_bytes := drop n (st_bytes fp)\<rparr>)"

text \<open>The next size of the buffer, unless it reaches the limit.\<close>

definition grow :: "nat \<Rightarrow> nat option" where
  "grow mx = (if nat INT_MAX - 1 \<le> mx * 3 div 2 + 1000 then None else Some (mx * 3 div 2 + 1000))"

lemma grow_bigger: "grow mx = Some m \<Longrightarrow> mx < m"
  by (auto simp: grow_def split: if_splits)

text \<open>
  The loop.  \<open>fread\<close> comes short of what is asked for only at the end of the stream, so the
  buffer is full (\<open>top = max\<close>) at the start of every round, and its length is \<open>max\<close>.
  \<open>realloc\<close> may refuse a size.
\<close>

function file_loop :: "(nat \<Rightarrow> bool) \<Rightarrow> string \<Rightarrow> stream \<Rightarrow> string + string" where
  "file_loop alloc buf fp =
     (case grow (length buf) of
        None \<Rightarrow> Inl ''file is too big''
      | Some mx \<Rightarrow>
          if \<not> alloc (mx + 1) then Inl ''out of memory''
          else case fread (mx - length buf) fp of
            (bs, eof, fp') \<Rightarrow>
              if \<not> eof then file_loop alloc (buf @ bs) fp'
              else case st_error fp of
                     Some msg \<Rightarrow> Inl (snprintf_s ERRMSG_SIZE msg)
                   | None \<Rightarrow> Inr (buf @ bs))"
  by pat_completeness auto
termination
  by (relation "measure (\<lambda>(alloc, buf, fp). length (st_bytes fp))")
    (auto simp: fread_def dest: grow_bigger)

declare file_loop.simps [simp del]

definition toml_parse_file :: "toml_option \<Rightarrow> (nat \<Rightarrow> bool) \<Rightarrow> stream \<Rightarrow> (string + datum) option" where
  "toml_parse_file opt alloc fp =
     (case file_loop alloc [] fp of
        Inl e \<Rightarrow> Some (Inl e)
      | Inr buf \<Rightarrow> toml_parse opt buf (length buf))"

text \<open>By name; the text of \<open>strerror\<close> when \<open>fopen\<close> fails is a parameter.\<close>

definition toml_parse_file_ex :: "toml_option \<Rightarrow> (nat \<Rightarrow> bool) \<Rightarrow> string \<Rightarrow> string \<Rightarrow> stream option \<Rightarrow> (string + datum) option" where
  "toml_parse_file_ex opt alloc strerror fname file =
     (case file of
        None \<Rightarrow> Some (Inl (snprintf_s ERRMSG_SIZE (''fopen '' @ fname @ '': '' @ strerror)))
      | Some fp \<Rightarrow> toml_parse_file opt alloc fp)"

text \<open>What \<open>reload_config\<close> and \<open>main\<close> of \<open>caalsh\<close> make of it; no stream when \<open>fopen\<close> fails.\<close>

definition read_config :: "(nat \<Rightarrow> bool) \<Rightarrow> stream option \<Rightarrow> cfg_read option" where
  "read_config alloc file =
     (case file of
        None \<Rightarrow> Some CfgMissing
      | Some fp \<Rightarrow>
          (case toml_parse_file toml_default_option alloc fp of
             None \<Rightarrow> None
           | Some (Inl e) \<Rightarrow> Some CfgBad
           | Some (Inr t) \<Rightarrow> Some (CfgOk t)))"

text \<open>Files below a gigabyte are read whole, provided that memory suffices.\<close>

lemma file_loop_whole:
  assumes "length buf + length (st_bytes fp) < 2 ^ 30"
    and "\<And>n. n \<le> 2 ^ 31 \<Longrightarrow> alloc n"
  shows "file_loop alloc buf fp =
    (case st_error fp of None \<Rightarrow> Inr (buf @ st_bytes fp) | Some msg \<Rightarrow> Inl (snprintf_s ERRMSG_SIZE msg))"
  using assms
proof (induction alloc buf fp rule: file_loop.induct)
  case (1 alloc buf fp)
  let ?mx = "length buf * 3 div 2 + 1000"
  have lim: "length buf < 1073741824" using "1.prems"(1) by simp
  then have g: "grow (length buf) = Some ?mx" by (simp add: grow_def INT_MAX_def)
  have a: "alloc (Suc ?mx)" using lim by (intro "1.prems"(2)) simp
  show ?case
  proof (cases "length (st_bytes fp) < ?mx - length buf")
    case True
    with g a show ?thesis by (subst file_loop.simps) (simp add: fread_def split: option.split)
  next
    case False
    define bs fp' where "bs = take (?mx - length buf) (st_bytes fp)"
      and "fp' = fp\<lparr>st_bytes := drop (?mx - length buf) (st_bytes fp)\<rparr>"
    have r: "fread (?mx - length buf) fp = (bs, False, fp')"
      using False by (simp add: fread_def bs_def fp'_def)
    have fp': "st_error fp' = st_error fp" "bs @ st_bytes fp' = st_bytes fp" by (simp_all add: bs_def fp'_def)
    have "length (buf @ bs) + length (st_bytes fp') < 2 ^ 30"
      using "1.prems"(1) arg_cong [OF fp'(2), of length] by simp
    with "1.IH" [OF g _ r [symmetric] refl] a "1.prems"(2) fp' show ?thesis
      by (subst file_loop.simps) (simp add: g r split: option.split)
  qed
qed

lemma parse_file_whole:
  assumes "length (st_bytes fp) < 2 ^ 30" and "\<And>n. n \<le> 2 ^ 31 \<Longrightarrow> alloc n"
  shows "toml_parse_file opt alloc fp =
    (case st_error fp of
       None \<Rightarrow> toml_parse opt (st_bytes fp) (length (st_bytes fp))
     | Some msg \<Rightarrow> Some (Inl (snprintf_s ERRMSG_SIZE msg)))"
  using file_loop_whole [of "[]" fp alloc] assms by (simp add: toml_parse_file_def split: option.split)

text \<open>Reading always comes to an answer.\<close>

lemma read_config_total: "read_config alloc file \<noteq> None"
  by (auto simp: read_config_def toml_parse_file_def toml_parse_total split: option.split sum.split)

section \<open>What a configuration means\<close>

text \<open>The value of a key in a block of lines.\<close>

fun setting :: "line list \<Rightarrow> string \<Rightarrow> config_value option" where
  "setting [] key = None"
| "setting (Setting k m v # ls) key = (if k = key then Some v else setting ls key)"
| "setting (l # ls) key = setting ls key"

text \<open>The decision about a user, read off the configuration.\<close>

definition intended_section :: "(string \<Rightarrow> config_value option) \<Rightarrow> string + login" where
  "intended_section s =
     (case s ''bundle'' of
        None \<Rightarrow> Inl ''[CaaLsh] user not configured, access denied''
      | Some (VString b) \<Rightarrow>
          if take 1 (cstr b) \<noteq> ''/'' then Inl ''[CaaLsh] bundle path must be absolute''
          else if s ''enabled'' = Some (VBool False) then Inl ''[CaaLsh] user disabled, access denied''
          else Inr \<lparr>lg_bundle = cstr b,
            lg_timeout = (case s ''timeout'' of Some (VInt i) \<Rightarrow> word_of_int i | _ \<Rightarrow> 0),
            lg_disk = (case s ''disk'' of Some (VInt i) \<Rightarrow> if 0 < i then word_of_int i else 1024 | _ \<Rightarrow> 1024)\<rparr>
      | Some v \<Rightarrow> Inl ''[CaaLsh] bundle is not a string'')"

definition intended_login :: "config \<Rightarrow> string \<Rightarrow> string + login" where
  "intended_login d u =
     (case map_of (snd d) u of
        None \<Rightarrow> Inl ''[CaaLsh] user not configured, access denied''
      | Some ls \<Rightarrow> intended_section (setting ls))"

definition intended_limit :: "config \<Rightarrow> int" where
  "intended_limit d = (case setting (fst d) ''max_sessions'' of Some (VInt i) \<Rightarrow> i | _ \<Rightarrow> 0)"

lemma map_of_settings: "map_of (settings ls) k = map_option value_datum (setting ls k)"
  by (induction ls k rule: setting.induct) (simp_all add: adds_def)

lemma setting_keys: "list_all valid_line ls \<Longrightarrow> k \<in> fst ` set (settings ls) \<Longrightarrow> bare_key k"
  by (induction ls) (auto simp: adds_def split: line.splits)

lemma setting_range: "list_all valid_line ls \<Longrightarrow> setting ls k = Some v \<Longrightarrow> valid_value v"
  by (induction ls k rule: setting.induct) (auto split: if_splits)

lemma bare_plain: "bare_key k \<Longrightarrow> NUL \<notin> set k \<and> CHR ''.'' \<notin> set k"
proof -
  have "\<not> is_bare NUL" "\<not> is_bare CHR ''.''"
    by (simp_all add: is_bare_def isalnum_def isdigit_def is_upper_def is_lower_def code_def)
  then show "bare_key k \<Longrightarrow> NUL \<notin> set k \<and> CHR ''.'' \<notin> set k"
    by (auto simp: bare_key_def list_all_iff)
qed

lemma get_bare:
  assumes "\<forall>k \<in> fst ` set kvs. bare_key k" and "NUL \<notin> set key"
  shows "toml_get (DTable f kvs) key = (case map_of kvs key of None \<Rightarrow> DATUM_ZERO | Some v \<Rightarrow> v)"
  using assms by (simp add: get_loop_map_of bare_plain)

definition value_or_zero :: "config_value option \<Rightarrow> datum" where
  "value_or_zero v = (case v of None \<Rightarrow> DATUM_ZERO | Some w \<Rightarrow> value_datum w)"

lemma get_setting:
  assumes "list_all valid_line ls" and "NUL \<notin> set key"
  shows "toml_get (DTable f (settings ls)) key = value_or_zero (setting ls key)"
  using assms setting_keys [OF assms(1)]
  by (subst get_bare) (auto simp: map_of_settings value_or_zero_def split: option.split)

text \<open>The section of a user in the tree.\<close>

lemma section_keys: "map fst (map section_entry ss) = map fst ss"
  by (induction ss) (simp_all add: section_entry_def)

lemma map_of_sections: "map_of (map section_entry ss) u = map_option (\<lambda>ls. DTable FLAG_HEADER (settings ls)) (map_of ss u)"
  by (induction ss) (simp_all add: section_entry_def)

lemma config_keys:
  assumes "valid_config d"
  shows "\<forall>k \<in> fst ` set (settings (fst d) @ map section_entry (snd d)). bare_key k"
  using assms setting_keys [of "fst d"]
  by (auto simp: valid_config_def valid_block_def list_all_iff section_entry_def)

lemma get_user:
  assumes "valid_config d" and "NUL \<notin> set u"
  shows "toml_get (config_tree d) u =
    (case map_of (snd d) u of
       Some ls \<Rightarrow> DTable FLAG_HEADER (settings ls)
     | None \<Rightarrow> value_or_zero (setting (fst d) u))"
proof -
  have "map_of (settings (fst d)) u = None" if "map_of (snd d) u = Some ls" for ls
  proof -
    have "u \<in> fst ` set (snd d)" using that by (force dest: map_of_SomeD)
    with assms(1) show ?thesis by (auto simp: valid_config_def map_of_eq_None_iff)
  qed
  then show ?thesis
    unfolding config_tree_def get_bare [OF config_keys [OF assms(1)] assms(2)]
    by (auto simp: map_add_def map_of_sections map_of_settings value_or_zero_def split: option.split)
qed

lemma value_or_zero_nontable: "dtype (value_or_zero v) \<noteq> TOML_TABLE"
proof -
  have "dtype (value_datum w) \<noteq> TOML_TABLE" for w by (cases w) simp_all
  then show ?thesis by (simp add: value_or_zero_def split: option.split)
qed

text \<open>What the programs look up for a user.\<close>

lemma seek_user:
  assumes "valid_config d" and "bare_key u" and "length u \<le> 32"
    and "NUL \<notin> set f" and "CHR ''.'' \<notin> set f" and "length f \<le> 80"
  shows "toml_seek (config_tree d) (user_key u (CHR ''.'' # f)) =
    value_or_zero (case map_of (snd d) u of None \<Rightarrow> None | Some ls \<Rightarrow> setting ls f)"
proof -
  note u = bare_plain [OF assms(2)]
  have "toml_seek (config_tree d) (user_key u (CHR ''.'' # f)) = toml_get (toml_get (config_tree d) u) f"
    using assms(3-6) u by (intro user_key_section) auto
  also have "\<dots> = value_or_zero (case map_of (snd d) u of None \<Rightarrow> None | Some ls \<Rightarrow> setting ls f)"
  proof (cases "map_of (snd d) u")
    case None
    with value_or_zero_nontable show ?thesis
      using assms(1) u by (simp add: get_user value_or_zero_def [of None])
  next
    case (Some ls)
    then have "(u, ls) \<in> set (snd d)" by (rule map_of_SomeD)
    with assms(1) have "list_all valid_line ls" by (auto simp: valid_config_def valid_block_def list_all_iff)
    with Some assms(1,4) u show ?thesis by (simp add: get_user get_setting del: toml_get.simps)
  qed
  finally show ?thesis .
qed

text \<open>Both programs decide as the configuration says.\<close>

lemma sint_range: "int64_range i \<Longrightarrow> sint (word_of_int i :: 64 word) = i"
  by (simp add: int64_range_def sint_sbintrunc' signed_take_bit_int_eq_self)

lemma user_valid:
  assumes "valid_config d" and "map_of (snd d) u = Some ls" and "setting ls f = Some v"
  shows "valid_value v"
  using assms setting_range [of ls f v] map_of_SomeD [OF assms(2)]
  by (auto simp: valid_config_def valid_block_def list_all_iff)

lemma login_decided:
  assumes "valid_config d" and "bare_key u" and "length u \<le> 32"
  shows "check_bundle (config_tree d) u = intended_login d u"
proof -
  let ?v = "\<lambda>f. case map_of (snd d) u of None \<Rightarrow> None | Some ls \<Rightarrow> setting ls f"
  have seek: "toml_seek (config_tree d) (user_key u ''.bundle'') = value_or_zero (?v ''bundle'')"
    "toml_seek (config_tree d) (user_key u ''.enabled'') = value_or_zero (?v ''enabled'')"
    "toml_seek (config_tree d) (user_key u ''.timeout'') = value_or_zero (?v ''timeout'')"
    "toml_seek (config_tree d) (user_key u ''.disk'') = value_or_zero (?v ''disk'')"
    by (rule seek_user [OF assms]; simp)+
  show ?thesis
  proof (cases "map_of (snd d) u")
    case None
    with seek show ?thesis by (simp add: check_bundle_def intended_login_def intended_section_def value_or_zero_def)
  next
    case (Some ls)
    have r: "int64_range i" if "setting ls f = Some (VInt i)" for f i
      using user_valid [OF assms(1) Some that] by simp
    have e: "user_disabled (config_tree d) u \<longleftrightarrow> setting ls ''enabled'' = Some (VBool False)"
    proof (cases "setting ls ''enabled''")
      case (Some v)
      with \<open>map_of (snd d) u = Some ls\<close> seek(2) show ?thesis
        by (cases v) (simp_all add: user_disabled_def value_or_zero_def)
    qed (use seek(2) Some in \<open>simp add: user_disabled_def value_or_zero_def DATUM_ZERO_def\<close>)
    have t: "config_timeout (config_tree d) u =
        (case setting ls ''timeout'' of Some (VInt i) \<Rightarrow> word_of_int i | _ \<Rightarrow> 0)"
      using seek(3) Some by (simp add: config_timeout_def value_or_zero_def DATUM_ZERO_def split: option.split config_value.split)
    have k: "config_disk (config_tree d) u =
        (case setting ls ''disk'' of Some (VInt i) \<Rightarrow> if 0 < i then word_of_int i else 1024 | _ \<Rightarrow> 1024)"
      using seek(4) Some r by (simp add: config_disk_def value_or_zero_def DATUM_ZERO_def sint_range split: option.split config_value.split)
    show ?thesis
    proof (cases "setting ls ''bundle''")
      case None
      with Some seek(1) show ?thesis by (simp add: check_bundle_def intended_login_def intended_section_def value_or_zero_def)
    next
      case (Some v)
      with \<open>map_of (snd d) u = Some ls\<close> seek(1) e t k show ?thesis
        by (cases v) (simp_all add: check_bundle_def intended_login_def intended_section_def value_or_zero_def Let_def)
    qed
  qed
qed

lemma seek_max:
  assumes "valid_config d" and "''max_sessions'' \<notin> fst ` set (snd d)"
  shows "toml_seek (config_tree d) ''max_sessions'' = value_or_zero (setting (fst d) ''max_sessions'')"
proof -
  have "map_of (snd d) ''max_sessions'' = None" using assms(2) by (simp add: map_of_eq_None_iff)
  moreover have "toml_seek (config_tree d) ''max_sessions'' = toml_get (config_tree d) ''max_sessions''"
    by (simp add: toml_seek_eq split_dots_single)
  ultimately show ?thesis using assms(1) by (simp add: get_user)
qed

lemma limits_decided:
  assumes "valid_config d" and "''max_sessions'' \<notin> fst ` set (snd d)"
  shows "config_limit (config_tree d) = intended_limit d"
    "0 < intended_limit d \<Longrightarrow> intended_limit d < 2 ^ 31 \<Longrightarrow> config_max (config_tree d) = intended_limit d"
    "intended_limit d \<le> 0 \<Longrightarrow> config_max (config_tree d) = 1024"
proof -
  have r: "int64_range i" if "setting (fst d) ''max_sessions'' = Some (VInt i)" for i
    using setting_range [OF _ that] assms(1) by (auto simp: valid_config_def valid_block_def)
  have c: "sint (ucast (word_of_int i :: 64 word) :: 32 word) = i" if "0 < i" "i < 2 ^ 31" for i
    using that by (simp add: sint_sbintrunc' signed_take_bit_int_eq_self unsigned_of_int take_bit_int_eq_self)
  show "config_limit (config_tree d) = intended_limit d"
    using seek_max [OF assms] r
    by (simp add: config_limit_def intended_limit_def value_or_zero_def DATUM_ZERO_def sint_range
        split: option.split config_value.split)
  show "0 < intended_limit d \<Longrightarrow> intended_limit d < 2 ^ 31 \<Longrightarrow> config_max (config_tree d) = intended_limit d"
    using seek_max [OF assms] r c
    by (auto simp: config_max_def intended_limit_def value_or_zero_def DATUM_ZERO_def sint_range
        split: option.splits config_value.splits)
  show "intended_limit d \<le> 0 \<Longrightarrow> config_max (config_tree d) = 1024"
    using seek_max [OF assms] r
    by (auto simp: config_max_def intended_limit_def value_or_zero_def DATUM_ZERO_def sint_range
        split: option.splits config_value.splits)
qed

text \<open>The same from the bytes of the file.\<close>

definition config_stream :: "string \<Rightarrow> stream" where
  "config_stream text = \<lparr>st_bytes = text, st_error = None\<rparr>"

lemma read_config_text:
  assumes "valid_config d" and "length (show_config d) < 2 ^ 30" and "\<forall>n \<le> 2 ^ 31. alloc n"
  shows "read_config alloc (Some (config_stream (show_config d))) = Some (CfgOk (config_tree d))"
  using parse_file_whole [of "config_stream (show_config d)" alloc toml_default_option] assms config_parsed [OF assms(1)]
  by (simp add: read_config_def config_stream_def)

section \<open>Adding a user\<close>

text \<open>What \<open>write_toml\<close> of \<open>src/scripts/newcaal.sh\<close> appends to the file.\<close>

definition newcaal_entry :: "string \<Rightarrow> string \<Rightarrow> bool \<Rightarrow> int \<Rightarrow> int \<Rightarrow> string" where
  "newcaal_entry u b en disk tmo =
     [LF] @ ''['' @ u @ '']'' @ [LF] @
     ''bundle    = '' @ [DQ] @ b @ [DQ, LF] @
     ''enabled   = '' @ show_bool en @ [LF] @
     ''disk      = '' @ show_int disk @ [LF] @
     ''timeout   = '' @ show_int tmo @ [LF]"

definition user_lines :: "string \<Rightarrow> bool \<Rightarrow> int \<Rightarrow> int \<Rightarrow> line list" where
  "user_lines b en disk tmo =
     [Setting ''bundle'' 4 (VString b), Setting ''enabled'' 3 (VBool en), Setting ''disk'' 6 (VInt disk),
      Setting ''timeout'' 3 (VInt tmo)]"

definition with_blank :: "config \<Rightarrow> config" where
  "with_blank d =
     (if snd d = [] then (fst d @ [Blank], [])
      else (fst d, butlast (snd d) @ [(fst (last (snd d)), snd (last (snd d)) @ [Blank])]))"

definition add_user :: "config \<Rightarrow> string \<Rightarrow> line list \<Rightarrow> config" where
  "add_user d u ls = (fst (with_blank d), snd (with_blank d) @ [(u, ls)])"

lemma plain_quote: "list_all plain_char s \<Longrightarrow> quote s = s"
proof (induction s)
  case (Cons c s)
  then have "plain_char c" by simp
  with plain_not_quote [OF this] Cons show ?case by (auto simp: quote_char_def)
qed simp

lemma show_block_append: "show_block (ls @ ms) = show_block ls @ show_block ms"
  by (simp add: show_block_def)

lemma settings_append: "settings (ls @ ms) = settings ls @ settings ms"
  by (simp add: settings_def)

lemma show_with_blank: "show_config (with_blank d) = show_config d @ [LF]"
  by (cases "snd d" rule: rev_cases)
    (simp_all add: with_blank_def show_config_def show_section_def show_block_append)

lemma show_add_user:
  assumes "list_all plain_char b"
  shows "show_config (add_user d u (user_lines b en disk tmo)) = show_config d @ newcaal_entry u b en disk tmo"
proof -
  have "show_config (add_user d u ls) = show_config (with_blank d) @ show_section (u, ls)" for ls
    by (simp add: show_config_def add_user_def)
  then show ?thesis
    using plain_quote [OF assms]
    by (simp add: show_with_blank show_section_def user_lines_def newcaal_entry_def numeral_eq_Suc)
qed

lemma settings_blank: "settings (ls @ [Blank]) = settings ls"
  by (simp add: settings_append adds_def)

lemma setting_blank: "setting (ls @ [Blank]) k = setting ls k"
  by (induction ls k rule: setting.induct) simp_all

lemma fst_with_blank: "settings (fst (with_blank d)) = settings (fst d)" "setting (fst (with_blank d)) k = setting (fst d) k"
  by (simp_all add: with_blank_def settings_blank setting_blank)

lemma names_with_blank: "map fst (snd (with_blank d)) = map fst (snd d)"
  by (cases "snd d" rule: rev_cases) (simp_all add: with_blank_def)

lemma valid_with_blank: "valid_config d \<Longrightarrow> valid_config (with_blank d)"
  by (cases "snd d" rule: rev_cases)
    (simp_all add: valid_config_def with_blank_def valid_block_def settings_blank)

lemma blank_block: "map_of (snd (with_blank d)) u = None \<longleftrightarrow> map_of (snd d) u = None"
  "map_of (snd (with_blank d)) u = Some ms \<Longrightarrow> \<exists>ls. map_of (snd d) u = Some ls \<and> setting ms = setting ls"
proof -
  show "map_of (snd (with_blank d)) u = None \<longleftrightarrow> map_of (snd d) u = None"
    using names_with_blank [of d] by (metis list.set_map map_of_eq_None_iff)
  show "map_of (snd (with_blank d)) u = Some ms \<Longrightarrow> \<exists>ls. map_of (snd d) u = Some ls \<and> setting ms = setting ls"
    by (cases "snd d" rule: rev_cases)
      (auto simp: with_blank_def map_add_def setting_blank fun_eq_iff split: option.splits if_splits)
qed

lemma login_with_blank: "intended_login (with_blank d) u = intended_login d u"
  using blank_block [of d u] by (cases "map_of (snd (with_blank d)) u") (auto simp: intended_login_def)

lemma login_add_user:
  "u' \<noteq> u \<Longrightarrow> intended_login (add_user d u ls) u' = intended_login d u'"
  "u \<notin> fst ` set (snd d) \<Longrightarrow> map_of (snd (add_user d u ls)) u = Some ls"
proof -
  have "intended_login (add_user d u ls) u' = intended_login (with_blank d) u'" if "u' \<noteq> u"
    using that by (simp add: intended_login_def add_user_def map_add_def split: option.split)
  then show "u' \<noteq> u \<Longrightarrow> intended_login (add_user d u ls) u' = intended_login d u'"
    by (simp add: login_with_blank)
  show "u \<notin> fst ` set (snd d) \<Longrightarrow> map_of (snd (add_user d u ls)) u = Some ls"
    using blank_block(1) [of d u] map_of_eq_None_iff [of "snd d" u] by (simp add: add_user_def map_add_def)
qed

lemma valid_add_user:
  assumes "valid_config d" and "bare_key u" and "valid_block ls"
    and "u \<notin> fst ` set (snd d)" and "u \<notin> fst ` set (settings (fst d))"
    and "length (settings (fst d)) + length (snd d) < TABLE_MAX"
  shows "valid_config (add_user d u ls)"
proof -
  have "length (snd (with_blank d)) = length (snd d)" using names_with_blank [of d] by (metis length_map)
  then show ?thesis
    using valid_with_blank [OF assms(1)] assms(2-6) names_with_blank [of d]
    by (auto simp: valid_config_def add_user_def fst_with_blank simp flip: set_map)
qed

text \<open>What the new entry says.\<close>

lemma user_lines_valid:
  assumes "int64_range disk" and "int64_range tmo"
  shows "valid_block (user_lines b en disk tmo)"
proof -
  have "bare_key ''bundle''" "bare_key ''enabled''" "bare_key ''disk''" "bare_key ''timeout''" by code_simp+
  with assms show ?thesis by (simp add: valid_block_def user_lines_def adds_def TABLE_MAX_def)
qed

lemma intended_new_user:
  assumes "list_all plain_char b" and "take 1 b = ''/''"
  shows "intended_section (setting (user_lines b en disk tmo)) =
    (if en then Inr \<lparr>lg_bundle = b, lg_timeout = word_of_int tmo, lg_disk = if 0 < disk then word_of_int disk else 1024\<rparr>
     else Inl ''[CaaLsh] user disabled, access denied'')"
proof -
  have "NUL \<notin> set b" using assms(1) plain_not_quote by (auto simp: list_all_iff)
  with assms(2) show ?thesis by (simp add: intended_section_def user_lines_def)
qed

end
