(* ===== verification/Daemon_Runs.thy ===== *)
theory Daemon_Runs
  imports Daemon
begin

text \<open>
  Infinite runs of the accept loop of \<open>src/src/caald.c\<close>: a signal that asks for a new
  configuration is always answered, provided that the loop keeps going round.
\<close>

definition run :: "(nat \<Rightarrow> dsys) \<Rightarrow> (nat \<Rightarrow> devent) \<Rightarrow> bool" where
  "run \<sigma> ev \<longleftrightarrow> reachable (\<sigma> 0) \<and> (\<forall>i. \<exists>es. dstep (\<sigma> i) (ev i) es (\<sigma> (Suc i)))"

definition is_iteration :: "devent \<Rightarrow> bool" where
  "is_iteration ev \<longleftrightarrow> ev \<noteq> Sighup"

text \<open>\<open>accept\<close> returns again and again, with a client or without.\<close>

definition fair :: "(nat \<Rightarrow> devent) \<Rightarrow> bool" where
  "fair ev \<longleftrightarrow> (\<forall>i. \<exists>j \<ge> i. is_iteration (ev j))"

lemma run_reachable: "run \<sigma> ev \<Longrightarrow> reachable (\<sigma> i)"
  by (induction i) (auto simp: run_def intro: reachable.step)

lemma run_sighup: "run \<sigma> ev \<Longrightarrow> ev i = Sighup \<Longrightarrow> \<sigma> (Suc i) = on_sighup (\<sigma> i)"
  by (metis run_def dstep_sighupE)

text \<open>The capacity after a reload: the larger one, when the file and the allocator allow it.\<close>

definition capacity_after :: "cfg_read \<Rightarrow> bool \<Rightarrow> nat \<Rightarrow> int" where
  "capacity_after cfg alloc_ok mx =
     (case cfg of CfgOk t \<Rightarrow> if alloc_ok then max (int mx) (config_max t) else int mx | _ \<Rightarrow> int mx)"

text \<open>An iteration with the flag set reloads, and clears the flag.\<close>

lemma reload_max:
  assumes "reload_config cfg alloc_ok d = (d', es)"
  shows "int (max_sessions d') = capacity_after cfg alloc_ok (max_sessions d)"
  using assms by (auto simp: capacity_after_def reload_config_def Let_def split: cfg_read.splits if_splits)

lemma handle_client_max: "wf_daemon d \<Longrightarrow> max_sessions (fst (handle_client now d ch)) = max_sessions d"
  using handle_client_wf [of d now ch] by simp

lemma iteration_reloads:
  assumes "daemon_inv s" and "dstep s (Iteration cfg alloc_ok conn) es s'" and "g_reload_config s"
  shows "\<not> g_reload_config s' \<and> int (max_sessions (dm s')) = capacity_after cfg alloc_ok (max_sessions (dm s))"
proof -
  obtain d es1 where r: "reload_config cfg alloc_ok (dm s) = (d, es1)"
    by (cases "reload_config cfg alloc_ok (dm s)")
  have l: "loop_reload cfg alloc_ok s = (\<lparr>dm = d, g_reload_config = False\<rparr>, es1)"
    using r assms(3) by (simp add: loop_reload_def)
  have "wf_daemon d" using loop_reload_inv(1) [OF assms(1) l] by (simp add: daemon_inv_def)
  obtain ch where b: "loop_body cfg alloc_ok conn s = (s', ch, es)"
    using assms(2) by (rule dstep_iterationE)
  then have "\<not> g_reload_config s' \<and> max_sessions (dm s') = max_sessions d"
  proof (cases conn)
    case None
    with b l show ?thesis by (auto simp: loop_body_def)
  next
    case (Some c)
    obtain now k where c: "c = (now, k)" by (cases c)
    obtain d' k' es' where "handle_client now d k = (d', k', es')" by (cases "handle_client now d k")
    with b l Some c handle_client_max [OF \<open>wf_daemon d\<close>, of now k] show ?thesis by (auto simp: loop_body_def)
  qed
  with reload_max [OF r] show ?thesis by simp
qed

text \<open>The first iteration after a signal finds the flag set.\<close>

lemma flag_waits:
  assumes "run \<sigma> ev" and "g_reload_config (\<sigma> i)" and "\<And>k. i \<le> k \<Longrightarrow> k < j \<Longrightarrow> \<not> is_iteration (ev k)" and "i \<le> j"
  shows "g_reload_config (\<sigma> j) \<and> dm (\<sigma> j) = dm (\<sigma> i)"
  using assms(4,3)
proof (induction j rule: dec_induct)
  case (step j)
  then have "\<sigma> (Suc j) = on_sighup (\<sigma> j)" using run_sighup [OF assms(1)] by (simp add: is_iteration_def)
  with step show ?case by (simp add: on_sighup_def)
qed (use assms(2) in simp)

lemma pending_reload_served:
  assumes "run \<sigma> ev" and "fair ev" and "g_reload_config (\<sigma> i)"
  obtains j cfg alloc_ok conn where "i \<le> j" "ev j = Iteration cfg alloc_ok conn" "dm (\<sigma> j) = dm (\<sigma> i)"
    "\<not> g_reload_config (\<sigma> (Suc j))"
    "int (max_sessions (dm (\<sigma> (Suc j)))) = capacity_after cfg alloc_ok (max_sessions (dm (\<sigma> i)))"
proof -
  let ?P = "\<lambda>j. i \<le> j \<and> is_iteration (ev j)"
  define j where "j = (LEAST j. ?P j)"
  have "\<exists>j. ?P j" using assms(2) by (simp add: fair_def)
  then have j: "?P j" unfolding j_def by (rule LeastI_ex)
  have "\<not> is_iteration (ev k)" if "i \<le> k" "k < j" for k
    using not_less_Least [of k ?P] that by (simp add: j_def)
  then have "g_reload_config (\<sigma> j) \<and> dm (\<sigma> j) = dm (\<sigma> i)"
    using j by (intro flag_waits [OF assms(1,3)]) auto
  then have w: "g_reload_config (\<sigma> j)" "dm (\<sigma> j) = dm (\<sigma> i)" by auto
  from j obtain cfg alloc_ok conn where e: "ev j = Iteration cfg alloc_ok conn"
    by (metis devent.exhaust is_iteration_def)
  obtain es where "dstep (\<sigma> j) (Iteration cfg alloc_ok conn) es (\<sigma> (Suc j))"
    using assms(1) e by (metis run_def)
  from iteration_reloads [OF reachable_inv [OF run_reachable [OF assms(1)]] this w(1)] w(2) j e
  show thesis by (intro that [of j cfg alloc_ok conn]) simp_all
qed

end
