(* ===== verification/Toml_Heap.thy ===== *)
theory Toml_Heap
  imports Toml_Parser "HOL-Library.Multiset"
begin

text \<open>
  The storage of the TOML library (\<open>src/src/lib/tomlc17.c\<close>): the blocks handed out by
  \<open>MALLOC\<close> and \<open>REALLOC\<close> and taken back by \<open>FREE\<close>, and the memory pool.  The allocator
  asks the environment whether it grants a request, and a granted \<open>realloc\<close> always moves the
  block.  What is undefined in C - an access outside a live block, freeing one twice - sets
  \<open>fault\<close>.
\<close>

section \<open>Blocks\<close>

text \<open>A pointer is the number of its block, \<open>0\<close> is \<open>NULL\<close>.\<close>

type_synonym ptr = nat

record heap =
  blocks :: "(ptr \<times> nat) list"
  next_ptr :: ptr
  grants :: "bool list"
  fault :: bool

definition ask_grant :: "heap \<Rightarrow> bool \<times> heap" where
  "ask_grant h = (case grants h of [] \<Rightarrow> (True, h) | v # vs \<Rightarrow> (v, h\<lparr>grants := vs\<rparr>))"

definition mem_fault :: "heap \<Rightarrow> heap" where
  "mem_fault h = h\<lparr>fault := True\<rparr>"

definition mem_realloc :: "ptr \<Rightarrow> nat \<Rightarrow> heap \<Rightarrow> ptr \<times> heap" where
  "mem_realloc p n h =
     (if p \<noteq> 0 \<and> map_of (blocks h) p = None then (0, mem_fault h)
      else case ask_grant h of
        (False, h1) \<Rightarrow> (0, h1)
      | (True, h1) \<Rightarrow>
          (next_ptr h1,
           h1\<lparr>blocks := (next_ptr h1, n) # filter (\<lambda>b. fst b \<noteq> p) (blocks h1), next_ptr := Suc (next_ptr h1)\<rparr>))"

definition mem_alloc :: "nat \<Rightarrow> heap \<Rightarrow> ptr \<times> heap" where
  "mem_alloc n h = mem_realloc 0 n h"

definition mem_free :: "ptr \<Rightarrow> heap \<Rightarrow> heap" where
  "mem_free p h =
     (if p = 0 then h
      else if map_of (blocks h) p = None then mem_fault h
      else h\<lparr>blocks := filter (\<lambda>b. fst b \<noteq> p) (blocks h)\<rparr>)"

text \<open>An access to the first \<open>n\<close> bytes behind a pointer.\<close>

definition touch :: "ptr \<Rightarrow> nat \<Rightarrow> heap \<Rightarrow> heap" where
  "touch p n h =
     (case map_of (blocks h) p of
        None \<Rightarrow> mem_fault h
      | Some m \<Rightarrow> if n \<le> m then h else mem_fault h)"

section \<open>Facts about blocks\<close>

definition heap_ok :: "heap \<Rightarrow> bool" where
  "heap_ok h \<longleftrightarrow>
     distinct (map fst (blocks h)) \<and> (\<forall>p \<in> fst ` set (blocks h). 0 < p \<and> p < next_ptr h) \<and>
     0 < next_ptr h \<and> \<not> fault h"

text \<open>The live blocks, and what a pointer that may be \<open>NULL\<close> adds to them.\<close>

definition alive :: "heap \<Rightarrow> ptr multiset" where
  "alive h = mset (map fst (blocks h))"

definition one_block :: "ptr \<Rightarrow> ptr multiset" where
  "one_block p = (if p = 0 then {#} else {#p#})"

definition size_of :: "heap \<Rightarrow> ptr \<Rightarrow> nat option" where
  "size_of h p = map_of (blocks h) p"

text \<open>The blocks of a frame stay as they are.\<close>

definition keeps_blocks :: "ptr multiset \<Rightarrow> heap \<Rightarrow> heap \<Rightarrow> bool" where
  "keeps_blocks R h h' \<longleftrightarrow> (\<forall>p \<in># R. size_of h' p = size_of h p)"

lemma keeps_blocks_refl [simp]: "keeps_blocks R h h"
  by (simp add: keeps_blocks_def)

lemma keeps_blocks_trans: "keeps_blocks R h h1 \<Longrightarrow> keeps_blocks R h1 h2 \<Longrightarrow> keeps_blocks R h h2"
  by (simp add: keeps_blocks_def)

lemma keeps_blocks_sub: "keeps_blocks R h h' \<Longrightarrow> set_mset S \<subseteq> set_mset R \<Longrightarrow> keeps_blocks S h h'"
  by (auto simp: keeps_blocks_def)

lemma one_block_simps [simp]: "one_block 0 = {#}" "p \<noteq> 0 \<Longrightarrow> one_block p = {#p#}" "q \<in># one_block p \<longleftrightarrow> q = p \<and> p \<noteq> 0"
  by (simp_all add: one_block_def)

lemma alive_size: "p \<in># alive h \<longleftrightarrow> (\<exists>n. size_of h p = Some n)"
  unfolding alive_def size_of_def using map_of_eq_None_iff [of "blocks h" p]
  by (cases "map_of (blocks h) p") auto

lemma alive_nonzero: "heap_ok h \<Longrightarrow> 0 \<notin># alive h"
  by (auto simp: heap_ok_def alive_def)

lemma filter_absent: "p \<notin> fst ` set bs \<Longrightarrow> filter (\<lambda>b. fst b \<noteq> p) bs = bs"
  by (induction bs) auto

lemma alive_remove:
  "distinct (map fst bs) \<Longrightarrow> p \<in> fst ` set bs \<Longrightarrow>
     mset (map fst bs) = {#p#} + mset (map fst (filter (\<lambda>b. fst b \<noteq> p) bs))"
  by (induction bs) (auto simp: filter_absent simp del: mset_map mset_filter)

lemma map_of_remove: "map_of (filter (\<lambda>b. fst b \<noteq> p) bs) q = (if q = p then None else map_of bs q)"
  by (induction bs) auto

lemma heap_ok_unique: "heap_ok h \<Longrightarrow> alive h = {#p#} + R \<Longrightarrow> p \<notin># R"
proof
  assume a: "heap_ok h" "alive h = {#p#} + R" "p \<in># R"
  then have "count (alive h) p \<ge> 2" by (simp add: Suc_le_eq)
  moreover have "count (alive h) p \<le> 1"
    using a(1) by (auto simp: alive_def heap_ok_def distinct_count_atmost_1 simp flip: count_mset)
  ultimately show False by simp
qed

lemma mem_free_ok:
  assumes "heap_ok h" and "alive h = one_block p + R"
  shows "heap_ok (mem_free p h) \<and> alive (mem_free p h) = R \<and> keeps_blocks R h (mem_free p h) \<and>
    grants (mem_free p h) = grants h"
proof (cases "p = 0")
  case False
  then have a: "alive h = {#p#} + R" using assms(2) by simp
  then have p: "p \<in># alive h" by simp
  then have s: "p \<in> fst ` set (blocks h)" by (simp add: alive_def)
  then obtain n where n: "map_of (blocks h) p = Some n" using p by (auto simp: alive_size size_of_def)
  have "alive h = {#p#} + mset (map fst (filter (\<lambda>b. fst b \<noteq> p) (blocks h)))"
    using assms(1) s unfolding alive_def heap_ok_def by (intro alive_remove) auto
  then have "alive (mem_free p h) = R" using a n False by (simp add: mem_free_def alive_def)
  moreover have "keeps_blocks R h (mem_free p h)"
    using heap_ok_unique [OF assms(1) a] n False
    by (auto simp: keeps_blocks_def size_of_def mem_free_def map_of_remove)
  moreover have "heap_ok (mem_free p h)"
    using assms(1) n False by (auto simp: heap_ok_def mem_free_def distinct_map_filter)
  ultimately show ?thesis using n False by (simp add: mem_free_def)
qed (use assms in \<open>simp add: mem_free_def\<close>)

lemma ask_grant_same:
  assumes "ask_grant h = (b, h1)"
  shows "blocks h1 = blocks h" "next_ptr h1 = next_ptr h" "fault h1 = fault h"
    "grants h = [] \<Longrightarrow> b \<and> grants h1 = []"
  using assms by (auto simp: ask_grant_def split: list.splits)

lemma mem_realloc_ok:
  assumes "heap_ok h" and "alive h = one_block p + R" and "mem_realloc p n h = (q, h')"
  shows "heap_ok h'" "keeps_blocks R h h'" "alive h' = one_block (if q = 0 then p else q) + R"
    "q = 0 \<Longrightarrow> size_of h' p = size_of h p" "q \<noteq> 0 \<Longrightarrow> size_of h' q = Some n"
    "grants h = [] \<Longrightarrow> q \<noteq> 0 \<and> grants h' = []"
proof -
  obtain b h1 where g: "ask_grant h = (b, h1)" by (cases "ask_grant h")
  note same = ask_grant_same [OF g]
  have live: "\<not> (p \<noteq> 0 \<and> map_of (blocks h) p = None)"
  proof
    assume p: "p \<noteq> 0 \<and> map_of (blocks h) p = None"
    with assms(2) have "p \<in># alive h" by simp
    with p show False by (simp add: alive_size size_of_def)
  qed
  have "heap_ok h' \<and> keeps_blocks R h h' \<and> alive h' = one_block (if q = 0 then p else q) + R \<and>
    (q = 0 \<longrightarrow> size_of h' p = size_of h p) \<and> (q \<noteq> 0 \<longrightarrow> size_of h' q = Some n) \<and>
    (grants h = [] \<longrightarrow> q \<noteq> 0 \<and> grants h' = [])"
  proof (cases b)
    case False
    then have "q = 0" "h' = h1" using assms(3) g live by (auto simp: mem_realloc_def split: if_splits)
    then show ?thesis
      using assms(1,2) same False by (auto simp: heap_ok_def alive_def keeps_blocks_def size_of_def)
  next
    case True
    let ?bs = "filter (\<lambda>b. fst b \<noteq> p) (blocks h)"
    have q: "q = next_ptr h" "q \<noteq> 0"
      and h': "h' = h1\<lparr>blocks := (next_ptr h, n) # ?bs, next_ptr := Suc (next_ptr h)\<rparr>"
      using assms(1,3) g live True same by (auto simp: mem_realloc_def heap_ok_def)
    have fresh: "next_ptr h \<notin> fst ` set (blocks h)" using assms(1) by (auto simp: heap_ok_def)
    have R: "mset (map fst ?bs) = R"
    proof (cases "p = 0")
      case True
      then have "p \<notin> fst ` set (blocks h)" using assms(1) by (auto simp: heap_ok_def)
      then show ?thesis unfolding filter_absent [OF \<open>p \<notin> fst ` set (blocks h)\<close>]
        using True assms(2) by (simp add: alive_def)
    next
      case False
      then have "p \<in> fst ` set (blocks h)" using live by (simp add: map_of_eq_None_iff)
      with alive_remove [of "blocks h" p] False assms(1,2) show ?thesis by (simp add: alive_def heap_ok_def)
    qed
    have "p \<notin># R" unfolding R [symmetric] by auto
    moreover have "next_ptr h \<notin># R" using fresh unfolding R [symmetric] by auto
    ultimately have "keeps_blocks R h h'"
      by (auto simp: keeps_blocks_def size_of_def h' map_of_remove)
    moreover have "heap_ok h'"
      using assms(1) same fresh by (auto simp: heap_ok_def h' distinct_map_filter less_Suc_eq)
    ultimately show ?thesis
      using q R same by (simp add: h' alive_def size_of_def)
  qed
  then show "heap_ok h'" "keeps_blocks R h h'" "alive h' = one_block (if q = 0 then p else q) + R"
    "q = 0 \<Longrightarrow> size_of h' p = size_of h p" "q \<noteq> 0 \<Longrightarrow> size_of h' q = Some n"
    "grants h = [] \<Longrightarrow> q \<noteq> 0 \<and> grants h' = []" by auto
qed

lemma touch_ok: "size_of h p = Some m \<Longrightarrow> n \<le> m \<Longrightarrow> touch p n h = h"
  by (simp add: touch_def size_of_def)

end
