(* ===== verification/Toml_Memory.thy ===== *)
theory Toml_Memory
  imports Toml_Heap
begin

text \<open>
  Trees in memory: a table owns its blocks \<open>key\<close>, \<open>len\<close> and \<open>value\<close>, an array its block \<open>elem\<close>,
  and the bytes of keys and strings lie in the pool of the document they come from.  The
  operations of \<open>src/src/lib/tomlc17.c\<close> that build, free, copy and merge such trees, on a
  64-bit machine.  Reading or writing an entry of a table or an array touches its block up to
  that entry; reading the bytes of a key or a string requires that its pool is alive.
\<close>

section \<open>Memory pools\<close>

record mpool =
  pl_ptr :: ptr
  pl_top :: nat
  pl_max :: nat

definition SIZEOF_POOL :: nat where "SIZEOF_POOL = 12"

definition mpool_create :: "int \<Rightarrow> heap \<Rightarrow> mpool option \<times> heap" where
  "mpool_create n h =
     (let N = (if n \<le> 0 then 100 else nat n);
          (p, h') = mem_alloc (SIZEOF_POOL + N) h
      in (if p = 0 then None else Some \<lparr>pl_ptr = p, pl_top = 0, pl_max = N\<rparr>, h'))"

definition mpool_destroy :: "mpool option \<Rightarrow> heap \<Rightarrow> heap" where
  "mpool_destroy pl h = mem_free (case pl of None \<Rightarrow> 0 | Some p \<Rightarrow> pl_ptr p) h"

definition mpool_alloc :: "nat \<Rightarrow> mpool \<Rightarrow> mpool option" where
  "mpool_alloc n pl = (if pl_top pl + n > pl_max pl then None else Some (pl\<lparr>pl_top := pl_top pl + n\<rparr>))"

section \<open>Trees\<close>

text \<open>Bytes in the pool that starts at a pointer.\<close>

type_synonym span = "ptr \<times> string"

datatype mdatum =
    MPlain datum
  | MString flag span
  | MArray flag ptr "mdatum list"
  | MTable flag ptr ptr ptr "(span \<times> mdatum) list"

definition MZERO :: mdatum where "MZERO = MPlain DATUM_ZERO"

text \<open>The tree without its places in memory.\<close>

fun forget :: "mdatum \<Rightarrow> datum" where
  "forget (MPlain d) = d"
| "forget (MString f s) = DString f (snd s)"
| "forget (MArray f p xs) = DArray f (map forget xs)"
| "forget (MTable f k l v kvs) = DTable f (map (\<lambda>(s, d). (snd s, forget d)) kvs)"

abbreviation mtype :: "mdatum \<Rightarrow> toml_type" where
  "mtype d \<equiv> dtype (forget d)"

definition SIZEOF_PTR :: nat where "SIZEOF_PTR = 8"

definition SIZEOF_INT :: nat where "SIZEOF_INT = 4"

definition SIZEOF_DATUM :: nat where "SIZEOF_DATUM = 40"

definition align8 :: "nat \<Rightarrow> nat" where
  "align8 x = (x + 7) div 8 * 8"

lemma align8_ge: "x \<le> align8 x"
  unfolding align8_def by linarith

section \<open>Tables and arrays\<close>

definition read_span :: "span \<Rightarrow> heap \<Rightarrow> heap" where
  "read_span s h = touch (fst s) 0 h"

text \<open>\<open>tab_find\<close>: the bytes of two keys are compared when their lengths agree.\<close>

fun find_loop :: "ptr \<Rightarrow> ptr \<Rightarrow> span \<Rightarrow> nat \<Rightarrow> (span \<times> mdatum) list \<Rightarrow> heap \<Rightarrow> nat option \<times> heap" where
  "find_loop k l key i [] h = (None, h)"
| "find_loop k l key i (kv # kvs) h =
     (let h1 = touch l (SIZEOF_INT * (i + 1)) h in
      if length (snd (fst kv)) \<noteq> length (snd key) then find_loop k l key (i + 1) kvs h1
      else let h2 = read_span key (read_span (fst kv) (touch k (SIZEOF_PTR * (i + 1)) h1)) in
           if snd (fst kv) = snd key then (Some i, h2) else find_loop k l key (i + 1) kvs h2)"

text \<open>The three reallocations; each that was granted is kept, whatever becomes of the others.\<close>

definition grow3 :: "ptr \<Rightarrow> ptr \<Rightarrow> ptr \<Rightarrow> nat \<Rightarrow> heap \<Rightarrow> bool \<times> ptr \<times> ptr \<times> ptr \<times> heap" where
  "grow3 k l v n h =
     (let (pkey, h1) = mem_realloc k (SIZEOF_PTR * align8 n) h;
          (plen, h2) = mem_realloc l (SIZEOF_INT * align8 n) h1;
          (value, h3) = mem_realloc v (SIZEOF_DATUM * align8 n) h2
      in (pkey \<noteq> 0 \<and> plen \<noteq> 0 \<and> value \<noteq> 0,
          if pkey \<noteq> 0 then pkey else k, if plen \<noteq> 0 then plen else l, if value \<noteq> 0 then value else v, h3))"

text \<open>A place for a key: the table, the index or the reason, and the heap.\<close>

fun mtab_emplace :: "mdatum \<Rightarrow> span \<Rightarrow> heap \<Rightarrow> mdatum \<times> (string + nat) \<times> heap" where
  "mtab_emplace (MTable f k l v kvs) key h =
     (case find_loop k l key 0 kvs h of
        (Some i, h1) \<Rightarrow> (MTable f k l v kvs, Inr i, h1)
      | (None, h1) \<Rightarrow>
          if TABLE_MAX \<le> length kvs then (MTable f k l v kvs, Inl ''table too large'', h1)
          else case grow3 k l v (length kvs + 1) h1 of
            (ok, k', l', v', h2) \<Rightarrow>
              if \<not> ok then (MTable f k' l' v' kvs, Inl ''out of memory'', h2)
              else (MTable f k' l' v' (kvs @ [(key, MZERO)]), Inr (length kvs),
                    touch v' (SIZEOF_DATUM * (length kvs + 1))
                      (touch l' (SIZEOF_INT * (length kvs + 1)) (touch k' (SIZEOF_PTR * (length kvs + 1)) h2))))"
| "mtab_emplace d key h = (d, Inl ''not a table'', h)"

fun marr_emplace :: "mdatum \<Rightarrow> heap \<Rightarrow> mdatum \<times> (string + nat) \<times> heap" where
  "marr_emplace (MArray f p xs) h =
     (if ARRAY_MAX \<le> length xs then (MArray f p xs, Inl ''array too large'', h)
      else case mem_realloc p (SIZEOF_DATUM * align8 (length xs + 1)) h of
        (q, h1) \<Rightarrow>
          if q = 0 then (MArray f p xs, Inl ''out of memory'', h1)
          else (MArray f q (xs @ [MZERO]), Inr (length xs), touch q (SIZEOF_DATUM * (length xs + 1)) h1))"
| "marr_emplace d h = (d, Inl ''not an array'', h)"

text \<open>The value that an index leads to, and storing through that pointer.\<close>

fun mvalue :: "mdatum \<Rightarrow> nat \<Rightarrow> mdatum" where
  "mvalue (MTable f k l v kvs) i = (if i < length kvs then snd (kvs ! i) else MZERO)"
| "mvalue (MArray f p xs) i = (if i < length xs then xs ! i else MZERO)"
| "mvalue d i = MZERO"

fun mput :: "mdatum \<Rightarrow> nat \<Rightarrow> mdatum \<Rightarrow> mdatum" where
  "mput (MTable f k l v kvs) i d = MTable f k l v (kvs[i := (fst (kvs ! i), d)])"
| "mput (MArray f p xs) i d = MArray f p (xs[i := d])"
| "mput c i d = c"

definition mtab_add :: "mdatum \<Rightarrow> span \<Rightarrow> mdatum \<Rightarrow> heap \<Rightarrow> mdatum \<times> string option \<times> heap" where
  "mtab_add tab newkey newvalue h =
     (case mtab_emplace tab newkey h of
        (tab', Inl reason, h') \<Rightarrow> (tab', Some reason, h')
      | (tab', Inr i, h') \<Rightarrow>
          if mtype (mvalue tab' i) \<noteq> TOML_UNKNOWN then (tab', Some ''duplicate key'', h')
          else (mput tab' i newvalue, None, h'))"

section \<open>Freeing a tree\<close>

fun mfree :: "mdatum \<Rightarrow> heap \<Rightarrow> heap"
and mfree_table :: "ptr \<Rightarrow> nat \<Rightarrow> (span \<times> mdatum) list \<Rightarrow> heap \<Rightarrow> heap"
and mfree_array :: "ptr \<Rightarrow> nat \<Rightarrow> mdatum list \<Rightarrow> heap \<Rightarrow> heap" where
  "mfree (MTable f k l v kvs) h = mem_free v (mem_free l (mem_free k (mfree_table v 0 kvs h)))"
| "mfree (MArray f p xs) h = mem_free p (mfree_array p 0 xs h)"
| "mfree (MPlain d) h = h"
| "mfree (MString f s) h = h"
| "mfree_table v i [] h = h"
| "mfree_table v i ((s, d) # kvs) h = mfree_table v (i + 1) kvs (mfree d (touch v (SIZEOF_DATUM * (i + 1)) h))"
| "mfree_array p i [] h = h"
| "mfree_array p i (d # xs) h = mfree_array p (i + 1) xs (mfree d (touch p (SIZEOF_DATUM * (i + 1)) h))"

section \<open>Copy\<close>

text \<open>The destination, the reason of a failure, the pool and the heap.\<close>

type_synonym build = "mdatum \<times> string option \<times> mpool \<times> heap"

text \<open>\<open>bail:\<close> of \<open>datum_copy\<close>.\<close>

definition bail :: "build \<Rightarrow> build" where
  "bail r =
     (case r of (dst, e, pl, h) \<Rightarrow> case e of None \<Rightarrow> r | Some reason \<Rightarrow> (MZERO, e, pl, mfree dst h))"

fun mcopy :: "mdatum \<Rightarrow> mpool \<Rightarrow> heap \<Rightarrow> build"
and mcopy_table :: "ptr \<Rightarrow> ptr \<Rightarrow> ptr \<Rightarrow> nat \<Rightarrow> (span \<times> mdatum) list \<Rightarrow> mdatum \<Rightarrow> mpool \<Rightarrow> heap \<Rightarrow> build"
and mcopy_array :: "ptr \<Rightarrow> nat \<Rightarrow> mdatum list \<Rightarrow> mdatum \<Rightarrow> mpool \<Rightarrow> heap \<Rightarrow> build" where
  "mcopy (MString f s) pl h =
     (case mpool_alloc (length (snd s) + 1) pl of
        None \<Rightarrow> (MZERO, Some ''out of memory'', pl, h)
      | Some pl' \<Rightarrow> (MString 0 (pl_ptr pl, snd s), None, pl', read_span (pl_ptr pl, snd s) (read_span s h)))"
| "mcopy (MTable f k l v kvs) pl h = bail (mcopy_table k l v 0 kvs (MTable 0 0 0 0 []) pl h)"
| "mcopy (MArray f p xs) pl h = bail (mcopy_array p 0 xs (MArray 0 0 []) pl h)"
| "mcopy (MPlain d) pl h = (MPlain d, None, pl, h)"
| "mcopy_table k l v i [] dst pl h = (dst, None, pl, h)"
| "mcopy_table k l v i ((s, d) # kvs) dst pl h =
     (case mtab_emplace dst s (touch l (SIZEOF_INT * (i + 1)) (touch k (SIZEOF_PTR * (i + 1)) h)) of
        (dst1, Inl reason, h1) \<Rightarrow> (dst1, Some reason, pl, h1)
      | (dst1, Inr j, h1) \<Rightarrow>
          (case mcopy d pl (touch v (SIZEOF_DATUM * (i + 1)) h1) of
             (c, Some reason, pl2, h2) \<Rightarrow> (mput dst1 j c, Some reason, pl2, h2)
           | (c, None, pl2, h2) \<Rightarrow> mcopy_table k l v (i + 1) kvs (mput dst1 j c) pl2 h2))"
| "mcopy_array p i [] dst pl h = (dst, None, pl, h)"
| "mcopy_array p i (d # xs) dst pl h =
     (case marr_emplace dst h of
        (dst1, Inl reason, h1) \<Rightarrow> (dst1, Some reason, pl, h1)
      | (dst1, Inr j, h1) \<Rightarrow>
          (case mcopy d pl (touch p (SIZEOF_DATUM * (i + 1)) h1) of
             (c, Some reason, pl2, h2) \<Rightarrow> (mput dst1 j c, Some reason, pl2, h2)
           | (c, None, pl2, h2) \<Rightarrow> mcopy_array p (i + 1) xs (mput dst1 j c) pl2 h2))"

section \<open>Merge\<close>

fun mmerge :: "mdatum \<Rightarrow> mdatum \<Rightarrow> mpool \<Rightarrow> heap \<Rightarrow> build"
and mmerge_table :: "ptr \<Rightarrow> ptr \<Rightarrow> ptr \<Rightarrow> nat \<Rightarrow> mdatum \<Rightarrow> (span \<times> mdatum) list \<Rightarrow> mpool \<Rightarrow> heap \<Rightarrow> build" where
  "mmerge dst (MTable f k l v kvs) pl h =
     (if mtype dst \<noteq> TOML_TABLE then mcopy (MTable f k l v kvs) pl (mfree dst h)
      else mmerge_table k l v 0 dst kvs pl h)"
| "mmerge dst (MArray f p xs) pl h =
     (if mtype dst = TOML_ARRAY \<and> is_array_of_tables (forget (MArray f p xs))
      then mcopy_array p 0 xs dst pl h
      else mcopy (MArray f p xs) pl (mfree dst h))"
| "mmerge dst src pl h = mcopy src pl (mfree dst h)"
| "mmerge_table k l v i dst [] pl h = (dst, None, pl, h)"
| "mmerge_table k l v i dst ((s, d) # kvs) pl h =
     (case mtab_emplace dst s (touch l (SIZEOF_INT * (i + 1)) (touch k (SIZEOF_PTR * (i + 1)) h)) of
        (dst1, Inl reason, h1) \<Rightarrow> (dst1, Some reason, pl, h1)
      | (dst1, Inr j, h1) \<Rightarrow>
          (case (if mtype (mvalue dst1 j) \<noteq> TOML_UNKNOWN
                 then mmerge (mvalue dst1 j) d pl (touch v (SIZEOF_DATUM * (i + 1)) h1)
                 else mcopy d pl (touch v (SIZEOF_DATUM * (i + 1)) (mfree (mvalue dst1 j) h1))) of
             (c, Some reason, pl2, h2) \<Rightarrow> (mput dst1 j c, Some reason, pl2, h2)
           | (c, None, pl2, h2) \<Rightarrow> mmerge_table k l v (i + 1) (mput dst1 j c) kvs pl2 h2))"

text \<open>A result with its tree and its pool; \<open>errmsg\<close> is valid if not \<open>ok\<close>.\<close>

record mresult =
  mr_ok :: bool
  mr_toptab :: mdatum
  mr_errmsg :: string
  mr_pool :: "mpool option"

definition failed_result :: "mdatum \<Rightarrow> string \<Rightarrow> mresult" where
  "failed_result t reason =
     \<lparr>mr_ok = False, mr_toptab = t, mr_errmsg = snprintf_s ERRMSG_SIZE reason, mr_pool = None\<rparr>"

definition pool_used :: "mresult \<Rightarrow> nat" where
  "pool_used r = (case mr_pool r of None \<Rightarrow> 0 | Some pl \<Rightarrow> pl_top pl)"

definition mtoml_merge :: "mresult \<Rightarrow> mresult \<Rightarrow> heap \<Rightarrow> mresult \<times> heap" where
  "mtoml_merge r1 r2 h =
     (if \<not> mr_ok r1 then (failed_result MZERO ''param error: r1 not ok'', h)
      else if \<not> mr_ok r2 then (failed_result MZERO ''param error: r2 not ok'', h)
      else case mpool_create (int (pool_used r1 + pool_used r2)) h of
        (None, h1) \<Rightarrow> (failed_result MZERO ''out of memory'', h1)
      | (Some pl, h1) \<Rightarrow>
          (case mcopy (mr_toptab r1) pl h1 of
             (t, Some reason, pl2, h2) \<Rightarrow> (failed_result t reason, mpool_destroy (Some pl2) h2)
           | (t, None, pl2, h2) \<Rightarrow>
               (case mmerge t (mr_toptab r2) pl2 h2 of
                  (t', Some reason, pl3, h3) \<Rightarrow> (failed_result t' reason, mpool_destroy (Some pl3) h3)
                | (t', None, pl3, h3) \<Rightarrow>
                    (\<lparr>mr_ok = True, mr_toptab = t', mr_errmsg = [], mr_pool = Some pl3\<rparr>, h3))))"

definition mtoml_free :: "mresult \<Rightarrow> heap \<Rightarrow> heap" where
  "mtoml_free r h = mpool_destroy (mr_pool r) (mfree (mr_toptab r) h)"

text \<open>\<open>toml_get\<close> compares the keys with \<open>strcmp\<close>.\<close>

fun mget_loop :: "ptr \<Rightarrow> ptr \<Rightarrow> nat \<Rightarrow> (span \<times> mdatum) list \<Rightarrow> string \<Rightarrow> heap \<Rightarrow> mdatum \<times> heap" where
  "mget_loop k v i [] key h = (MZERO, h)"
| "mget_loop k v i ((s, d) # kvs) key h =
     (let h1 = read_span s (touch k (SIZEOF_PTR * (i + 1)) h) in
      if cstr (snd s) = cstr key then (d, touch v (SIZEOF_DATUM * (i + 1)) h1)
      else mget_loop k v (i + 1) kvs key h1)"

fun mtoml_get :: "mdatum \<Rightarrow> string \<Rightarrow> heap \<Rightarrow> mdatum \<times> heap" where
  "mtoml_get (MTable f k l v kvs) key h = mget_loop k v 0 kvs key h"
| "mtoml_get d key h = (MZERO, h)"

end
