(* ===== verification/Toml_Ownership.thy ===== *)
theory Toml_Ownership
  imports Toml_Memory
begin

text \<open>
  Who owns which block: the operations of \<open>Toml_Memory\<close> neither leak a block nor free one
  twice nor leave one behind that is too small, whatever the allocator refuses; and they
  compute what \<open>Toml_Datum\<close> and \<open>Toml_Merge\<close> say.
\<close>

section \<open>Ownership\<close>

text \<open>The blocks of a tree, and the pools that its keys and strings lie in.\<close>

fun owned :: "mdatum \<Rightarrow> ptr multiset" where
  "owned (MPlain d) = {#}"
| "owned (MString f s) = {#}"
| "owned (MArray f p xs) = one_block p + sum_list (map owned xs)"
| "owned (MTable f k l v kvs) =
     one_block k + one_block l + one_block v + sum_list (map (\<lambda>(s, d). owned d) kvs)"

fun pools :: "mdatum \<Rightarrow> ptr set" where
  "pools (MPlain d) = {}"
| "pools (MString f s) = {fst s}"
| "pools (MArray f p xs) = (\<Union>x \<in> set xs. pools x)"
| "pools (MTable f k l v kvs) = (\<Union>(s, d) \<in> set kvs. insert (fst s) (pools d))"

text \<open>A block that holds \<open>n\<close> bytes, unless none are needed.\<close>

definition block_holds :: "heap \<Rightarrow> ptr \<Rightarrow> nat \<Rightarrow> bool" where
  "block_holds h p n \<longleftrightarrow> (if n = 0 then True else \<exists>m. size_of h p = Some m \<and> n \<le> m)"

fun roomy :: "heap \<Rightarrow> mdatum \<Rightarrow> bool" where
  "roomy h (MPlain d) \<longleftrightarrow> dtype d \<notin> {TOML_STRING, TOML_ARRAY, TOML_TABLE}"
| "roomy h (MString f s) \<longleftrightarrow> True"
| "roomy h (MArray f p xs) \<longleftrightarrow> block_holds h p (SIZEOF_DATUM * length xs) \<and> (\<forall>x \<in> set xs. roomy h x)"
| "roomy h (MTable f k l v kvs) \<longleftrightarrow>
     block_holds h k (SIZEOF_PTR * length kvs) \<and> block_holds h l (SIZEOF_INT * length kvs) \<and>
     block_holds h v (SIZEOF_DATUM * length kvs) \<and> (\<forall>(s, d) \<in> set kvs. roomy h d)"

text \<open>The tree owns its blocks, the frame \<open>R\<close> is all the rest.\<close>

definition owns :: "ptr multiset \<Rightarrow> heap \<Rightarrow> mdatum \<Rightarrow> bool" where
  "owns R h d \<longleftrightarrow> heap_ok h \<and> alive h = owned d + R \<and> roomy h d"

lemma owned_simps [simp]: "owned MZERO = {#}" "pools MZERO = {}" "roomy h MZERO" "forget MZERO = DATUM_ZERO"
  by (simp_all add: MZERO_def DATUM_ZERO_def)

lemma sizes_pos [simp]: "0 < SIZEOF_PTR" "0 < SIZEOF_INT" "0 < SIZEOF_DATUM"
  by (simp_all add: SIZEOF_PTR_def SIZEOF_INT_def SIZEOF_DATUM_def)

lemma owned_member: "x \<in> set xs \<Longrightarrow> owned x \<subseteq># sum_list (map owned xs)"
  by (induction xs) (auto simp: subset_mset.add_increasing subset_mset.add_increasing2)

lemma owned_entry: "(s, d) \<in> set kvs \<Longrightarrow> owned d \<subseteq># sum_list (map (\<lambda>(s, d). owned d) kvs)"
  by (induction kvs) (auto simp: subset_mset.add_increasing subset_mset.add_increasing2)

text \<open>Only the blocks of the tree, and those that it can have lost, matter.\<close>

lemma holds_same: "size_of h' p = size_of h p \<Longrightarrow> block_holds h' p n = block_holds h p n"
  by (simp add: block_holds_def)

lemma holds_zero [simp]: "block_holds h p 0"
  by (simp add: block_holds_def)

lemma holds_touch: "heap_ok h \<Longrightarrow> block_holds h p n \<Longrightarrow> 0 < m \<Longrightarrow> m \<le> n \<Longrightarrow> touch p m h = h"
  by (auto simp: block_holds_def touch_ok)

lemma holds_alive: "block_holds h p n \<Longrightarrow> 0 < n \<Longrightarrow> p \<in># alive h"
  by (auto simp: block_holds_def alive_size)

lemma holds_nonzero: "heap_ok h \<Longrightarrow> block_holds h p n \<Longrightarrow> 0 < n \<Longrightarrow> p \<noteq> 0"
  using holds_alive alive_nonzero by metis

lemma holds_keep:
  assumes "heap_ok h" and "block_holds h p n" and "p \<in># R \<or> p = 0" and "keeps_blocks R h h'"
  shows "block_holds h' p n"
proof (cases "p = 0")
  case True
  with assms(1,2) alive_nonzero [of h] have "n = 0" by (auto simp: block_holds_def alive_size split: if_splits)
  then show ?thesis by simp
next
  case False
  with assms(2-4) show ?thesis by (simp add: block_holds_def keeps_blocks_def)
qed

lemma roomy_keep:
  "heap_ok h \<Longrightarrow> roomy h d \<Longrightarrow> set_mset (owned d) \<subseteq> set_mset R \<Longrightarrow> keeps_blocks R h h' \<Longrightarrow> roomy h' d"
proof (induction d)
  case (MArray f p xs)
  have "roomy h' x" if "x \<in> set xs" for x
  proof -
    have "set_mset (owned x) \<subseteq> set_mset R"
      using set_mset_mono [OF owned_member [OF that]] MArray.prems(3) by auto
    with MArray that show ?thesis by simp
  qed
  moreover have "p \<in># R \<or> p = 0" using MArray.prems(3) by (cases "p = 0") auto
  moreover note holds_keep [OF MArray.prems(1) _ _ MArray.prems(4)]
  ultimately show ?case using MArray.prems(2) by simp
next
  case (MTable f k l v kvs)
  have "roomy h' d" if "(s, d) \<in> set kvs" for s d
  proof -
    have "set_mset (owned d) \<subseteq> set_mset R"
      using set_mset_mono [OF owned_entry [OF that]] MTable.prems(3) by auto
    moreover have "roomy h d" using MTable.prems(2) that by auto
    ultimately show ?thesis using MTable.IH [OF that, of d] MTable.prems(1,4) by simp
  qed
  moreover have "(k \<in># R \<or> k = 0) \<and> (l \<in># R \<or> l = 0) \<and> (v \<in># R \<or> v = 0)"
    using MTable.prems(3) by (auto simp: one_block_def split: if_splits)
  moreover note holds_keep [OF MTable.prems(1) _ _ MTable.prems(4)]
  ultimately show ?case using MTable.prems(2) by (simp add: case_prod_unfold split_paired_all)
qed auto

section \<open>Freeing\<close>

definition freed :: "ptr multiset \<Rightarrow> heap \<Rightarrow> heap \<Rightarrow> bool" where
  "freed R h h' \<longleftrightarrow> heap_ok h' \<and> alive h' = R \<and> keeps_blocks R h h' \<and> grants h' = grants h"

lemma freed_block: "heap_ok h \<Longrightarrow> alive h = one_block p + R \<Longrightarrow> freed R h (mem_free p h)"
  using mem_free_ok by (simp add: freed_def)

lemma freed_then: "freed S h h1 \<Longrightarrow> freed R h1 h2 \<Longrightarrow> set_mset R \<subseteq> set_mset S \<Longrightarrow> freed R h h2"
  unfolding freed_def by (metis keeps_blocks_sub keeps_blocks_trans)

lemma mfree_ok:
  "owns R h d \<Longrightarrow> freed R h (mfree d h)"
  "heap_ok h \<Longrightarrow> alive h = sum_list (map (\<lambda>(s, d). owned d) kvs) + R \<Longrightarrow> \<forall>(s, d) \<in> set kvs. roomy h d \<Longrightarrow>
     block_holds h v (SIZEOF_DATUM * (i + length kvs)) \<Longrightarrow> kvs \<noteq> [] \<longrightarrow> v \<in># R \<Longrightarrow> freed R h (mfree_table v i kvs h)"
  "heap_ok h \<Longrightarrow> alive h = sum_list (map owned xs) + R \<Longrightarrow> \<forall>d \<in> set xs. roomy h d \<Longrightarrow>
     block_holds h p (SIZEOF_DATUM * (i + length xs)) \<Longrightarrow> xs \<noteq> [] \<longrightarrow> p \<in># R \<Longrightarrow> freed R h (mfree_array p i xs h)"
proof (induction d h and v i kvs h and p i xs h arbitrary: R and R and R rule: mfree_mfree_table_mfree_array.induct)
  case (1 f k l v kvs h)
  let ?R = "one_block k + one_block l + one_block v + R"
  have h: "heap_ok h" "block_holds h v (SIZEOF_DATUM * length kvs)" using 1(2) by (simp_all add: owns_def)
  have "v \<noteq> 0" if "kvs \<noteq> []"
    using holds_nonzero [OF h] that by simp
  then have a: "freed ?R h (mfree_table v 0 kvs h)"
    using 1(2) by (intro 1(1)) (auto simp: owns_def)
  have b: "freed (one_block l + one_block v + R) (mfree_table v 0 kvs h) (mem_free k (mfree_table v 0 kvs h))"
    using a by (intro freed_block) (auto simp: freed_def)
  have c: "freed (one_block v + R) (mem_free k (mfree_table v 0 kvs h)) (mem_free l (mem_free k (mfree_table v 0 kvs h)))"
    using b by (intro freed_block) (auto simp: freed_def)
  have d: "freed R (mem_free l (mem_free k (mfree_table v 0 kvs h)))
      (mem_free v (mem_free l (mem_free k (mfree_table v 0 kvs h))))"
    using c by (intro freed_block) (auto simp: freed_def)
  have "freed (one_block l + one_block v + R) h (mem_free k (mfree_table v 0 kvs h))"
    by (rule freed_then [OF a b]) auto
  from freed_then [OF this c] have "freed (one_block v + R) h (mem_free l (mem_free k (mfree_table v 0 kvs h)))" by auto
  from freed_then [OF this d] show ?case by simp
next
  case (2 f p xs h)
  have h: "heap_ok h" "block_holds h p (SIZEOF_DATUM * length xs)" using 2(2) by (simp_all add: owns_def)
  have "p \<noteq> 0" if "xs \<noteq> []"
    using holds_nonzero [OF h] that by simp
  then have a: "freed (one_block p + R) h (mfree_array p 0 xs h)"
    using 2(2) by (intro 2(1)) (auto simp: owns_def)
  have b: "freed R (mfree_array p 0 xs h) (mem_free p (mfree_array p 0 xs h))"
    using a by (intro freed_block) (auto simp: freed_def)
  show ?case using freed_then [OF a b] by simp
next
  case (6 v i s d kvs h)
  let ?S = "sum_list (map (\<lambda>(s, d). owned d) kvs) + R"
  have t: "touch v (SIZEOF_DATUM * (i + 1)) h = h"
    using 6(3,6) by (intro holds_touch [of h v "SIZEOF_DATUM * (i + length ((s, d) # kvs))"]) simp_all
  have a: "freed ?S h (mfree d h)"
    using 6(1) [unfolded t, of ?S] 6(3-5) by (simp add: owns_def ac_simps)
  have keep: "keeps_blocks ?S h (mfree d h)" using a by (simp add: freed_def)
  have "roomy (mfree d h) d'" if "(s', d') \<in> set kvs" for s' d'
    by (rule roomy_keep [OF 6(3) _ _ keep]) (use 6(5) that set_mset_mono [OF owned_entry [OF that]] in auto)
  then have "\<forall>(s', d') \<in> set kvs. roomy (mfree d h) d'" by auto
  moreover have "block_holds (mfree d h) v (SIZEOF_DATUM * (i + 1 + length kvs))"
    by (rule holds_keep [OF 6(3) _ _ keep]) (use 6(6,7) in auto)
  ultimately have b: "freed R (mfree d h) (mfree_table v (i + 1) kvs (mfree d h))"
    using a 6(7) by (intro 6(2) [unfolded t]) (auto simp: freed_def)
  show ?case unfolding mfree_table.simps mfree_array.simps t by (rule freed_then [OF a b]) simp
next
  case (8 p i d xs h)
  let ?S = "sum_list (map owned xs) + R"
  have t: "touch p (SIZEOF_DATUM * (i + 1)) h = h"
    using 8(3,6) by (intro holds_touch [of h p "SIZEOF_DATUM * (i + length (d # xs))"]) simp_all
  have a: "freed ?S h (mfree d h)"
    using 8(1) [unfolded t, of ?S] 8(3-5) by (simp add: owns_def ac_simps)
  have keep: "keeps_blocks ?S h (mfree d h)" using a by (simp add: freed_def)
  have "roomy (mfree d h) d'" if "d' \<in> set xs" for d'
    by (rule roomy_keep [OF 8(3) _ _ keep]) (use 8(5) that set_mset_mono [OF owned_member [OF that]] in auto)
  moreover have "block_holds (mfree d h) p (SIZEOF_DATUM * (i + 1 + length xs))"
    by (rule holds_keep [OF 8(3) _ _ keep]) (use 8(6,7) in auto)
  ultimately have b: "freed R (mfree d h) (mfree_array p (i + 1) xs (mfree d h))"
    using a 8(7) by (intro 8(2) [unfolded t]) (auto simp: freed_def)
  show ?case unfolding mfree_table.simps mfree_array.simps t by (rule freed_then [OF a b]) simp
qed (auto simp: owns_def freed_def)

end
