(* ===== verification/Toml_Building.thy ===== *)
theory Toml_Building
  imports Toml_Ownership
begin

text \<open>
  Building trees in memory: a place in a table or an array, and what is stored there.  Each
  operation keeps what the tree owns whatever the allocator refuses, and computes what its
  counterpart of \<open>Toml_Datum\<close> computes unless it runs out of memory.
\<close>

section \<open>Places\<close>

text \<open>
  The heap after an operation on a tree: the tree owns its blocks, the frame is untouched, and
  an allocator without a refusal left has refused nothing.
\<close>

definition built :: "ptr multiset \<Rightarrow> heap \<Rightarrow> mdatum \<Rightarrow> heap \<Rightarrow> bool" where
  "built R h d h' \<longleftrightarrow> owns R h' d \<and> keeps_blocks R h h' \<and> (grants h = [] \<longrightarrow> grants h' = [])"

lemma built_refl: "owns R h d \<Longrightarrow> built R h d h"
  by (simp add: built_def)

lemma built_then: "built R h d h1 \<Longrightarrow> built R h1 d' h2 \<Longrightarrow> built R h d' h2"
  by (auto simp: built_def intro: keeps_blocks_trans)

lemma read_span_ok: "fst s \<in># alive h \<Longrightarrow> read_span s h = h"
  by (auto simp: read_span_def alive_size touch_def size_of_def)

lemma find_loop_ok:
  assumes "heap_ok h" and "fst key \<in># alive h"
  shows "block_holds h k (SIZEOF_PTR * (i + length kvs)) \<Longrightarrow> block_holds h l (SIZEOF_INT * (i + length kvs)) \<Longrightarrow>
     \<forall>(s, d) \<in> set kvs. fst s \<in># alive h \<Longrightarrow>
     find_loop k l key i kvs h =
       (map_option (\<lambda>j. i + j) (find_slot (\<lambda>kv. snd (fst kv) = snd key) kvs), h)"
proof (induction kvs arbitrary: i)
  case (Cons kv kvs)
  have t: "touch k (SIZEOF_PTR * (i + 1)) h = h" "touch l (SIZEOF_INT * (i + 1)) h = h"
    using Cons.prems assms(1) holds_touch [of h _ "_ * (i + length (kv # kvs))"] by simp_all
  have r: "read_span (fst kv) h = h" "read_span key h = h"
    using Cons.prems assms(2) by (auto intro!: read_span_ok)
  have "find_loop k l key (i + 1) kvs h =
      (map_option (\<lambda>j. i + 1 + j) (find_slot (\<lambda>kv. snd (fst kv) = snd key) kvs), h)"
    using Cons.prems by (intro Cons.IH) auto
  then show ?case
    using t r by (cases "find_slot (\<lambda>kv. snd (fst kv) = snd key) kvs") (auto simp: Let_def)
qed simp

lemma find_slot_forget:
  "find_slot (\<lambda>kv. fst kv = key) (map (\<lambda>(s, d). (snd s, forget d)) kvs) = find_slot (\<lambda>kv. snd (fst kv) = key) kvs"
  by (induction kvs) (auto split: prod.splits)

text \<open>Growing the three blocks of a table: whatever is refused, each pointer is of a live block.\<close>

lemma grow3_ok:
  assumes "heap_ok h" and "alive h = one_block k + one_block l + one_block v + R"
    and "grow3 k l v n h = (ok, k', l', v', h')"
  shows "heap_ok h'" "alive h' = one_block k' + one_block l' + one_block v' + R" "keeps_blocks R h h'"
    "grants h = [] \<Longrightarrow> ok \<and> grants h' = []"
    "block_holds h k a \<Longrightarrow> a \<le> SIZEOF_PTR * align8 n \<Longrightarrow> block_holds h' k' a"
    "block_holds h l b \<Longrightarrow> b \<le> SIZEOF_INT * align8 n \<Longrightarrow> block_holds h' l' b"
    "block_holds h v c \<Longrightarrow> c \<le> SIZEOF_DATUM * align8 n \<Longrightarrow> block_holds h' v' c"
    "ok \<Longrightarrow> a \<le> SIZEOF_PTR * align8 n \<Longrightarrow> block_holds h' k' a"
    "ok \<Longrightarrow> b \<le> SIZEOF_INT * align8 n \<Longrightarrow> block_holds h' l' b"
    "ok \<Longrightarrow> c \<le> SIZEOF_DATUM * align8 n \<Longrightarrow> block_holds h' v' c"
proof -
  obtain p1 h1 where r1: "mem_realloc k (SIZEOF_PTR * align8 n) h = (p1, h1)" by (cases "mem_realloc k (SIZEOF_PTR * align8 n) h")
  obtain p2 h2 where r2: "mem_realloc l (SIZEOF_INT * align8 n) h1 = (p2, h2)" by (cases "mem_realloc l (SIZEOF_INT * align8 n) h1")
  obtain p3 h3 where r3: "mem_realloc v (SIZEOF_DATUM * align8 n) h2 = (p3, h3)" by (cases "mem_realloc v (SIZEOF_DATUM * align8 n) h2")
  have eq: "ok \<longleftrightarrow> p1 \<noteq> 0 \<and> p2 \<noteq> 0 \<and> p3 \<noteq> 0" "k' = (if p1 = 0 then k else p1)" "l' = (if p2 = 0 then l else p2)"
      "v' = (if p3 = 0 then v else p3)" "h' = h3"
    using assms(3) r1 r2 r3 by (auto simp: grow3_def)
  have "alive h = one_block k + (one_block l + one_block v + R)" using assms(2) by (simp add: ac_simps)
  note m1 = mem_realloc_ok [OF assms(1) this r1, folded eq(2)]
  have a1: "alive h1 = one_block l + (one_block k' + one_block v + R)" using m1(3) by (simp add: ac_simps)
  note m2 = mem_realloc_ok [OF m1(1) a1 r2, folded eq(3)]
  have a2: "alive h2 = one_block v + (one_block k' + one_block l' + R)" using m2(3) by (simp add: ac_simps)
  note m3 = mem_realloc_ok [OF m2(1) a2 r3, folded eq(4)]
  show "heap_ok h'" using m3(1) eq by simp
  show "alive h' = one_block k' + one_block l' + one_block v' + R" using m3(3) eq by (simp add: ac_simps)
  have k: "keeps_blocks (one_block l + one_block v + R) h h1" "keeps_blocks (one_block k' + one_block v + R) h1 h2"
    "keeps_blocks (one_block k' + one_block l' + R) h2 h3" using m1(2) m2(2) m3(2) by auto
  show "keeps_blocks R h h'"
    using keeps_blocks_sub [OF k(1), of R] keeps_blocks_sub [OF k(2), of R] keeps_blocks_sub [OF k(3), of R] eq
    by (auto intro: keeps_blocks_trans)
  show "grants h = [] \<Longrightarrow> ok \<and> grants h' = []" using m1(6) m2(6) m3(6) eq by auto
  have hk: "block_holds h1 k' a \<Longrightarrow> block_holds h' k' a" for a
    unfolding eq(5) by (rule holds_keep [OF m2(1) holds_keep [OF m1(1) _ _ k(2)] _ k(3)]) (auto split: if_splits)
  have hl0: "block_holds h l b \<Longrightarrow> block_holds h1 l b" for b by (rule holds_keep [OF assms(1) _ _ k(1)]) auto
  have hl: "block_holds h2 l' b \<Longrightarrow> block_holds h' l' b" for b unfolding eq(5) by (rule holds_keep [OF m2(1) _ _ k(3)]) auto
  have hv: "block_holds h v c \<Longrightarrow> block_holds h2 v c" for c
    by (rule holds_keep [OF m1(1) holds_keep [OF assms(1) _ _ k(1)] _ k(2)]) auto
  have new: "q \<noteq> 0 \<Longrightarrow> size_of g q = Some m \<Longrightarrow> a \<le> m \<Longrightarrow> block_holds g q a" for q g m a by (simp add: block_holds_def)
  have old: "size_of g p = size_of g0 p \<Longrightarrow> block_holds g0 p a \<Longrightarrow> block_holds g p a" for p g g0 a by (simp add: block_holds_def)
  show "block_holds h k a \<Longrightarrow> a \<le> SIZEOF_PTR * align8 n \<Longrightarrow> block_holds h' k' a"
    using m1(4,5) by (intro hk) (auto simp: eq(2) intro: new old)
  show "block_holds h l b \<Longrightarrow> b \<le> SIZEOF_INT * align8 n \<Longrightarrow> block_holds h' l' b"
    using m2(4,5) hl0 by (intro hl) (auto simp: eq(3) intro: new old)
  show "block_holds h v c \<Longrightarrow> c \<le> SIZEOF_DATUM * align8 n \<Longrightarrow> block_holds h' v' c"
    using m3(4,5) hv by (auto simp: eq(4,5) intro: new old)
  show "ok \<Longrightarrow> a \<le> SIZEOF_PTR * align8 n \<Longrightarrow> block_holds h' k' a"
    using m1(5) eq(1) by (intro hk) (auto simp: eq(2) intro: new)
  show "ok \<Longrightarrow> b \<le> SIZEOF_INT * align8 n \<Longrightarrow> block_holds h' l' b"
    using m2(5) eq(1) by (intro hl) (auto simp: eq(3) intro: new)
  show "ok \<Longrightarrow> c \<le> SIZEOF_DATUM * align8 n \<Longrightarrow> block_holds h' v' c"
    using m3(5) eq(1) by (auto simp: eq(4,5) intro: new)
qed

text \<open>How many entries a tree has at its top, and what an operation may answer.\<close>

fun msize :: "mdatum \<Rightarrow> nat" where
  "msize (MTable f k l v kvs) = length kvs"
| "msize (MArray f p xs) = length xs"
| "msize d = 0"

definition agrees :: "bool \<Rightarrow> (string + datum \<times> nat) \<Rightarrow> mdatum \<Rightarrow> mdatum \<Rightarrow> string + nat \<Rightarrow> bool" where
  "agrees copy_refused pure d d' res \<longleftrightarrow>
     (case res of
        Inl e \<Rightarrow> forget d' = forget d \<and> (pure = Inl e \<or> copy_refused \<and> e = ''out of memory'')
      | Inr i \<Rightarrow> pure = Inr (forget d', i) \<and> i < msize d')"

text \<open>A new key: the three blocks have grown, or one of them could not.\<close>

lemma mtab_emplace_new:
  assumes "owns R h (MTable f k l v kvs)" and "find_loop k l key 0 kvs h = (None, h)" and "length kvs < TABLE_MAX"
    and "find_slot (\<lambda>kv. snd (fst kv) = snd key) kvs = None"
    and "mtab_emplace (MTable f k l v kvs) key h = (d', res, h')"
  shows "built R h d' h' \<and> pools d' \<subseteq> insert (fst key) (pools (MTable f k l v kvs)) \<and> mtype d' = TOML_TABLE \<and>
    agrees (grants h \<noteq> []) (tab_emplace (forget (MTable f k l v kvs)) (snd key)) (MTable f k l v kvs) d' res"
proof -
  let ?d = "MTable f k l v kvs" and ?n = "length kvs + 1" and ?tail = "sum_list (map (\<lambda>(s, d). owned d) kvs)"
  have ok: "heap_ok h" "alive h = owned ?d + R" "roomy h ?d" using assms(1) by (simp_all add: owns_def)
  obtain ok' k' l' v' h2 where g: "grow3 k l v ?n h = (ok', k', l', v', h2)" by (metis prod_cases5)
  have "alive h = one_block k + one_block l + one_block v + (?tail + R)" using ok(2) by (simp add: ac_simps)
  note m = grow3_ok [OF ok(1) this g]
  have le: "length kvs \<le> align8 ?n" "?n \<le> align8 ?n" using align8_ge [of ?n] by simp_all
  have r2: "\<forall>(s, d) \<in> set kvs. roomy h2 d"
  proof (clarify)
    fix s s2 d assume i: "((s, s2), d) \<in> set kvs"
    show "roomy h2 d"
      by (rule roomy_keep [OF ok(1) _ _ m(3)]) (use ok(3) i set_mset_mono [OF owned_entry [OF i]] in auto)
  qed
  have kb: "keeps_blocks R h h2" by (rule keeps_blocks_sub [OF m(3)]) auto
  show ?thesis
  proof (cases ok')
    case False
    then have eq: "d' = MTable f k' l' v' kvs" "res = Inl ''out of memory''" "h' = h2" using assms(2-) g by simp_all
    have "roomy h2 d'" using m(5-7) le ok(3) r2 eq(1) by (auto simp: mult_le_mono2)
    then have "built R h d' h'"
      using m(1,2,4) kb False eq by (auto simp: built_def owns_def ac_simps)
    then show ?thesis using eq m(4) False by (auto simp: agrees_def)
  next
    case True
    have hs: "block_holds h2 k' (SIZEOF_PTR * ?n)" "block_holds h2 l' (SIZEOF_INT * ?n)" "block_holds h2 v' (SIZEOF_DATUM * ?n)"
      using m(8-10) True le by (blast intro: mult_le_mono2)+
    have t: "touch k' (SIZEOF_PTR * ?n) h2 = h2" "touch l' (SIZEOF_INT * ?n) h2 = h2" "touch v' (SIZEOF_DATUM * ?n) h2 = h2"
      by (rule holds_touch [OF m(1) hs(1)] holds_touch [OF m(1) hs(2)] holds_touch [OF m(1) hs(3)]; simp)+
    have small: "\<not> TABLE_MAX \<le> length kvs" using assms(3) by simp
    have eq: "d' = MTable f k' l' v' (kvs @ [(key, MZERO)])" "res = Inr (length kvs)" "h' = h2"
      using assms(5) small True unfolding mtab_emplace.simps assms(2) g
      by (simp_all only: g t if_False prod.case prod.inject option.case not_True_eq_False simp_thms)
    have "roomy h2 d'" using hs r2 eq(1) by auto
    then have "built R h d' h'" using m(1,2,4) kb eq by (auto simp: built_def owns_def ac_simps)
    then show ?thesis using eq assms(4) small by (auto simp: agrees_def find_slot_forget)
  qed
qed

lemma mtab_emplace_ok:
  assumes "owns R h (MTable f k l v kvs)" and "insert (fst key) (pools (MTable f k l v kvs)) \<subseteq> set_mset R"
    and "mtab_emplace (MTable f k l v kvs) key h = (d', res, h')"
  shows "built R h d' h' \<and> pools d' \<subseteq> insert (fst key) (pools (MTable f k l v kvs)) \<and> mtype d' = TOML_TABLE \<and>
    agrees (grants h \<noteq> []) (tab_emplace (forget (MTable f k l v kvs)) (snd key)) (MTable f k l v kvs) d' res"
proof -
  let ?d = "MTable f k l v kvs"
  have ok: "heap_ok h" "alive h = owned ?d + R" "roomy h ?d" using assms(1) by (simp_all add: owns_def)
  have live: "fst s \<in># alive h" if "fst s \<in> set_mset R" for s :: span using that ok(2) by simp
  have keys: "\<forall>(s, d) \<in> set kvs. fst s \<in># alive h" using assms(2) by (auto intro!: live)
  have found: "find_loop k l key 0 kvs h = (find_slot (\<lambda>kv. snd (fst kv) = snd key) kvs, h)"
    using find_loop_ok [OF ok(1) live, of key k 0 kvs l] keys ok(3) assms(2) by (simp add: option.map_ident)
  show ?thesis
  proof (cases "find_slot (\<lambda>kv. snd (fst kv) = snd key) kvs")
    case (Some i)
    then have "d' = ?d" "res = Inr i" "h' = h" using assms(3) found by simp_all
    moreover have "i < length kvs" using find_slot_SomeD [OF Some] by simp
    ultimately show ?thesis
      using assms(1) Some by (auto simp: built_refl agrees_def find_slot_forget)
  next
    case None
    show ?thesis
    proof (cases "length kvs < TABLE_MAX")
      case True
      show ?thesis by (rule mtab_emplace_new [OF assms(1) found [unfolded None] True None assms(3)])
    next
      case False
      then have "d' = ?d" "res = Inl ''table too large''" "h' = h" using assms(3) found None by simp_all
      with assms(1) None False show ?thesis by (auto simp: built_refl agrees_def find_slot_forget)
    qed
  qed
qed

lemma marr_emplace_ok:
  assumes "owns R h (MArray f p xs)" and "marr_emplace (MArray f p xs) h = (d', res, h')"
  shows "built R h d' h' \<and> pools d' = pools (MArray f p xs) \<and> mtype d' = TOML_ARRAY \<and>
    agrees (grants h \<noteq> []) (arr_emplace (forget (MArray f p xs))) (MArray f p xs) d' res"
proof (cases "ARRAY_MAX \<le> length xs")
  case True
  then have "d' = MArray f p xs" "res = Inl ''array too large''" "h' = h" using assms(2) by simp_all
  with assms(1) True show ?thesis by (auto simp: built_refl agrees_def)
next
  case False
  let ?n = "length xs + 1"
  have ok: "heap_ok h" "alive h = owned (MArray f p xs) + R" "roomy h (MArray f p xs)"
    using assms(1) by (simp_all add: owns_def)
  obtain q h1 where g: "mem_realloc p (SIZEOF_DATUM * align8 ?n) h = (q, h1)"
    by (cases "mem_realloc p (SIZEOF_DATUM * align8 ?n) h")
  have "alive h = one_block p + (sum_list (map owned xs) + R)" using ok(2) by (simp add: ac_simps)
  note m = mem_realloc_ok [OF ok(1) this g]
  have r1: "\<forall>d \<in> set xs. roomy h1 d"
  proof
    fix d assume i: "d \<in> set xs"
    show "roomy h1 d"
      by (rule roomy_keep [OF ok(1) _ _ m(2)]) (use ok(3) i set_mset_mono [OF owned_member [OF i]] in auto)
  qed
  have kb: "keeps_blocks R h h1" by (rule keeps_blocks_sub [OF m(2)]) auto
  show ?thesis
  proof (cases "q = 0")
    case True
    then have eq: "d' = MArray f p xs" "res = Inl ''out of memory''" "h' = h1" using assms(2) False g by simp_all
    have "roomy h1 d'" using holds_same [OF m(4) [OF True]] ok(3) r1 eq(1) by simp
    moreover have "alive h1 = owned d' + R" using m(3) True eq(1) by (simp add: ac_simps)
    ultimately have "built R h d' h'" using m(1,6) kb True eq(3) by (auto simp: built_def owns_def)
    then show ?thesis using m(6) True eq by (auto simp: agrees_def)
  next
    case q: False
    have hs: "block_holds h1 q (SIZEOF_DATUM * ?n)" using m(5) [OF q] mult_le_mono2 [OF align8_ge [of ?n]] unfolding block_holds_def by auto
    have t: "touch q (SIZEOF_DATUM * ?n) h1 = h1" by (rule holds_touch [OF m(1) hs]) simp_all
    have eq: "d' = MArray f q (xs @ [MZERO])" "res = Inr (length xs)" "h' = h1"
      using assms(2) False q unfolding marr_emplace.simps g by (simp_all only: t if_False prod.case prod.inject)
    have "roomy h1 d'" using hs r1 eq(1) by auto
    moreover have "alive h1 = owned d' + R" using m(3) q eq(1) by (simp add: ac_simps)
    ultimately have "built R h d' h'" using m(1,6) kb eq(3) by (simp add: built_def owns_def)
    then show ?thesis using eq False by (auto simp: agrees_def)
  qed
qed

section \<open>What is stored at a place\<close>

lemma sum_put:
  "i < length xs \<Longrightarrow> f z = ({#} :: ptr multiset) \<Longrightarrow>
     sum_list (map f (xs[i := y])) = f y + sum_list (map f (xs[i := z]))"
  by (induction xs arbitrary: i) (auto split: nat.split simp: ac_simps)

abbreviation mrest :: "mdatum \<Rightarrow> nat \<Rightarrow> ptr multiset" where
  "mrest d i \<equiv> owned (mput d i MZERO)"

lemma mput_facts:
  assumes "i < msize d"
  shows "owned (mput d i c) = owned c + mrest d i" "mput d i (mvalue d i) = d"
    "roomy h (mput d i c) \<longleftrightarrow> roomy h (mput d i MZERO) \<and> roomy h c"
    "pools (mput d i c) \<subseteq> pools d \<union> pools c" "pools (mvalue d i) \<subseteq> pools d" "mtype (mput d i c) = mtype d"
    "mtype d = TOML_TABLE \<Longrightarrow> forget (mput d i c) = tab_set (forget d) i (forget c)"
    "mtype d = TOML_TABLE \<Longrightarrow> forget (mvalue d i) = tab_value (forget d) i"
    "mtype d = TOML_ARRAY \<Longrightarrow> forget (mput d i c) = arr_set (forget d) i (forget c)"
proof -
  show "owned (mput d i c) = owned c + mrest d i"
    using assms sum_put [of i _ owned MZERO c] sum_put [of i _ "\<lambda>(s, d). owned d" "(_, MZERO)" "(_, c)"]
    by (cases d) (auto simp: ac_simps)
  show "mput d i (mvalue d i) = d"
    using assms by (cases d) auto
  show "roomy h (mput d i c) \<longleftrightarrow> roomy h (mput d i MZERO) \<and> roomy h c"
    using assms by (cases d) (auto simp: all_set_conv_all_nth nth_list_update case_prod_unfold)
  show "pools (mput d i c) \<subseteq> pools d \<union> pools c"
    using assms by (cases d) (auto dest!: set_update_subset_insert [THEN subsetD] nth_mem)
  show "pools (mvalue d i) \<subseteq> pools d"
    using assms by (cases d) (auto dest!: nth_mem)
  show "mtype (mput d i c) = mtype d"
    by (cases d) auto
  show "mtype d = TOML_TABLE \<Longrightarrow> forget (mput d i c) = tab_set (forget d) i (forget c)"
    using assms by (cases d) (auto simp: map_update case_prod_unfold dtype_table)
  show "mtype d = TOML_TABLE \<Longrightarrow> forget (mvalue d i) = tab_value (forget d) i"
    using assms by (cases d) (auto simp: case_prod_unfold dtype_table)
  show "mtype d = TOML_ARRAY \<Longrightarrow> forget (mput d i c) = arr_set (forget d) i (forget c)"
    using assms by (cases d) (auto simp: map_update)
qed

lemma owns_child:
  assumes "owns R h d" and "i < msize d"
  shows "owns (mrest d i + R) h (mvalue d i)"
  using assms mput_facts(1) [OF assms(2), of "mvalue d i"] mput_facts(3) [OF assms(2), of h "mvalue d i"]
  by (simp add: owns_def mput_facts(2) ac_simps)

lemma put_built:
  assumes "heap_ok h" and "roomy h d" and "i < msize d" and "built (mrest d i + R) h c h'"
  shows "built R h (mput d i c) h'"
proof -
  have c: "owns (mrest d i + R) h' c" "keeps_blocks (mrest d i + R) h h'" "grants h = [] \<longrightarrow> grants h' = []"
    using assms(4) by (simp_all add: built_def)
  have "roomy h (mput d i MZERO)"
    using assms(2) mput_facts(3) [OF assms(3), of h "mvalue d i"] by (simp add: mput_facts(2) [OF assms(3)])
  from roomy_keep [OF assms(1) this _ c(2)] have "roomy h' (mput d i MZERO)" by simp
  moreover have "keeps_blocks R h h'" by (rule keeps_blocks_sub [OF c(2)]) simp
  ultimately show ?thesis
    using c(1,3) mput_facts(1) [OF assms(3), of c] mput_facts(3) [OF assms(3), of h' c] by (simp add: built_def owns_def ac_simps)
qed

lemma built_put:
  assumes "owns R h d" and "i < msize d" and "built (mrest d i + R) h c h'"
  shows "built R h (mput d i c) h'"
  using put_built assms by (simp add: owns_def)

lemma forget_unknown: "mtype d = TOML_UNKNOWN \<Longrightarrow> \<exists>x. d = MPlain x"
  by (cases d) auto

text \<open>A new place is empty.\<close>

lemma tab_emplace_new:
  assumes "tab_emplace d key = Inr (t, i)" and "key \<notin> set (tab_keys d)"
  shows "tab_value t i = DATUM_ZERO" "tab_keys (tab_set t i c) = tab_keys d @ [key]"
  using assms by (cases d; auto simp: nth_append map_update image_iff split: option.splits if_splits
    dest!: find_slot_SomeD)+

lemma tab_emplace_typed: "tab_emplace d key = Inr (t, i) \<Longrightarrow> dtype (tab_value t i) \<noteq> TOML_UNKNOWN \<Longrightarrow> t = d"
  by (cases d) (auto split: option.splits if_splits)

text \<open>Adding a key: a failure leaves the table as it was and the value with its owner.\<close>

lemma mtab_add_ok:
  assumes "owns (owned w + R) h (MTable f k l v kvs)" and "roomy h w"
    and "insert (fst key) (pools (MTable f k l v kvs)) \<subseteq> set_mset (owned w + R)"
    and "mtab_add (MTable f k l v kvs) key w h = (tab', e, h')"
  shows "heap_ok h' \<and> alive h' = owned tab' + (if e = None then R else owned w + R) \<and> roomy h' tab' \<and>
    (case e of
       None \<Rightarrow> tab_add (forget (MTable f k l v kvs)) (snd key) (forget w) = Inr (forget tab')
     | Some reason \<Rightarrow> forget tab' = forget (MTable f k l v kvs) \<and>
         (tab_add (forget (MTable f k l v kvs)) (snd key) (forget w) = Inl reason \<or>
          grants h \<noteq> [] \<and> reason = ''out of memory''))"
proof -
  let ?d = "MTable f k l v kvs"
  obtain d1 res h1 where e: "mtab_emplace ?d key h = (d1, res, h1)" by (metis prod_cases3)
  note m = mtab_emplace_ok [OF assms(1,3) e]
  then have o: "heap_ok h1" "alive h1 = owned d1 + (owned w + R)" "roomy h1 d1" "keeps_blocks (owned w + R) h h1"
    by (simp_all add: built_def owns_def)
  show ?thesis
  proof (cases res)
    case (Inl reason)
    then have "tab' = d1" "e = Some reason" "h' = h1" using assms(4) e by (simp_all add: mtab_add_def)
    with m o Inl show ?thesis by (auto simp: agrees_def tab_add_def simp del: tab_emplace.simps forget.simps)
  next
    case (Inr i)
    then have i: "tab_emplace (forget ?d) (snd key) = Inr (forget d1, i)" "i < msize d1" "mtype d1 = TOML_TABLE"
      using m by (simp_all add: agrees_def del: tab_emplace.simps forget.simps)
    note p = mput_facts [OF i(2)]
    show ?thesis
    proof (cases "mtype (mvalue d1 i) = TOML_UNKNOWN")
      case True
      then obtain x where x: "mvalue d1 i = MPlain x" using forget_unknown by blast
      have r: "tab' = mput d1 i w" "e = None" "h' = h1" using assms(4) e Inr True by (simp_all add: mtab_add_def)
      have "owned d1 = mrest d1 i" using p(1) [of "mvalue d1 i"] p(2) x by simp
      moreover have "roomy h1 w" by (rule roomy_keep [OF _ assms(2) _ o(4)]) (use assms(1) in \<open>simp_all add: owns_def\<close>)
      moreover have "roomy h1 (mput d1 i MZERO)" using p(3) [of h1 "mvalue d1 i"] p(2) o(3) by simp
      ultimately show ?thesis
        using o p(1) [of w] p(3) [of h1 w] True p(7) [OF i(3), of w] p(8) [OF i(3)]
        by (simp add: r tab_add_def i(1) ac_simps del: tab_emplace.simps forget.simps)
    next
      case False
      have r: "tab' = d1" "e = Some ''duplicate key''" "h' = h1" using assms(4) e Inr False by (simp_all add: mtab_add_def)
      have "dtype (tab_value (forget d1) i) \<noteq> TOML_UNKNOWN" using False p(8) [OF i(3)] by simp
      with tab_emplace_typed [OF i(1) this] o i(1) show ?thesis
        by (simp add: r tab_add_def del: tab_emplace.simps forget.simps)
    qed
  qed
qed

end
