(* ===== verification/Toml_Copying.thy ===== *)
theory Toml_Copying
  imports Toml_Building
begin

text \<open>
  Deep copy and merge in memory compute what \<open>Toml_Merge\<close> says; a failure is one that
  \<open>Toml_Merge\<close> has as well, or a refusal of the allocator, or a pool that is too small.
\<close>

section \<open>Sources, costs and outcomes\<close>

text \<open>A block of the frame that holds \<open>n\<close> bytes.\<close>

definition block_lives :: "ptr multiset \<Rightarrow> heap \<Rightarrow> ptr \<Rightarrow> nat \<Rightarrow> bool" where
  "block_lives R h p n \<longleftrightarrow> block_holds h p n \<and> (p \<in># R \<or> p = 0)"

text \<open>A tree that lies in the frame, with its keys and strings in the pools \<open>P\<close>.\<close>

definition msource :: "ptr set \<Rightarrow> ptr multiset \<Rightarrow> heap \<Rightarrow> mdatum \<Rightarrow> bool" where
  "msource P R h d \<longleftrightarrow>
     roomy h d \<and> set_mset (owned d) \<subseteq> set_mset R \<and> pools d \<subseteq> P \<and> wf_datum (forget d)"

text \<open>The bytes of the pool that a copy takes.\<close>

fun mcost :: "mdatum \<Rightarrow> nat" where
  "mcost (MPlain d) = 0"
| "mcost (MString f s) = length (snd s) + 1"
| "mcost (MArray f p xs) = sum_list (map mcost xs)"
| "mcost (MTable f k l v kvs) = sum_list (map (\<lambda>(s, d). mcost d) kvs)"

definition pool_step :: "mpool \<Rightarrow> mpool \<Rightarrow> nat \<Rightarrow> bool" where
  "pool_step pl pl' n \<longleftrightarrow>
     pl_ptr pl' = pl_ptr pl \<and> pl_max pl' = pl_max pl \<and> pl_top pl' \<le> pl_top pl + n"

definition copy_refused :: "mpool \<Rightarrow> heap \<Rightarrow> nat \<Rightarrow> bool" where
  "copy_refused pl h n \<longleftrightarrow> grants h \<noteq> [] \<or> pl_max pl < pl_top pl + n"

definition copy_outcome :: "ptr set \<Rightarrow> ptr multiset \<Rightarrow> mpool \<Rightarrow> heap \<Rightarrow> nat \<Rightarrow> string + datum \<Rightarrow> build \<Rightarrow> bool" where
  "copy_outcome P R pl h n pure r \<longleftrightarrow>
     (case r of (d, e, pl', h') \<Rightarrow>
        built R h d h' \<and> pools d \<subseteq> P \<and> pool_step pl pl' n \<and>
        (case e of
           None \<Rightarrow> pure = Inr (forget d)
         | Some reason \<Rightarrow> pure = Inl reason \<or> copy_refused pl h n \<and> reason = ''out of memory''))"

lemma lives_keep: "heap_ok h \<Longrightarrow> block_lives R h p n \<Longrightarrow> keeps_blocks R h h' \<Longrightarrow> block_lives R h' p n"
  unfolding block_lives_def using holds_keep by metis

lemma lives_more: "block_lives R h p n \<Longrightarrow> block_lives (S + R) h p n"
  by (auto simp: block_lives_def)

lemma lives_touch: "heap_ok h \<Longrightarrow> block_lives R h p (a * n) \<Longrightarrow> 0 < a \<Longrightarrow> i < n \<Longrightarrow> touch p (a * (i + 1)) h = h"
  using mult_le_mono2 [of "i + 1" n a] by (intro holds_touch [of h p "a * n"]) (auto simp: block_lives_def)

lemma source_keep: "heap_ok h \<Longrightarrow> msource P R h d \<Longrightarrow> keeps_blocks R h h' \<Longrightarrow> msource P R h' d"
  unfolding msource_def using roomy_keep by metis

lemma source_more: "msource P R h d \<Longrightarrow> msource P (S + R) h d"
  by (auto simp: msource_def)

lemma wf_entries: "wf_datum (forget (MTable f k l v kvs)) \<Longrightarrow> (s, d) \<in> set kvs \<Longrightarrow> wf_datum (forget d)"
  by fastforce

lemma source_table:
  assumes "heap_ok h" and "msource P R h (MTable f k l v kvs)"
  shows "block_lives R h k (SIZEOF_PTR * length kvs)" "block_lives R h l (SIZEOF_INT * length kvs)"
    "block_lives R h v (SIZEOF_DATUM * length kvs)"
    "\<forall>(s, d) \<in> set kvs. fst s \<in> P \<and> msource P R h d"
    "distinct (map (\<lambda>kv. snd (fst kv)) kvs)"
proof -
  show "block_lives R h k (SIZEOF_PTR * length kvs)" "block_lives R h l (SIZEOF_INT * length kvs)"
    "block_lives R h v (SIZEOF_DATUM * length kvs)"
    using assms(2) by (auto simp: msource_def block_lives_def one_block_def split: if_splits)
  show "\<forall>(s, d) \<in> set kvs. fst s \<in> P \<and> msource P R h d"
  proof (clarify)
    fix a b d assume i: "((a, b), d) \<in> set kvs"
    have "wf_datum (forget d)" by (rule wf_entries [OF _ i]) (use assms(2) in \<open>auto simp: msource_def\<close>)
    moreover have "set_mset (owned d) \<subseteq> set_mset R"
      using assms(2) set_mset_mono [OF owned_entry [OF i]]
      by (simp add: msource_def) (meson subset_trans)
    moreover have "insert a (pools d) \<subseteq> P" "roomy h d" using assms(2) i by (auto simp: msource_def)
    ultimately show "fst (a, b) \<in> P \<and> msource P R h d" by (simp add: msource_def)
  qed
  show "distinct (map (\<lambda>kv. snd (fst kv)) kvs)"
    using assms(2) by (auto simp: msource_def case_prod_unfold comp_def)
qed

lemma source_array:
  assumes "heap_ok h" and "msource P R h (MArray f p xs)"
  shows "block_lives R h p (SIZEOF_DATUM * length xs)" "\<forall>d \<in> set xs. msource P R h d"
proof -
  show "block_lives R h p (SIZEOF_DATUM * length xs)"
    using assms(2) by (auto simp: msource_def block_lives_def one_block_def split: if_splits)
  show "\<forall>d \<in> set xs. msource P R h d"
  proof
    fix d assume i: "d \<in> set xs"
    show "msource P R h d"
      using assms(2) i set_mset_mono [OF owned_member [OF i]] by (auto simp: msource_def)
  qed
qed

section \<open>Putting steps together\<close>

text \<open>A child that is built at a place, and then the rest.\<close>

lemma outcome_child:
  assumes "owns R h d" and "i < msize d" and "pools d \<subseteq> P"
    and "copy_outcome P (mrest d i + R) pl h n pure (c, e, pl', h')"
  shows "copy_outcome P R pl h n (case pure of Inl x \<Rightarrow> Inl x | Inr y \<Rightarrow> Inr (forget (mput d i c))) (mput d i c, e, pl', h')"
  using assms(4) built_put [OF assms(1,2)] mput_facts(4) [OF assms(2), of c] assms(3)
  by (cases e) (auto simp: copy_outcome_def)

lemma outcome_then:
  assumes "built R h d h1" and "pool_step pl pl1 m"
    and "copy_outcome P R pl1 h1 n pure r"
  shows "copy_outcome P R pl h (m + n) pure r"
proof (cases r)
  case (fields d' e pl' h')
  have "built R h1 d' h'" using assms(3) by (simp add: copy_outcome_def fields)
  from built_then [OF assms(1) this] show ?thesis
    using assms by (auto simp: copy_outcome_def pool_step_def copy_refused_def fields built_def split: option.splits)
qed

lemma outcome_fail:
  "built R h d h' \<Longrightarrow> pools d \<subseteq> P \<Longrightarrow> pure = Inl e \<or> grants h \<noteq> [] \<and> e = ''out of memory'' \<Longrightarrow>
     copy_outcome P R pl h n pure (d, Some e, pl, h')"
  by (auto simp: copy_outcome_def pool_step_def copy_refused_def)

lemma outcome_failed:
  "copy_outcome P R pl h m pure (d, Some e, pl', h') \<Longrightarrow> m \<le> n \<Longrightarrow> (\<And>x. pure = Inl x \<Longrightarrow> pure' = Inl x) \<Longrightarrow>
     copy_outcome P R pl h n pure' (d, Some e, pl', h')"
  by (auto simp: copy_outcome_def pool_step_def copy_refused_def)

lemma bail_ok: "copy_outcome P R pl h n pure r \<Longrightarrow> copy_outcome P R pl h n pure (bail r)"
proof (cases r)
  case (fields d e pl' h')
  assume o: "copy_outcome P R pl h n pure r"
  show ?thesis
  proof (cases e)
    case (Some reason)
    from o have b: "built R h d h'" by (simp add: copy_outcome_def fields)
    then have "freed R h' (mfree d h')" by (intro mfree_ok) (simp add: built_def)
    with b have "built R h MZERO (mfree d h')"
      by (auto simp: built_def freed_def owns_def intro: keeps_blocks_trans)
    with o Some show ?thesis by (simp add: copy_outcome_def fields bail_def)
  qed (use o in \<open>simp add: bail_def fields\<close>)
qed

lemma owns_table: "owns R h d \<Longrightarrow> mtype d = TOML_TABLE \<Longrightarrow> \<exists>f k l v kvs. d = MTable f k l v kvs"
  by (cases d) (auto simp: owns_def)

lemma owns_array: "owns R h d \<Longrightarrow> mtype d = TOML_ARRAY \<Longrightarrow> \<exists>f p xs. d = MArray f p xs"
  by (cases d) (auto simp: owns_def)

lemma table_place:
  assumes "owns R h dst" and "mtype dst = TOML_TABLE" and "pools dst \<subseteq> P" and "fst s \<in> P" and "P \<subseteq> set_mset R"
    and "mtab_emplace dst s h = (dst1, res, h1)"
  shows "built R h dst1 h1" "pools dst1 \<subseteq> P" "mtype dst1 = TOML_TABLE"
    "agrees (grants h \<noteq> []) (tab_emplace (forget dst) (snd s)) dst dst1 res"
    "heap_ok h1" "keeps_blocks R h h1" "owns R h1 dst1"
proof -
  obtain f k l v kvs where dst: "dst = MTable f k l v kvs" using owns_table [OF assms(1,2)] by blast
  have "insert (fst s) (pools dst) \<subseteq> set_mset R" using assms(3-5) by auto
  note m = mtab_emplace_ok [OF assms(1) [unfolded dst] this [unfolded dst] assms(6) [unfolded dst], folded dst]
  then show "built R h dst1 h1" by simp
  then show "heap_ok h1" "keeps_blocks R h h1" "owns R h1 dst1" by (auto simp: built_def owns_def)
  show "mtype dst1 = TOML_TABLE" "agrees (grants h \<noteq> []) (tab_emplace (forget dst) (snd s)) dst dst1 res"
    using m by simp_all
  show "pools dst1 \<subseteq> P" using m assms(3,4) by auto
qed

lemma array_place:
  assumes "owns R h dst" and "mtype dst = TOML_ARRAY" and "pools dst \<subseteq> P"
    and "marr_emplace dst h = (dst1, res, h1)"
  shows "built R h dst1 h1" "pools dst1 \<subseteq> P" "mtype dst1 = TOML_ARRAY"
    "agrees (grants h \<noteq> []) (arr_emplace (forget dst)) dst dst1 res"
    "heap_ok h1" "keeps_blocks R h h1" "owns R h1 dst1"
proof -
  obtain f p xs where dst: "dst = MArray f p xs" using owns_array [OF assms(1,2)] by blast
  note m = marr_emplace_ok [OF assms(1) [unfolded dst] assms(4) [unfolded dst], folded dst]
  then show "built R h dst1 h1" by simp
  then show "heap_ok h1" "keeps_blocks R h h1" "owns R h1 dst1" by (auto simp: built_def owns_def)
  show "mtype dst1 = TOML_ARRAY" "agrees (grants h \<noteq> []) (arr_emplace (forget dst)) dst dst1 res"
    using m by simp_all
  show "pools dst1 \<subseteq> P" using m assms(3) by simp
qed

text \<open>What a child leaves behind in its place.\<close>

lemma outcome_place:
  assumes "built R h d h1" and "j < msize d" and "pools d \<subseteq> P"
    and "copy_outcome P (mrest d j + R) pl h1 n pure (c, e, pl', h')"
  shows "copy_outcome P R pl h n (case pure of Inl x \<Rightarrow> Inl x | Inr y \<Rightarrow> Inr (forget (mput d j c))) (mput d j c, e, pl', h')"
    "e = None \<Longrightarrow> pure = Inr (forget c)" "built R h (mput d j c) h'" "pools (mput d j c) \<subseteq> P" "pool_step pl pl' n"
    "keeps_blocks R h h'" "owns R h' (mput d j c)"
proof -
  have "owns R h1 d" using assms(1) by (simp add: built_def)
  note o = outcome_then [OF assms(1) _ outcome_child [OF this assms(2-4)], of pl 0]
  then show *: "copy_outcome P R pl h n (case pure of Inl x \<Rightarrow> Inl x | Inr y \<Rightarrow> Inr (forget (mput d j c))) (mput d j c, e, pl', h')"
    by (simp add: pool_step_def)
  show "e = None \<Longrightarrow> pure = Inr (forget c)" using assms(4) by (simp add: copy_outcome_def)
  show "built R h (mput d j c) h'" "pools (mput d j c) \<subseteq> P" "pool_step pl pl' n"
    using * by (simp_all add: copy_outcome_def)
  then show "keeps_blocks R h h'" "owns R h' (mput d j c)" by (simp_all add: built_def)
qed

section \<open>The loop over the entries of a table\<close>

abbreviation plain_entries :: "(span \<times> mdatum) list \<Rightarrow> (string \<times> datum) list" where
  "plain_entries kvs \<equiv> map (\<lambda>(s, d). (snd s, forget d)) kvs"

text \<open>
  Copy and merge run the same loop and differ in what they do with an entry: \<open>g\<close>, given the
  access to the source entry, the value that was there and the source entry; \<open>pg\<close> on values.
\<close>

type_synonym child = "(heap \<Rightarrow> heap) \<Rightarrow> mdatum \<Rightarrow> mdatum \<Rightarrow> mpool \<Rightarrow> heap \<Rightarrow> build"

fun entry_loop :: "child \<Rightarrow> ptr \<Rightarrow> ptr \<Rightarrow> ptr \<Rightarrow> nat \<Rightarrow> mdatum \<Rightarrow> (span \<times> mdatum) list \<Rightarrow> mpool \<Rightarrow> heap \<Rightarrow> build" where
  "entry_loop g k l v i dst [] pl h = (dst, None, pl, h)"
| "entry_loop g k l v i dst ((s, d) # kvs) pl h =
     (case mtab_emplace dst s (touch l (SIZEOF_INT * (i + 1)) (touch k (SIZEOF_PTR * (i + 1)) h)) of
        (dst1, Inl reason, h1) \<Rightarrow> (dst1, Some reason, pl, h1)
      | (dst1, Inr j, h1) \<Rightarrow>
          (case g (touch v (SIZEOF_DATUM * (i + 1))) (mvalue dst1 j) d pl h1 of
             (c, Some reason, pl2, h2) \<Rightarrow> (mput dst1 j c, Some reason, pl2, h2)
           | (c, None, pl2, h2) \<Rightarrow> entry_loop g k l v (i + 1) (mput dst1 j c) kvs pl2 h2))"

fun plain_loop :: "(datum \<Rightarrow> datum \<Rightarrow> string + datum) \<Rightarrow> datum \<Rightarrow> (string \<times> datum) list \<Rightarrow> string + datum" where
  "plain_loop pg dst [] = Inr dst"
| "plain_loop pg dst ((k, v) # kvs) =
     (case tab_emplace dst k of
        Inl reason \<Rightarrow> Inl reason
      | Inr (dst', i) \<Rightarrow>
          (case pg (tab_value dst' i) v of
             Inl reason \<Rightarrow> Inl reason
           | Inr c \<Rightarrow> plain_loop pg (tab_set dst' i c) kvs))"

text \<open>What the loop needs of an entry; with \<open>fresh\<close>, only when nothing was there before.\<close>

definition child_ok :: "bool \<Rightarrow> ptr set \<Rightarrow> child \<Rightarrow> (datum \<Rightarrow> datum \<Rightarrow> string + datum) \<Rightarrow> mdatum \<Rightarrow> bool" where
  "child_ok fresh P g pg d \<longleftrightarrow>
     (\<forall>R h pl old t. owns R h old \<longrightarrow> pools old \<subseteq> P \<longrightarrow> msource P R h d \<longrightarrow> pl_ptr pl \<in> P \<longrightarrow> P \<subseteq> set_mset R \<longrightarrow>
        t h = h \<longrightarrow> (fresh \<longrightarrow> forget old = DATUM_ZERO) \<longrightarrow>
        copy_outcome P R pl h (mcost d) (pg (forget old) (forget d)) (g t old d pl h))"

lemma child_okD:
  "child_ok fresh P g pg d \<Longrightarrow> owns R h old \<Longrightarrow> pools old \<subseteq> P \<Longrightarrow> msource P R h d \<Longrightarrow> pl_ptr pl \<in> P \<Longrightarrow> P \<subseteq> set_mset R \<Longrightarrow>
     t h = h \<Longrightarrow> (fresh \<Longrightarrow> forget old = DATUM_ZERO) \<Longrightarrow>
     copy_outcome P R pl h (mcost d) (pg (forget old) (forget d)) (g t old d pl h)"
  by (auto simp: child_ok_def)

text \<open>The blocks of the source table, and its entries from index \<open>i\<close> on.\<close>

definition reading :: "ptr set \<Rightarrow> ptr multiset \<Rightarrow> heap \<Rightarrow> ptr \<Rightarrow> ptr \<Rightarrow> ptr \<Rightarrow> nat \<Rightarrow> (span \<times> mdatum) list \<Rightarrow> bool" where
  "reading P R h k l v i kvs \<longleftrightarrow>
     block_lives R h k (SIZEOF_PTR * (i + length kvs)) \<and> block_lives R h l (SIZEOF_INT * (i + length kvs)) \<and>
     block_lives R h v (SIZEOF_DATUM * (i + length kvs)) \<and> (\<forall>(s, d) \<in> set kvs. fst s \<in> P \<and> msource P R h d)"

lemma reading_touch:
  assumes "heap_ok h" and "reading P R h k l v i ((s, d) # kvs)"
  shows "touch k (SIZEOF_PTR * (i + 1)) h = h" "touch l (SIZEOF_INT * (i + 1)) h = h"
    "touch v (SIZEOF_DATUM * (i + 1)) h = h" "fst s \<in> P" "msource P (S + R) h d"
  using assms lives_touch [OF assms(1), of R _ _ "i + length ((s, d) # kvs)" i] source_more [of P R h d S]
  by (simp_all add: reading_def)

lemma reading_keep:
  "heap_ok h \<Longrightarrow> reading P R h k l v i kvs \<Longrightarrow> keeps_blocks R h h' \<Longrightarrow> reading P R h' k l v i kvs"
  unfolding reading_def using lives_keep source_keep by (fastforce simp: case_prod_unfold)

lemma reading_next: "reading P R h k l v i (kv # kvs) \<Longrightarrow> reading P R h k l v (i + 1) kvs"
  by (simp add: reading_def)

lemma entries_ok:
  assumes "\<forall>(s, d) \<in> set kvs. child_ok fresh P g pg d" and "owns R h dst" and "mtype dst = TOML_TABLE"
    and "pools dst \<subseteq> P" and "reading P R h k l v i kvs"
    and "fresh \<Longrightarrow> distinct (tab_keys (forget dst) @ map (\<lambda>kv. snd (fst kv)) kvs)"
    and "pl_ptr pl \<in> P" and "P \<subseteq> set_mset R"
  shows "copy_outcome P R pl h (sum_list (map (\<lambda>(s, d). mcost d) kvs)) (plain_loop pg (forget dst) (plain_entries kvs))
    (entry_loop g k l v i dst kvs pl h)"
  using assms
proof (induction kvs arbitrary: i dst pl h)
  case Nil
  then show ?case by (simp add: copy_outcome_def built_refl pool_step_def)
next
  case (Cons kv kvs)
  obtain s d where kv: "kv = (s, d)" by (cases kv)
  note prems = Cons.prems [unfolded kv]
  have ok: "heap_ok h" using prems(2) by (simp add: owns_def)
  note t = reading_touch [OF ok prems(5)]
  obtain dst1 res h1 where e: "mtab_emplace dst s h = (dst1, res, h1)" by (metis prod_cases3)
  note em = table_place [OF prems(2-4) t(4) prems(8) e]
  show ?case
  proof (cases res)
    case (Inl reason)
    have eq: "entry_loop g k l v i dst (kv # kvs) pl h = (dst1, Some reason, pl, h1)"
      unfolding kv entry_loop.simps t(1,2) e by (simp add: Inl)
    show ?thesis unfolding eq
      by (rule outcome_fail [OF em(1,2)]) (use em(4) Inl kv in \<open>auto simp: agrees_def simp del: tab_emplace.simps\<close>)
  next
    case (Inr j)
    let ?old = "mvalue dst1 j"
    have j: "tab_emplace (forget dst) (snd s) = Inr (forget dst1, j)" "j < msize dst1"
      using em(4) Inr by (auto simp: agrees_def simp del: tab_emplace.simps)
    note old = owns_child [OF em(7) j(2)] mput_facts(5,8) [OF j(2)]
    note t1 = reading_touch(3,5) [OF em(5) reading_keep [OF ok prems(5) em(6)]]
    have zero: "forget ?old = DATUM_ZERO" "tab_keys (tab_set (forget dst1) j c) = tab_keys (forget dst) @ [snd s]" if fresh for c
      using tab_emplace_new [OF j(1)] prems(6) [OF that] old(3) [OF em(3)] by simp_all
    obtain c e2 pl2 h2 where m: "g (touch v (SIZEOF_DATUM * (i + 1))) ?old d pl h1 = (c, e2, pl2, h2)" by (metis prod_cases4)
    have "copy_outcome P (mrest dst1 j + R) pl h1 (mcost d) (pg (forget ?old) (forget d)) (c, e2, pl2, h2)"
      unfolding m [symmetric]
    proof (rule child_okD [where g = g and pg = pg, OF _ old(1) _ t1(2)])
      show "child_ok fresh P g pg d" "pl_ptr pl \<in> P" using prems(1,7) by simp_all
      show "pools ?old \<subseteq> P" "P \<subseteq> set_mset (mrest dst1 j + R)" using old(2) em(2) prems(8) by auto
      show "touch v (SIZEOF_DATUM * (i + 1)) h1 = h1" "fresh \<Longrightarrow> forget ?old = DATUM_ZERO" by (rule t1(1), rule zero(1))
    qed
    note all = outcome_place [OF em(1) j(2) em(2) this]
    have pure: "pg (forget ?old) (forget d) = pg (tab_value (forget dst1) j) (forget d)" using old(3) [OF em(3)] by simp
    show ?thesis
    proof (cases e2)
      case (Some reason)
      have eq: "entry_loop g k l v i dst (kv # kvs) pl h = (mput dst1 j c, Some reason, pl2, h2)"
        unfolding kv entry_loop.simps t(1,2) e by (simp only: Inr prod.case sum.case m Some option.case)
      show ?thesis unfolding eq
        by (rule outcome_failed [OF all(1) [unfolded Some]])
          (auto simp: kv j(1) pure split: sum.splits simp del: tab_emplace.simps)
    next
      case None
      let ?dst = "mput dst1 j c"
      have eq: "entry_loop g k l v i dst (kv # kvs) pl h = entry_loop g k l v (i + 1) ?dst kvs pl2 h2"
        unfolding kv entry_loop.simps t(1,2) e by (simp only: Inr prod.case sum.case m None option.case)
      have fg: "forget ?dst = tab_set (forget dst1) j (forget c)" by (rule mput_facts(7) [OF j(2) em(3)])
      have "copy_outcome P R pl2 h2 (sum_list (map (\<lambda>(s, d). mcost d) kvs)) (plain_loop pg (forget ?dst) (plain_entries kvs))
          (entry_loop g k l v (i + 1) ?dst kvs pl2 h2)"
        using prems(1,6-8) all(5) zero(2) mput_facts(6) [OF j(2), of c, unfolded fg] em(3)
        by (intro Cons.IH all(4,7) reading_next [OF reading_keep [OF ok prems(5) all(6)]]) (auto simp: fg pool_step_def)
      from outcome_then [OF all(3,5) this] show ?thesis
        unfolding eq using all(2) [OF None] by (simp add: kv j(1) pure fg del: tab_emplace.simps entry_loop.simps)
    qed
  qed
qed

section \<open>Copy\<close>

text \<open>What is to be shown of the copy of a tree, for every heap and frame that it lies in.\<close>

definition copies_well :: "ptr set \<Rightarrow> mdatum \<Rightarrow> bool" where
  "copies_well P d \<longleftrightarrow>
     (\<forall>R h pl. heap_ok h \<longrightarrow> alive h = R \<longrightarrow> msource P R h d \<longrightarrow> pl_ptr pl \<in> P \<longrightarrow> P \<subseteq> set_mset R \<longrightarrow>
        copy_outcome P R pl h (mcost d) (datum_copy (forget d)) (mcopy d pl h))"

lemma copiesD:
  "copies_well P d \<Longrightarrow> heap_ok h \<Longrightarrow> alive h = R \<Longrightarrow> msource P R h d \<Longrightarrow> pl_ptr pl \<in> P \<Longrightarrow> P \<subseteq> set_mset R \<Longrightarrow>
     copy_outcome P R pl h (mcost d) (datum_copy (forget d)) (mcopy d pl h)"
  by (auto simp: copies_well_def)

lemma mcopy_table_loop:
  "mcopy_table k l v i kvs dst pl h = entry_loop (\<lambda>t old d pl h. mcopy d pl (t h)) k l v i dst kvs pl h"
  by (induction kvs arbitrary: i dst pl h) (auto split: prod.split sum.split option.split)

lemma copy_table_loop: "copy_table qs q = plain_loop (\<lambda>old d. datum_copy d) q qs"
  by (induction qs arbitrary: q) (auto split: sum.split simp del: tab_emplace.simps)

lemma copy_child: "copies_well P d \<Longrightarrow> child_ok True P (\<lambda>t old d pl h. mcopy d pl (t h)) (\<lambda>old d. datum_copy d) d"
  unfolding child_ok_def
proof clarify
  fix R h and pl :: mpool and old t
  assume a: "copies_well P d" "owns R h old" "msource P R h d" "pl_ptr pl \<in> P" "P \<subseteq> set_mset R" "t h = h"
    "True \<longrightarrow> forget old = DATUM_ZERO"
  then obtain x where "old = MPlain x" using forget_unknown [of old] by auto
  with a(1-5) show "copy_outcome P R pl h (mcost d) (datum_copy (forget d)) (mcopy d pl (t h))"
    unfolding a(6) by (intro copiesD) (simp_all add: owns_def)
qed

lemma arr_emplace_new: "arr_emplace d = Inr (t, i) \<Longrightarrow> \<exists>f xs. d = DArray f xs \<and> t = DArray f (xs @ [DATUM_ZERO]) \<and> i = length xs"
  by (cases d) (auto split: if_splits)

lemma copy_elements:
  assumes "\<forall>d \<in> set xs. copies_well P d" and "owns R h dst" and "mtype dst = TOML_ARRAY" and "pools dst \<subseteq> P"
    and "block_lives R h p (SIZEOF_DATUM * n)" and "n = i + length xs" and "\<forall>d \<in> set xs. msource P R h d"
    and "pl_ptr pl \<in> P" and "P \<subseteq> set_mset R"
  shows "copy_outcome P R pl h (sum_list (map mcost xs)) (copy_array (map forget xs) (forget dst)) (mcopy_array p i xs dst pl h)"
  using assms
proof (induction xs arbitrary: i dst pl h)
  case Nil
  then show ?case by (simp add: copy_outcome_def built_refl pool_step_def)
next
  case (Cons d xs)
  note prems = Cons.prems
  have ok: "heap_ok h" using prems(2) by (simp add: owns_def)
  obtain dst1 res h1 where e: "marr_emplace dst h = (dst1, res, h1)" by (metis prod_cases3)
  note em = array_place [OF prems(2-4) e]
  note ok1 = em(5-7)
  show ?case
  proof (cases res)
    case (Inl reason)
    have eq: "mcopy_array p i (d # xs) dst pl h = (dst1, Some reason, pl, h1)"
      unfolding mcopy_array.simps e by (simp add: Inl)
    show ?thesis unfolding eq
      by (rule outcome_fail [OF em(1,2)]) (use em(4) Inl in \<open>auto simp: agrees_def simp del: arr_emplace.simps\<close>)
  next
    case (Inr j)
    then have j: "arr_emplace (forget dst) = Inr (forget dst1, j)" "j < msize dst1"
      using em(4) by (auto simp: agrees_def simp del: arr_emplace.simps)
    obtain f' q' zs where dst1: "dst1 = MArray f' q' zs" using owns_array [OF ok1(3) em(3)] by blast
    have "forget (mvalue dst1 j) = DATUM_ZERO"
      using arr_emplace_new [OF j(1)] j(2) by (auto simp: dst1 map_eq_append_conv)
    then obtain x where "mvalue dst1 j = MPlain x" using forget_unknown [of "mvalue dst1 j"] by auto
    then have own: "alive h1 = mrest dst1 j + R"
      using owns_child [OF ok1(3) j(2)] by (simp add: owns_def)
    have t1: "touch p (SIZEOF_DATUM * (i + 1)) h1 = h1"
      using lives_touch [OF ok1(1) lives_keep [OF ok prems(5) ok1(2)]] prems(6) by simp
    have src: "msource P (mrest dst1 j + R) h1 d"
      using prems(7) source_keep [OF ok _ ok1(2)] by (intro source_more) auto
    obtain c e2 pl2 h2 where m: "mcopy d pl h1 = (c, e2, pl2, h2)" by (metis prod_cases4)
    have "copy_outcome P (mrest dst1 j + R) pl h1 (mcost d) (datum_copy (forget d)) (c, e2, pl2, h2)"
      unfolding m [symmetric] using prems(1,8,9) own src by (intro copiesD [OF _ ok1(1)]) auto
    note all = outcome_place [OF em(1) j(2) em(2) this]
    show ?thesis
    proof (cases e2)
      case (Some reason)
      have eq: "mcopy_array p i (d # xs) dst pl h = (mput dst1 j c, Some reason, pl2, h2)"
        unfolding mcopy_array.simps e by (simp only: Inr prod.case sum.case t1 m Some option.case)
      show ?thesis unfolding eq
        by (rule outcome_failed [OF all(1) [unfolded Some]]) (auto simp: j(1) split: sum.splits simp del: arr_emplace.simps)
    next
      case None
      let ?dst = "mput dst1 j c"
      have eq: "mcopy_array p i (d # xs) dst pl h = mcopy_array p (i + 1) xs ?dst pl2 h2"
        unfolding mcopy_array.simps e by (simp only: Inr prod.case sum.case t1 m None option.case)
      note c = all(2) [OF None]
      note b = all(3-5) and ok2 = all(6,7)
      have fg: "forget ?dst = arr_set (forget dst1) j (forget c)" by (rule mput_facts(9) [OF j(2) em(3)])
      have "copy_outcome P R pl2 h2 (sum_list (map mcost xs)) (copy_array (map forget xs) (forget ?dst))
          (mcopy_array p (i + 1) xs ?dst pl2 h2)"
      proof (rule Cons.IH)
        show "\<forall>d \<in> set xs. msource P R h2 d" using prems(7) source_keep [OF ok _ ok2(1)] by auto
        show "pl_ptr pl2 \<in> P" using b(3) prems(8) by (simp add: pool_step_def)
      qed (use prems ok2 b(2) lives_keep [OF ok _ ok2(1)] mput_facts(6) [OF j(2)] em(3) in auto)
      from outcome_then [OF b(1,3) this] show ?thesis
        unfolding eq by (simp add: j(1) c fg del: arr_emplace.simps mcopy_array.simps)
    qed
  qed
qed

lemma mempty_owned [simp]: "owned (MTable 0 0 0 0 []) = {#}" "owned (MArray 0 0 []) = {#}"
  by simp_all

lemma mcopy_ok: "copies_well P d"
proof (induction d)
  case (MPlain d)
  have "datum_copy d = Inr d" if "roomy h (MPlain d)" for h using that by (cases d) auto
  then show ?case
    by (auto simp: copies_well_def copy_outcome_def pool_step_def msource_def built_def owns_def)
next
  case (MString f s)
  show ?case unfolding copies_well_def
  proof (clarify)
    fix h and pl :: mpool
    assume a: "heap_ok h" "msource P (alive h) h (MString f s)" "pl_ptr pl \<in> P" "P \<subseteq> set_mset (alive h)"
    have t: "read_span s h = h" "read_span (pl_ptr pl, snd s) h = h"
      using a by (auto simp: msource_def intro!: read_span_ok)
    show "copy_outcome P (alive h) pl h (mcost (MString f s)) (datum_copy (forget (MString f s))) (mcopy (MString f s) pl h)"
      using a by (cases "pl_max pl < pl_top pl + (length (snd s) + 1)")
        (auto simp: mpool_alloc_def copy_outcome_def pool_step_def copy_refused_def t built_def owns_def)
  qed
next
  case (MArray f p xs)
  show ?case unfolding copies_well_def
  proof (clarify)
    fix h and pl :: mpool
    assume a: "heap_ok h" "msource P (alive h) h (MArray f p xs)" "pl_ptr pl \<in> P" "P \<subseteq> set_mset (alive h)"
    note s = source_array [OF a(1,2)]
    have "copy_outcome P (alive h) pl h (sum_list (map mcost xs)) (copy_array (map forget xs) (forget (MArray 0 0 [])))
        (mcopy_array p 0 xs (MArray 0 0 []) pl h)"
      by (rule copy_elements [OF _ _ _ _ s(1) _ s(2)]) (use a MArray in \<open>auto simp: owns_def\<close>)
    from bail_ok [OF this] show "copy_outcome P (alive h) pl h (mcost (MArray f p xs)) (datum_copy (forget (MArray f p xs)))
        (mcopy (MArray f p xs) pl h)" by simp
  qed
next
  case (MTable f k l v kvs)
  show ?case unfolding copies_well_def
  proof (clarify)
    fix h and pl :: mpool
    assume a: "heap_ok h" "msource P (alive h) h (MTable f k l v kvs)" "pl_ptr pl \<in> P" "P \<subseteq> set_mset (alive h)"
    have "copy_outcome P (alive h) pl h (sum_list (map (\<lambda>(s, d). mcost d) kvs))
        (copy_table (plain_entries kvs) (forget (MTable 0 0 0 0 []))) (mcopy_table k l v 0 kvs (MTable 0 0 0 0 []) pl h)"
      unfolding mcopy_table_loop copy_table_loop
      by (rule entries_ok [where fresh = True]) (use a source_table [OF a(1,2)] MTable copy_child in \<open>auto simp: owns_def reading_def\<close>)
    from bail_ok [OF this] show "copy_outcome P (alive h) pl h (mcost (MTable f k l v kvs))
        (datum_copy (forget (MTable f k l v kvs))) (mcopy (MTable f k l v kvs) pl h)" by simp
  qed
qed

section \<open>Merge\<close>

definition merges_well :: "ptr set \<Rightarrow> mdatum \<Rightarrow> bool" where
  "merges_well P d \<longleftrightarrow>
     (\<forall>R h pl dst. owns R h dst \<longrightarrow> pools dst \<subseteq> P \<longrightarrow> msource P R h d \<longrightarrow> pl_ptr pl \<in> P \<longrightarrow> P \<subseteq> set_mset R \<longrightarrow>
        copy_outcome P R pl h (mcost d) (datum_merge (forget dst) (forget d)) (mmerge dst d pl h))"

lemma mergesD:
  "merges_well P d \<Longrightarrow> owns R h dst \<Longrightarrow> pools dst \<subseteq> P \<Longrightarrow> msource P R h d \<Longrightarrow> pl_ptr pl \<in> P \<Longrightarrow> P \<subseteq> set_mset R \<Longrightarrow>
     copy_outcome P R pl h (mcost d) (datum_merge (forget dst) (forget d)) (mmerge dst d pl h)"
  by (auto simp: merges_well_def)

text \<open>Overriding: free what is there, then copy.\<close>

lemma override_ok:
  assumes "owns R h dst" and "msource P R h d" and "pl_ptr pl \<in> P" and "P \<subseteq> set_mset R"
  shows "copy_outcome P R pl h (mcost d) (datum_copy (forget d)) (mcopy d pl (mfree dst h))"
proof -
  have f: "freed R h (mfree dst h)" by (rule mfree_ok(1) [OF assms(1)])
  then have b: "built R h MZERO (mfree dst h)" by (simp add: freed_def built_def owns_def)
  have "copy_outcome P R pl (mfree dst h) (mcost d) (datum_copy (forget d)) (mcopy d pl (mfree dst h))"
    using f assms source_keep [of h P R d "mfree dst h"]
    by (intro copiesD [OF mcopy_ok]) (auto simp: freed_def owns_def)
  from outcome_then [OF b _ this, of pl 0] show ?thesis by (simp add: pool_step_def)
qed

text \<open>An entry that is merged: override what has no type, merge into the rest.\<close>

abbreviation merge_child :: child where
  "merge_child t old d pl h \<equiv>
     (if mtype old \<noteq> TOML_UNKNOWN then mmerge old d pl (t h) else mcopy d pl (t (mfree old h)))"

abbreviation plain_child :: "datum \<Rightarrow> datum \<Rightarrow> string + datum" where
  "plain_child old d \<equiv> (if dtype old \<noteq> TOML_UNKNOWN then datum_merge old d else datum_copy d)"

lemma mmerge_table_loop: "mmerge_table k l v i dst kvs pl h = entry_loop merge_child k l v i dst kvs pl h"
  by (induction kvs arbitrary: i dst pl h) (auto split: prod.split sum.split option.split)

lemma merge_table_loop: "merge_table q qs = plain_loop plain_child q qs"
  by (induction qs arbitrary: q) (auto split: sum.split simp del: tab_emplace.simps)

lemma merge_child_ok: "merges_well P d \<Longrightarrow> child_ok False P merge_child plain_child d"
  unfolding child_ok_def
proof clarify
  fix R h and pl :: mpool and old t
  assume a: "merges_well P d" "owns R h old" "pools old \<subseteq> P" "msource P R h d" "pl_ptr pl \<in> P" "P \<subseteq> set_mset R" "t h = h"
  show "copy_outcome P R pl h (mcost d) (plain_child (forget old) (forget d)) (merge_child t old d pl h)"
  proof (cases "mtype old = TOML_UNKNOWN")
    case True
    then obtain x where "old = MPlain x" using forget_unknown by blast
    with True a(7) override_ok [OF a(2,4-6)] show ?thesis by simp
  next
    case False
    with a(7) mergesD [OF a(1-6)] show ?thesis by simp
  qed
qed

lemma mmerge_ok: "merges_well P d"
proof (induction d)
  case (MPlain d)
  have "datum_merge x d = datum_copy d" if "roomy h (MPlain d)" for h x using that by (cases d) auto
  moreover have "mmerge dst (MPlain d) pl h = mcopy (MPlain d) pl (mfree dst h)" for dst pl h by simp
  ultimately show ?case
    unfolding merges_well_def using override_ok [of _ _ _ P "MPlain d"] by (auto simp: msource_def simp del: mcopy.simps)
next
  case (MString f s)
  show ?case
    unfolding merges_well_def using override_ok [of _ _ _ P "MString f s"] by (auto simp del: mcopy.simps)
next
  case (MArray f p xs)
  show ?case unfolding merges_well_def
  proof (clarify)
    fix R h dst and pl :: mpool
    assume a: "owns R h dst" "pools dst \<subseteq> P" "msource P R h (MArray f p xs)" "pl_ptr pl \<in> P" "P \<subseteq> set_mset R"
    then have ok: "heap_ok h" by (simp add: owns_def)
    note s = source_array [OF ok a(3)]
    show "copy_outcome P R pl h (mcost (MArray f p xs)) (datum_merge (forget dst) (forget (MArray f p xs)))
        (mmerge dst (MArray f p xs) pl h)"
    proof (cases "mtype dst = TOML_ARRAY \<and> is_array_of_tables (forget (MArray f p xs))")
      case True
      have "copy_outcome P R pl h (sum_list (map mcost xs)) (copy_array (map forget xs) (forget dst)) (mcopy_array p 0 xs dst pl h)"
        by (rule copy_elements [OF _ a(1) _ a(2) s(1) _ s(2) a(4,5)]) (use True mcopy_ok in auto)
      with True show ?thesis by simp
    next
      case False
      with override_ok [OF a(1,3-5)] show ?thesis by (auto simp del: mcopy.simps datum_copy.simps)
    qed
  qed
next
  case (MTable f k l v kvs)
  show ?case unfolding merges_well_def
  proof (clarify)
    fix R h dst and pl :: mpool
    assume a: "owns R h dst" "pools dst \<subseteq> P" "msource P R h (MTable f k l v kvs)" "pl_ptr pl \<in> P" "P \<subseteq> set_mset R"
    then have ok: "heap_ok h" by (simp add: owns_def)
    note s = source_table [OF ok a(3)]
    show "copy_outcome P R pl h (mcost (MTable f k l v kvs)) (datum_merge (forget dst) (forget (MTable f k l v kvs)))
        (mmerge dst (MTable f k l v kvs) pl h)"
    proof (cases "mtype dst = TOML_TABLE")
      case True
      have "copy_outcome P R pl h (sum_list (map (\<lambda>(s, d). mcost d) kvs)) (merge_table (forget dst) (plain_entries kvs))
          (mmerge_table k l v 0 dst kvs pl h)"
        unfolding mmerge_table_loop merge_table_loop
        by (rule entries_ok [OF _ a(1) True a(2) _ _ a(4,5), where fresh = False])
          (use s MTable merge_child_ok in \<open>auto simp: reading_def\<close>)
      with True show ?thesis by simp
    next
      case False
      with override_ok [OF a(1,3-5)] show ?thesis by (auto simp del: mcopy.simps datum_copy.simps)
    qed
  qed
qed

end
