(* ===== verification/Toml_Lifetime.thy ===== *)
theory Toml_Lifetime
  imports Toml_Copying
begin

text \<open>
  The life of a merged document: \<open>toml_merge\<close> leaves the heap with the blocks of its result
  and nothing else, \<open>toml_free\<close> gives them back, and the keys of the result lie in the pools
  of the documents that it was merged from.
\<close>

section \<open>Results in memory\<close>

definition blocks_of :: "mresult \<Rightarrow> ptr multiset" where
  "blocks_of r =
     owned (mr_toptab r) + (case mr_pool r of None \<Rightarrow> {#} | Some pl \<Rightarrow> one_block (pl_ptr pl))"

text \<open>A result that can be read: its blocks and the pools of its keys and strings are alive.\<close>

definition usable :: "heap \<Rightarrow> mresult \<Rightarrow> bool" where
  "usable h r \<longleftrightarrow>
     mr_ok r \<and> mr_pool r \<noteq> None \<and> roomy h (mr_toptab r) \<and> wf_datum (forget (mr_toptab r)) \<and>
     pools (mr_toptab r) \<union> set_mset (blocks_of r) \<subseteq> set_mset (alive h)"

definition mdoc :: "mresult \<Rightarrow> string + datum" where
  "mdoc r = (if mr_ok r then Inr (forget (mr_toptab r)) else Inl (mr_errmsg r))"

text \<open>The new pool has room for the strings of both.\<close>

definition room_for_both :: "mresult \<Rightarrow> mresult \<Rightarrow> bool" where
  "room_for_both r1 r2 \<longleftrightarrow>
     mcost (mr_toptab r1) + mcost (mr_toptab r2) \<le> (if pool_used r1 + pool_used r2 = 0 then 100 else pool_used r1 + pool_used r2)"

lemma mtoml_free_ok:
  assumes "heap_ok h" and "alive h = blocks_of r + R" and "roomy h (mr_toptab r)"
  shows "freed R h (mtoml_free r h)"
proof -
  let ?p = "case mr_pool r of None \<Rightarrow> 0 | Some pl \<Rightarrow> pl_ptr pl"
  have p: "blocks_of r = owned (mr_toptab r) + one_block ?p" by (simp add: blocks_of_def split: option.splits)
  have f: "freed (one_block ?p + R) h (mfree (mr_toptab r) h)"
    by (rule mfree_ok(1)) (use assms p in \<open>simp add: owns_def\<close>)
  have "freed R (mfree (mr_toptab r) h) (mem_free ?p (mfree (mr_toptab r) h))"
    by (rule freed_block) (use f in \<open>simp_all add: freed_def\<close>)
  from freed_then [OF f this] show ?thesis by (simp add: mtoml_free_def mpool_destroy_def)
qed

text \<open>A new pool.\<close>

lemma mpool_create_ok:
  assumes "heap_ok h" and "mpool_create (int n) h = (opl, h')"
  shows "heap_ok h'" "keeps_blocks (alive h) h h'" "grants h = [] \<Longrightarrow> opl \<noteq> None \<and> grants h' = []"
    "opl = None \<Longrightarrow> alive h' = alive h"
    "opl = Some pl \<Longrightarrow> alive h' = {#pl_ptr pl#} + alive h \<and> pl_ptr pl \<noteq> 0 \<and> pl_top pl = 0 \<and>
       pl_max pl = (if n = 0 then 100 else n)"
proof -
  obtain p h1 where m: "mem_realloc 0 (SIZEOF_POOL + (if n = 0 then 100 else n)) h = (p, h1)"
    by (cases "mem_realloc 0 (SIZEOF_POOL + (if n = 0 then 100 else n)) h")
  note r = mem_realloc_ok [OF assms(1) _ m, of "alive h"]
  have eq: "h' = h1" "opl = (if p = 0 then None else Some \<lparr>pl_ptr = p, pl_top = 0, pl_max = if n = 0 then 100 else n\<rparr>)"
    using assms(2) m by (auto simp: mpool_create_def mem_alloc_def split: if_splits)
  show "heap_ok h'" "keeps_blocks (alive h) h h'" "grants h = [] \<Longrightarrow> opl \<noteq> None \<and> grants h' = []"
    "opl = None \<Longrightarrow> alive h' = alive h"
    "opl = Some pl \<Longrightarrow> alive h' = {#pl_ptr pl#} + alive h \<and> pl_ptr pl \<noteq> 0 \<and> pl_top pl = 0 \<and>
       pl_max pl = (if n = 0 then 100 else n)"
    using r by (auto simp: eq split: if_splits)
qed

section \<open>A merged tree is well-formed\<close>

lemma wf_copied: "wf_datum d \<Longrightarrow> wf_datum (copied d)"
  by (induction d rule: wf_datum.induct) (auto simp: case_prod_unfold comp_def)

lemma wf_copy: "wf_datum d \<Longrightarrow> datum_copy d = Inr c \<Longrightarrow> wf_datum c"
  using copy_total(1) wf_copied by auto

lemma wf_emplace:
  assumes "wf_datum (DTable f ds)" and "tab_emplace (DTable f ds) k = Inr (t, i)"
  shows "wf_datum (tab_value t i)" "wf_datum c \<Longrightarrow> \<exists>es. tab_set t i c = DTable f es \<and> wf_datum (DTable f es)"
proof -
  have "wf_datum (tab_value t i) \<and> (wf_datum c \<longrightarrow> (\<exists>es. tab_set t i c = DTable f es \<and> wf_datum (DTable f es)))"
  proof (cases "find_slot (\<lambda>kv. fst kv = k) ds")
    case None
    then have "map_of ds k = None" by (simp add: find_slot_map_of)
    then have "k \<notin> fst ` set ds" by (simp add: map_of_eq_None_iff)
    with assms None show ?thesis
      by (auto simp: nth_append list_update_append DATUM_ZERO_def split: if_splits)
  next
    case (Some j)
    with find_slot_SomeD [OF Some] assms show ?thesis
      by (auto simp: map_update list_update_same_conv distinct_list_update dest!: set_update_subset_insert [THEN subsetD])
  qed
  then show "wf_datum (tab_value t i)" "wf_datum c \<Longrightarrow> \<exists>es. tab_set t i c = DTable f es \<and> wf_datum (DTable f es)"
    by auto
qed

lemma wf_copy_array:
  "wf_datum (DArray f ys) \<Longrightarrow> \<forall>x \<in> set xs. wf_datum x \<Longrightarrow> copy_array xs (DArray f ys) = Inr t \<Longrightarrow> wf_datum t"
proof (induction xs arbitrary: ys)
  case (Cons x xs)
  then obtain c where "datum_copy x = Inr c" "length ys < ARRAY_MAX" "copy_array xs (DArray f (ys @ [c])) = Inr t"
    by (auto simp: list_update_append split: sum.splits if_splits)
  with Cons wf_copy [of x c] show ?case by (auto intro!: Cons.IH [of "ys @ [c]"])
qed auto

lemma wf_merge:
  "wf_datum dst \<Longrightarrow> wf_datum src \<Longrightarrow> datum_merge dst src = Inr t \<Longrightarrow> wf_datum t"
  "wf_datum dst \<Longrightarrow> dtype dst = TOML_TABLE \<Longrightarrow> \<forall>kv \<in> set kvs. wf_datum (snd kv) \<Longrightarrow> merge_table dst kvs = Inr t \<Longrightarrow> wf_datum t"
proof (induction dst src and dst kvs arbitrary: t and t rule: datum_merge_merge_table.induct)
  case (1 dst f kvs)
  then show ?case using wf_copy [of "DTable f kvs" t] by (auto split: if_splits simp del: datum_copy.simps)
next
  case (2 dst f xs)
  then show ?case
    using wf_copy [of "DArray f xs" t] wf_copy_array [of _ _ xs t]
    by (cases dst) (auto split: if_splits simp del: datum_copy.simps)
next
  case (5 dst k v kvs)
  obtain f ds where dst: "dst = DTable f ds" using 5(4) by (auto simp: dtype_table)
  obtain t' i where e: "tab_emplace dst k = Inr (t', i)"
    using 5(6) by (cases "tab_emplace dst k") (auto simp del: tab_emplace.simps)
  note w = wf_emplace [OF 5(3) [unfolded dst] e [unfolded dst]]
  obtain c where c: "(if dtype (tab_value t' i) \<noteq> TOML_UNKNOWN then datum_merge (tab_value t' i) v else datum_copy v) = Inr c"
    and m: "merge_table (tab_set t' i c) kvs = Inr t"
    using 5(6) e by (auto simp del: tab_emplace.simps split: sum.splits)
  have "wf_datum c"
    using c 5(1) [OF e refl] w(1) 5(5) wf_copy [of v c] by (auto split: if_splits)
  with w(2) obtain es where "tab_set t' i c = DTable f es" "wf_datum (DTable f es)" by blast
  then show ?case using 5(2) [OF e refl c, of t] m 5(5) by simp
qed (use wf_copy in auto)

section \<open>Merge\<close>

text \<open>A failed merge has destroyed the pool, and its table still owns its blocks.\<close>

lemma failed_merge:
  assumes "built ({#pl_ptr pl#} + R) h t h2" and "pl_ptr pl \<noteq> 0"
  shows "heap_ok (mpool_destroy (Some pl) h2) \<and> alive (mpool_destroy (Some pl) h2) = blocks_of (failed_result t e) + R \<and>
    keeps_blocks R h (mpool_destroy (Some pl) h2) \<and> roomy (mpool_destroy (Some pl) h2) t"
proof -
  have b: "heap_ok h2" "alive h2 = one_block (pl_ptr pl) + (owned t + R)" "roomy h2 t" "keeps_blocks ({#pl_ptr pl#} + R) h h2"
    using assms by (auto simp: built_def owns_def ac_simps)
  note f = freed_block [OF b(1,2), unfolded freed_def]
  have "keeps_blocks R h h2" by (rule keeps_blocks_sub [OF b(4)]) auto
  moreover have "keeps_blocks R h2 (mem_free (pl_ptr pl) h2)" by (rule keeps_blocks_sub [of "owned t + R"]) (use f in auto)
  moreover have "roomy (mem_free (pl_ptr pl) h2) t"
    by (rule roomy_keep [OF b(1,3), of "owned t + R"]) (use f in auto)
  ultimately show ?thesis
    using f by (auto simp: mpool_destroy_def blocks_of_def failed_result_def intro: keeps_blocks_trans)
qed

definition merged :: "mresult \<Rightarrow> mresult \<Rightarrow> heap \<Rightarrow> mresult \<times> heap \<Rightarrow> bool" where
  "merged r1 r2 h res \<longleftrightarrow>
     (case res of (r, h') \<Rightarrow>
        heap_ok h' \<and> alive h' = blocks_of r + alive h \<and> keeps_blocks (alive h) h h' \<and> roomy h' (mr_toptab r) \<and>
        (mr_ok r \<longrightarrow> usable h' r \<and> toml_merge (mdoc r1) (mdoc r2) = mdoc r) \<and>
        (\<not> mr_ok r \<longrightarrow>
           (\<exists>e. mdoc r = Inl (snprintf_s ERRMSG_SIZE e) \<and>
              (toml_merge (mdoc r1) (mdoc r2) = Inl e \<or> (grants h \<noteq> [] \<or> \<not> room_for_both r1 r2) \<and> e = ''out of memory''))))"

lemma merged_failure:
  assumes "built ({#pl_ptr pl#} + alive h) h1 t h2" and "pl_ptr pl \<noteq> 0" and "keeps_blocks (alive h) h h1"
    and "toml_merge (mdoc r1) (mdoc r2) = Inl e \<or> (grants h \<noteq> [] \<or> \<not> room_for_both r1 r2) \<and> e = ''out of memory''"
  shows "merged r1 r2 h (failed_result t e, mpool_destroy (Some pl) h2)"
  using failed_merge [OF assms(1,2), of e] assms(3,4)
  by (auto simp: merged_def mdoc_def failed_result_def intro: keeps_blocks_trans)

lemma merged_success:
  assumes "built ({#pl_ptr pl#} + alive h) h1 t h2" and "pl_ptr pl \<noteq> 0" and "keeps_blocks (alive h) h h1"
    and "toml_merge (mdoc r1) (mdoc r2) = Inr (forget t)" and "pools t \<subseteq> insert (pl_ptr pl) (set_mset (alive h))"
    and "wf_datum (forget t)"
  shows "merged r1 r2 h (\<lparr>mr_ok = True, mr_toptab = t, mr_errmsg = [], mr_pool = Some pl\<rparr>, h2)"
proof -
  have b: "heap_ok h2" "alive h2 = owned t + ({#pl_ptr pl#} + alive h)" "roomy h2 t"
    "keeps_blocks ({#pl_ptr pl#} + alive h) h1 h2"
    using assms(1) by (simp_all add: built_def owns_def)
  have "keeps_blocks (alive h) h1 h2" by (rule keeps_blocks_sub [OF b(4)]) auto
  with assms(3) have "keeps_blocks (alive h) h h2" by (rule keeps_blocks_trans)
  with b assms(2,4-6) show ?thesis by (auto simp: merged_def mdoc_def blocks_of_def usable_def)
qed

text \<open>A merge of well-formed documents that succeeds is well-formed.\<close>

lemma wf_documents:
  assumes "usable h r1" and "usable h r2" and "toml_merge (mdoc r1) (mdoc r2) = Inr d"
  shows "wf_datum d"
proof -
  have w: "wf_datum (forget (mr_toptab r1))" "wf_datum (forget (mr_toptab r2))" "mr_ok r1" "mr_ok r2"
    using assms by (simp_all add: usable_def)
  then obtain c where c: "datum_copy (forget (mr_toptab r1)) = Inr c" "datum_merge c (forget (mr_toptab r2)) = Inr d"
    using assms(3) by (auto simp: mdoc_def toml_merge_def split: sum.splits)
  show ?thesis by (rule wf_merge(1) [OF wf_copy [OF w(1) c(1)] w(2) c(2)])
qed

text \<open>From the copy of the first document on: the second is merged into it.\<close>

lemma merge_second:
  fixes r1 r2 :: mresult and t :: mdatum
  assumes "heap_ok h" and "usable h r1" and "usable h r2"
    and c: "mpool_create (int (pool_used r1 + pool_used r2)) h = (Some pl, h1)"
    and m: "mcopy (mr_toptab r1) pl h1 = (t, None, pl2, h2)"
    and copied: "datum_copy (forget (mr_toptab r1)) = Inr (forget t)"
    and b: "built ({#pl_ptr pl#} + alive h) h1 t h2" "pools t \<subseteq> insert (pl_ptr pl) (set_mset (alive h))"
    and pl2: "pl_ptr pl2 = pl_ptr pl"
    and src: "msource (insert (pl_ptr pl) (set_mset (alive h))) ({#pl_ptr pl#} + alive h) h1 (mr_toptab r2)"
    and room: "grants h = [] \<Longrightarrow> room_for_both r1 r2 \<Longrightarrow> \<not> copy_refused pl2 h2 (mcost (mr_toptab r2))"
  shows "merged r1 r2 h (mtoml_merge r1 r2 h)"
proof -
  let ?R = "{#pl_ptr pl#} + alive h" and ?P = "insert (pl_ptr pl) (set_mset (alive h))" and ?t2 = "mr_toptab r2"
  note cr = mpool_create_ok [OF assms(1) c]
  note p = cr(5) [OF refl]
  have ok: "mr_ok r1" "mr_ok r2" using assms(2,3) by (simp_all add: usable_def)
  have b2: "owns ?R h2 t" "keeps_blocks ?R h1 h2" using b(1) by (simp_all add: built_def)
  obtain t' e' pl3 h3 where m': "mmerge t ?t2 pl2 h2 = (t', e', pl3, h3)" by (metis prod_cases4)
  have o': "copy_outcome ?P ?R pl2 h2 (mcost ?t2) (datum_merge (forget t) (forget ?t2)) (t', e', pl3, h3)"
    unfolding m' [symmetric] using p b pl2 source_keep [OF cr(1) src b2(2)] b2 by (intro mergesD [OF mmerge_ok]) auto
  have bb: "built ?R h1 t' h3" "pools t' \<subseteq> ?P" "pl_ptr pl3 = pl_ptr pl"
    using o' b pl2 by (auto simp: copy_outcome_def pool_step_def intro: built_then)
  have pure: "toml_merge (mdoc r1) (mdoc r2) = datum_merge (forget t) (forget ?t2)"
    using ok copied by (simp add: mdoc_def toml_merge_def)
  show ?thesis
  proof (cases e')
    case (Some reason)
    then have eq: "mtoml_merge r1 r2 h = (failed_result t' reason, mpool_destroy (Some pl3) h3)"
      using c ok m m' by (simp add: mtoml_merge_def)
    show ?thesis unfolding eq
      by (rule merged_failure) (use o' Some room bb p cr(2) pure in \<open>auto simp: copy_outcome_def\<close>)
  next
    case None
    then have eq: "mtoml_merge r1 r2 h = (\<lparr>mr_ok = True, mr_toptab = t', mr_errmsg = [], mr_pool = Some pl3\<rparr>, h3)"
      using c ok m m' by (simp add: mtoml_merge_def)
    have d: "toml_merge (mdoc r1) (mdoc r2) = Inr (forget t')" using o' None pure by (simp add: copy_outcome_def)
    show ?thesis unfolding eq
      by (rule merged_success) (use bb p cr(2) d wf_documents [OF assms(2,3) d] in auto)
  qed
qed

lemma mtoml_merge_ok:
  assumes "heap_ok h" and "usable h r1" and "usable h r2"
  shows "merged r1 r2 h (mtoml_merge r1 r2 h)"
proof -
  let ?t1 = "mr_toptab r1" and ?t2 = "mr_toptab r2"
  have ok: "mr_ok r1" "mr_ok r2" using assms by (simp_all add: usable_def)
  then have docs: "mdoc r1 = Inr (forget ?t1)" "mdoc r2 = Inr (forget ?t2)" by (simp_all add: mdoc_def)
  obtain opl h1 where c: "mpool_create (int (pool_used r1 + pool_used r2)) h = (opl, h1)"
    by (cases "mpool_create (int (pool_used r1 + pool_used r2)) h")
  note cr = mpool_create_ok [OF assms(1) c]
  show ?thesis
  proof (cases opl)
    case None
    then have "mtoml_merge r1 r2 h = (failed_result MZERO ''out of memory'', h1)" using c ok by (simp add: mtoml_merge_def)
    with cr None show ?thesis by (auto simp: merged_def failed_result_def blocks_of_def mdoc_def)
  next
    case pl: (Some pl)
    let ?R = "{#pl_ptr pl#} + alive h" and ?P = "insert (pl_ptr pl) (set_mset (alive h))"
    note p = cr(5) [OF pl]
    have src: "msource ?P ?R h1 ?t1" "msource ?P ?R h1 ?t2"
      using assms roomy_keep [OF assms(1) _ _ cr(2), of ?t1] roomy_keep [OF assms(1) _ _ cr(2), of ?t2]
      by (auto simp: usable_def msource_def blocks_of_def)
    obtain t e pl2 h2 where m: "mcopy ?t1 pl h1 = (t, e, pl2, h2)" by (metis prod_cases4)
    have o: "copy_outcome ?P ?R pl h1 (mcost ?t1) (datum_copy (forget ?t1)) (t, e, pl2, h2)"
      unfolding m [symmetric] using cr(1) p src(1) by (intro copiesD [OF mcopy_ok]) auto
    then have b: "built ?R h1 t h2" "pools t \<subseteq> ?P" "pl_ptr pl2 = pl_ptr pl" "pl_max pl2 = pl_max pl" "pl_top pl2 \<le> mcost ?t1"
      "grants h1 = [] \<longrightarrow> grants h2 = []"
      using p by (simp_all add: copy_outcome_def pool_step_def built_def)
    have room: "\<not> copy_refused pl h1 (mcost ?t1)" "\<not> copy_refused pl2 h2 (mcost ?t2)" if "grants h = []" "room_for_both r1 r2"
      using that cr(3) p b(4-6) by (auto simp: copy_refused_def room_for_both_def)
    show ?thesis
    proof (cases e)
      case (Some reason)
      then have eq: "mtoml_merge r1 r2 h = (failed_result t reason, mpool_destroy (Some pl2) h2)"
        using c ok pl m by (simp add: mtoml_merge_def)
      show ?thesis unfolding eq
        by (rule merged_failure) (use o Some room b p cr(2) in \<open>auto simp: copy_outcome_def docs toml_merge_def\<close>)
    next
      case None
      have "datum_copy (forget ?t1) = Inr (forget t)" using o None by (simp add: copy_outcome_def)
      from merge_second [OF assms c [unfolded pl] m [unfolded None] this b(1-3) src(2) room(2)] show ?thesis .
    qed
  qed
qed

section \<open>The keys of a merged document\<close>

fun mkeys :: "mdatum \<Rightarrow> span list" where
  "mkeys (MTable f k l v kvs) = map fst kvs"
| "mkeys d = []"

lemma mkeys_put [simp]: "mkeys (mput d i c) = mkeys d"
  by (cases d; cases "i < length (mkeys d)") (auto simp: map_update list_update_same_conv list_update_beyond)

lemma emplace_keys: "mtab_emplace d key h = (d', res, h') \<Longrightarrow> \<exists>ks. mkeys d' = mkeys d @ ks"
  by (cases d) (auto split: option.splits if_splits prod.splits)

lemma emplace_first:
  "mtab_emplace (MTable f k l v []) key h = (d', Inr i, h') \<Longrightarrow> mkeys d' = [key]"
  by (auto split: if_splits prod.splits)

lemma copy_keys: "mcopy_table k l v i kvs dst pl h = (d', e, pl', h') \<Longrightarrow> \<exists>ks. mkeys d' = mkeys dst @ ks"
proof (induction kvs arbitrary: i dst pl h)
  case (Cons kv kvs)
  obtain s d where kv: "kv = (s, d)" by (cases kv)
  obtain d1 res h1 where e: "mtab_emplace dst s (touch l (SIZEOF_INT * (i + 1)) (touch k (SIZEOF_PTR * (i + 1)) h)) = (d1, res, h1)"
    by (metis prod_cases3)
  obtain ks where ks: "mkeys d1 = mkeys dst @ ks" using emplace_keys [OF e] by blast
  show ?case
  proof (cases res)
    case (Inr j)
    obtain c e2 pl2 h2 where m: "mcopy d pl (touch v (SIZEOF_DATUM * (i + 1)) h1) = (c, e2, pl2, h2)" by (metis prod_cases4)
    show ?thesis
      using Cons.prems [unfolded kv mcopy_table.simps e Inr prod.case sum.case m] Cons.IH [of "i + 1" "mput d1 j c" pl2 h2] ks
      by (cases e2) auto
  qed (use Cons.prems [unfolded kv mcopy_table.simps e] ks in auto)
qed simp

lemma merge_keys: "mmerge_table k l v i dst kvs pl h = (d', e, pl', h') \<Longrightarrow> \<exists>ks. mkeys d' = mkeys dst @ ks"
proof (induction kvs arbitrary: i dst pl h)
  case (Cons kv kvs)
  obtain s d where kv: "kv = (s, d)" by (cases kv)
  obtain d1 res h1 where e: "mtab_emplace dst s (touch l (SIZEOF_INT * (i + 1)) (touch k (SIZEOF_PTR * (i + 1)) h)) = (d1, res, h1)"
    by (metis prod_cases3)
  obtain ks where ks: "mkeys d1 = mkeys dst @ ks" using emplace_keys [OF e] by blast
  show ?case
  proof (cases res)
    case (Inr j)
    obtain c e2 pl2 h2 where m: "(if mtype (mvalue d1 j) \<noteq> TOML_UNKNOWN
        then mmerge (mvalue d1 j) d pl (touch v (SIZEOF_DATUM * (i + 1)) h1)
        else mcopy d pl (touch v (SIZEOF_DATUM * (i + 1)) (mfree (mvalue d1 j) h1))) = (c, e2, pl2, h2)" by (metis prod_cases4)
    show ?thesis
      using Cons.prems [unfolded kv mmerge_table.simps e Inr prod.case sum.case m] Cons.IH [of "i + 1" "mput d1 j c" pl2 h2] ks
      by (cases e2) auto
  qed (use Cons.prems [unfolded kv mmerge_table.simps e] ks in auto)
qed simp

text \<open>The first key of a document that is copied, and then merged into, is the same pointer.\<close>

lemma copy_first_key:
  assumes "mcopy (MTable f k l v ((s, d) # kvs)) pl h = (t, None, pl', h')"
  shows "\<exists>ks. mkeys t = s # ks"
proof -
  obtain d1 res h1 where e: "mtab_emplace (MTable 0 0 0 0 []) s (touch l (SIZEOF_INT * (0 + 1)) (touch k (SIZEOF_PTR * (0 + 1)) h)) = (d1, res, h1)"
    by (metis prod_cases3)
  have b: "mcopy_table k l v 0 ((s, d) # kvs) (MTable 0 0 0 0 []) pl h = (t, None, pl', h')"
    using assms by (auto simp: bail_def simp del: mcopy_table.simps split: prod.splits option.splits)
  show ?thesis
  proof (cases res)
    case (Inl r)
    then show ?thesis using b unfolding mcopy_table.simps e by simp
  next
    case (Inr j)
    have k: "mkeys d1 = [s]" by (rule emplace_first [OF e [unfolded Inr]])
    obtain c e2 pl2 h2 where m: "mcopy d pl (touch v (SIZEOF_DATUM * (0 + 1)) h1) = (c, e2, pl2, h2)" by (metis prod_cases4)
    have "e2 = None \<and> mcopy_table k l v (0 + 1) kvs (mput d1 j c) pl2 h2 = (t, None, pl', h')"
      using b unfolding mcopy_table.simps e Inr prod.case sum.case m by (cases e2) simp_all
    with copy_keys [of k l v "0 + 1" kvs "mput d1 j c" pl2 h2 t None pl' h'] k show ?thesis by auto
  qed
qed

lemma merge_first_key:
  assumes "mtoml_merge r1 r2 h = (r, h')" and "mr_ok r" and "mr_toptab r1 = MTable f k l v ((s, d) # kvs)"
    and "mtype (mr_toptab r2) = TOML_TABLE" and "roomy g (mr_toptab r2)"
  shows "\<exists>f k l v d kvs. mr_toptab r = MTable f k l v ((s, d) # kvs)"
proof -
  obtain pl h1 where c: "mpool_create (int (pool_used r1 + pool_used r2)) h = (Some pl, h1)"
    using assms(1,2) by (auto simp: mtoml_merge_def failed_result_def split: if_splits prod.splits option.splits)
  obtain t pl2 h2 where m: "mcopy (mr_toptab r1) pl h1 = (t, None, pl2, h2)"
    using assms(1,2) c by (auto simp: mtoml_merge_def failed_result_def split: if_splits prod.splits option.splits)
  obtain t' pl3 h3 where m': "mmerge t (mr_toptab r2) pl2 h2 = (t', None, pl3, h3)" and r: "mr_toptab r = t'"
    using assms(1,2) c m by (auto simp: mtoml_merge_def failed_result_def split: if_splits prod.splits option.splits)
  obtain ks where ks: "mkeys t = s # ks" using copy_first_key m assms(3) by metis
  then obtain f1 k1 l1 v1 kvs1 where t: "t = MTable f1 k1 l1 v1 kvs1" by (cases t) auto
  obtain g k' l' v' lws where r2: "mr_toptab r2 = MTable g k' l' v' lws"
    using assms(4,5) by (cases "mr_toptab r2") auto
  have "mmerge_table k' l' v' 0 t lws pl2 h2 = (t', None, pl3, h3)" using m' by (simp add: r2 t)
  from merge_keys [OF this] obtain ks' where "mkeys t' = s # ks'" using ks by auto
  then show ?thesis unfolding r by (cases t') auto
qed

text \<open>What is undefined stays undefined.\<close>

lemma fault_stays [simp]: "fault (mem_fault h)" "fault h \<Longrightarrow> fault (touch p n h)" "fault h \<Longrightarrow> fault (read_span s h)"
  by (auto simp: mem_fault_def touch_def read_span_def split: option.splits)

lemma get_fault_stays: "fault h \<Longrightarrow> fault (snd (mget_loop k v i kvs key h))"
  by (induction kvs arbitrary: i h) (auto simp: Let_def)

lemma get_dead_key:
  assumes "fst s \<notin># alive h"
  shows "fault (snd (mtoml_get (MTable f k l v ((s, d) # kvs)) key h))"
proof -
  have "fault (read_span s (touch k (SIZEOF_PTR * (0 + 1)) h))"
    using assms
    by (auto simp: alive_size size_of_def read_span_def touch_def mem_fault_def split: option.splits)
  then show ?thesis by (simp add: Let_def get_fault_stays)
qed

text \<open>A document that can be read answers as its tree does, and leaves the heap alone.\<close>

lemma mget_loop_ok:
  "heap_ok h \<Longrightarrow> block_holds h k (SIZEOF_PTR * (i + length kvs)) \<Longrightarrow> block_holds h v (SIZEOF_DATUM * (i + length kvs)) \<Longrightarrow>
     \<forall>(s, d) \<in> set kvs. fst s \<in># alive h \<Longrightarrow>
     \<exists>d. mget_loop k v i kvs key h = (d, h) \<and> forget d = get_loop (map (\<lambda>(s, d). (snd s, forget d)) kvs) key"
proof (induction kvs arbitrary: i)
  case (Cons kv kvs)
  obtain s d where kv: "kv = (s, d)" by (cases kv)
  have "touch k (SIZEOF_PTR * (i + 1)) h = h" "touch v (SIZEOF_DATUM * (i + 1)) h = h" "read_span s h = h"
    using Cons.prems kv holds_touch [of h _ "_ * (i + length (kv # kvs))"] by (auto intro!: read_span_ok)
  moreover have "\<exists>d. mget_loop k v (i + 1) kvs key h = (d, h) \<and> forget d = get_loop (map (\<lambda>(s, d). (snd s, forget d)) kvs) key"
    using Cons.prems by (intro Cons.IH) auto
  ultimately show ?case by (simp add: kv Let_def)
qed simp

lemma mtoml_get_ok:
  assumes "heap_ok h" and "usable h r"
  shows "\<exists>d. mtoml_get (mr_toptab r) key h = (d, h) \<and> forget d = toml_get (forget (mr_toptab r)) key"
proof (cases "mr_toptab r")
  case (MTable f k l v kvs)
  have "\<exists>d. mget_loop k v 0 kvs key h = (d, h) \<and> forget d = get_loop (map (\<lambda>(s, d). (snd s, forget d)) kvs) key"
    using assms MTable by (intro mget_loop_ok) (auto simp: usable_def)
  with MTable show ?thesis by simp
next
  case (MPlain d)
  then have "dtype d \<noteq> TOML_TABLE" using assms(2) by (simp add: usable_def)
  with MPlain show ?thesis by simp
qed simp_all

end
