(* ===== verification/Toml_Parse_Heap.thy ===== *)
theory Toml_Parse_Heap
  imports Toml_Lifetime
begin

text \<open>
  The parser of \<open>src/src/lib/tomlc17.c\<close> in memory: the same steps as in \<open>Toml_Parser\<close>, on trees
  with their blocks, with an allocator that may refuse each of them, and with what the code
  frees when a step fails.  Keys and strings lie in the pool of the document.  The pointer
  \<open>curtab\<close> is kept with the block that it pointed into when it was taken, and following it reads
  that block, whatever has become of it.
\<close>

section \<open>The reading side\<close>

record reader =
  rd_scan :: scanner
  rd_pool :: mpool

text \<open>The scanner and the pool as \<open>Toml_Parser\<close> has them.\<close>

definition as_parser :: "reader \<Rightarrow> parser" where
  "as_parser rd =
     \<lparr>scan = rd_scan rd, toptab = DATUM_ZERO, curtab = [], pool_top = pl_top (rd_pool rd),
      pool_max = pl_max (rd_pool rd)\<rparr>"

definition as_reader :: "reader \<Rightarrow> parser \<Rightarrow> reader" where
  "as_reader rd pp = rd\<lparr>rd_scan := scan pp, rd_pool := (rd_pool rd)\<lparr>pl_top := pool_top pp\<rparr>\<rparr>"

abbreviation in_pool :: "reader \<Rightarrow> string \<Rightarrow> span" where
  "in_pool rd s \<equiv> (pl_ptr (rd_pool rd), s)"

text \<open>
  The bytes of the pool up to its fill level are written.  Of a key that fails behind its first
  parts these parts have been written as well, by a \<open>pool_alloc\<close> that had granted them.
\<close>

definition write_pool :: "reader \<Rightarrow> heap \<Rightarrow> heap" where
  "write_pool rd h = touch (pl_ptr (rd_pool rd)) (SIZEOF_POOL + pl_top (rd_pool rd)) h"

definition mparse_norm :: "token \<Rightarrow> reader \<Rightarrow> heap \<Rightarrow> (string + span \<times> reader) \<times> heap" where
  "mparse_norm tok rd h =
     (case parse_norm tok (as_parser rd) of
        Inl e \<Rightarrow> (Inl e, write_pool rd h)
      | Inr (s, pp) \<Rightarrow> (Inr (in_pool rd s, as_reader rd pp), write_pool (as_reader rd pp) h))"

definition mparse_key :: "token \<Rightarrow> reader \<Rightarrow> heap \<Rightarrow> (string + span list \<times> reader) \<times> heap" where
  "mparse_key tok rd h =
     (case parse_key tok (as_parser rd) of
        Inl e \<Rightarrow> (Inl e, write_pool rd h)
      | Inr (keys, pp) \<Rightarrow> (Inr (map (in_pool rd) keys, as_reader rd pp), write_pool (as_reader rd pp) h))"

section \<open>Places in a tree\<close>

fun mat :: "mdatum \<Rightarrow> nat list \<Rightarrow> mdatum" where
  "mat d [] = d"
| "mat d (i # p) = mat (mvalue d i) p"

fun mput_at :: "mdatum \<Rightarrow> nat list \<Rightarrow> mdatum \<Rightarrow> mdatum" where
  "mput_at d [] c = c"
| "mput_at d (i # p) c = (if i < msize d then mput d i (mput_at (mvalue d i) p c) else d)"

text \<open>The block of the entries, the address of a place, and reading an entry.\<close>

fun mblock :: "mdatum \<Rightarrow> ptr" where
  "mblock (MTable f k l v kvs) = v"
| "mblock (MArray f p xs) = p"
| "mblock d = 0"

fun maddr :: "mdatum \<Rightarrow> nat list \<Rightarrow> ptr \<times> nat" where
  "maddr d [] = (0, 0)"
| "maddr d [i] = (mblock d, i)"
| "maddr d (i # j # p) = maddr (mvalue d i) (j # p)"

definition mpeek :: "mdatum \<Rightarrow> nat \<Rightarrow> heap \<Rightarrow> heap" where
  "mpeek d i h = touch (mblock d) (SIZEOF_DATUM * (i + 1)) h"

fun mtab_find :: "mdatum \<Rightarrow> span \<Rightarrow> heap \<Rightarrow> nat option \<times> heap" where
  "mtab_find (MTable f k l v kvs) key h = find_loop k l key 0 kvs h"
| "mtab_find d key h = (None, h)"

fun mset_flag :: "flag \<Rightarrow> mdatum \<Rightarrow> mdatum" where
  "mset_flag g (MPlain d) = MPlain (set_flag g d)"
| "mset_flag g (MString f s) = MString (f OR g) s"
| "mset_flag g (MArray f p xs) = MArray (f OR g) p xs"
| "mset_flag g (MTable f k l v kvs) = MTable (f OR g) k l v kvs"

fun mset_flag_recursive :: "flag \<Rightarrow> mdatum \<Rightarrow> heap \<Rightarrow> mdatum \<times> heap"
and mset_flag_array :: "flag \<Rightarrow> ptr \<Rightarrow> nat \<Rightarrow> mdatum list \<Rightarrow> heap \<Rightarrow> mdatum list \<times> heap"
and mset_flag_table :: "flag \<Rightarrow> ptr \<Rightarrow> nat \<Rightarrow> (span \<times> mdatum) list \<Rightarrow> heap \<Rightarrow> (span \<times> mdatum) list \<times> heap" where
  "mset_flag_recursive g (MArray f p xs) h =
     (case mset_flag_array g p 0 xs h of (ys, h') \<Rightarrow> (MArray (f OR g) p ys, h'))"
| "mset_flag_recursive g (MTable f k l v kvs) h =
     (case mset_flag_table g v 0 kvs h of (lws, h') \<Rightarrow> (MTable (f OR g) k l v lws, h'))"
| "mset_flag_recursive g (MPlain d) h = (mset_flag g (MPlain d), h)"
| "mset_flag_recursive g (MString f s) h = (mset_flag g (MString f s), h)"
| "mset_flag_array g p i [] h = ([], h)"
| "mset_flag_array g p i (d # xs) h =
     (case mset_flag_recursive g d (touch p (SIZEOF_DATUM * (i + 1)) h) of
        (c, h1) \<Rightarrow> (case mset_flag_array g p (i + 1) xs h1 of (ys, h2) \<Rightarrow> (c # ys, h2)))"
| "mset_flag_table g v i [] h = ([], h)"
| "mset_flag_table g v i ((s, d) # kvs) h =
     (case mset_flag_recursive g d (touch v (SIZEOF_DATUM * (i + 1)) h) of
        (c, h1) \<Rightarrow> (case mset_flag_table g v (i + 1) kvs h1 of (lws, h2) \<Rightarrow> ((s, c) # lws, h2)))"

definition mnew_table :: "bool \<Rightarrow> mdatum" where
  "mnew_table stdtabexpr = MTable (if stdtabexpr then FLAG_STDEXPR else 0) 0 0 0 []"

abbreviation mempty_array :: mdatum where
  "mempty_array \<equiv> MArray 0 0 []"

section \<open>Walking down\<close>

text \<open>The tree as the walk leaves it, the error or the place, and the heap.\<close>

type_synonym walk = "mdatum \<times> (string + nat list) \<times> heap"

definition mgo_into :: "mdatum \<Rightarrow> nat list \<Rightarrow> (mdatum \<Rightarrow> heap \<Rightarrow> walk) \<Rightarrow> heap \<Rightarrow> walk" where
  "mgo_into tab path k h =
     (case k (mat tab path) h of (sub, r, h') \<Rightarrow> (mput_at tab path sub, map_sum id ((@) path) r, h'))"

text \<open>Adding a table under a new key, and going on in it.\<close>

definition mgo_new :: "int \<Rightarrow> bool \<Rightarrow> mdatum \<Rightarrow> span \<Rightarrow> (mdatum \<Rightarrow> heap \<Rightarrow> walk) \<Rightarrow> heap \<Rightarrow> walk" where
  "mgo_new ln std tab key k h =
     (case mtab_add tab key (mnew_table std) h of
        (tab', Some reason, h') \<Rightarrow> (tab', Inl (seterror ln reason), h')
      | (tab', None, h') \<Rightarrow> mgo_into tab' [msize tab' - 1] k h')"

fun mdescend :: "int \<Rightarrow> mdatum \<Rightarrow> span list \<Rightarrow> bool \<Rightarrow> heap \<Rightarrow> walk" where
  "mdescend ln tab [] std h = (tab, Inr [], h)"
| "mdescend ln tab (key # keys) std h =
     (case mtab_find tab key h of
        (None, h1) \<Rightarrow> mgo_new ln std tab key (\<lambda>t. mdescend ln t keys std) h1
      | (Some j, h1) \<Rightarrow>
          (let h2 = mpeek tab j h1 in
           case mvalue tab j of
             MTable f k l v kvs \<Rightarrow> mgo_into tab [j] (\<lambda>t. mdescend ln t keys std) h2
           | MArray f p xs \<Rightarrow>
               if xs = [] then (tab, Inl (seterror ln (''array '' @ cstr (snd key) @ '' has no elements'')), h2)
               else let h3 = mpeek (MArray f p xs) (length xs - 1) h2 in
                 if mtype (last xs) \<noteq> TOML_TABLE
                 then (tab, Inl (seterror ln (''array '' @ cstr (snd key) @ '' must be array of tables'')), h3)
                 else mgo_into tab [j, length xs - 1] (\<lambda>t. mdescend ln t keys std) h3
           | _ \<Rightarrow> (tab, Inl (seterror ln (''cannot locate table at key '' @ cstr (snd key))), h2)))"

fun marray_walk :: "int \<Rightarrow> mdatum \<Rightarrow> span list \<Rightarrow> heap \<Rightarrow> walk" where
  "marray_walk ln tab [] h = (tab, Inr [], h)"
| "marray_walk ln tab (key # keys) h =
     (case mtab_find tab key h of
        (None, h1) \<Rightarrow> mgo_new ln True tab key (\<lambda>t. marray_walk ln t keys) h1
      | (Some j, h1) \<Rightarrow>
          (let h2 = mpeek tab j h1 in
           case mvalue tab j of
             MTable f k l v kvs \<Rightarrow> mgo_into tab [j] (\<lambda>t. marray_walk ln t keys) h2
           | MArray f p xs \<Rightarrow>
               if has_flag FLAG_INLINED (forget (MArray f p xs))
               then (tab, Inl (seterror ln (''cannot expand array '' @ cstr (snd key))), h2)
               else if xs = [] then (tab, Inl (seterror ln (''array '' @ cstr (snd key) @ '' has no elements'')), h2)
               else let h3 = mpeek (MArray f p xs) (length xs - 1) h2 in
                 if mtype (last xs) \<noteq> TOML_TABLE
                 then (tab, Inl (seterror ln (''array '' @ cstr (snd key) @ '' must be array of tables'')), h3)
                 else mgo_into tab [j, length xs - 1] (\<lambda>t. marray_walk ln t keys) h3
           | _ \<Rightarrow> (tab, Inl (seterror ln (''cannot locate table at key '' @ cstr (snd key))), h2)))"

fun mkeyvalue_walk :: "int \<Rightarrow> bool \<Rightarrow> mdatum \<Rightarrow> span list \<Rightarrow> heap \<Rightarrow> walk" where
  "mkeyvalue_walk ln first tab [] h = (tab, Inr [], h)"
| "mkeyvalue_walk ln first tab (key # keys) h =
     (case mtab_find tab key h of
        (None, h1) \<Rightarrow>
          if \<not> first \<and> has_flag FLAG_EXPLICIT (forget tab)
          then (tab, Inl (seterror ln ''cannot extend a previously defined table using dotted expression''), h1)
          else mgo_new ln False tab key (\<lambda>t. mkeyvalue_walk ln False t keys) h1
      | (Some j, h1) \<Rightarrow>
          (let h2 = mpeek tab j h1 in
           case mvalue tab j of
             MTable f k l v kvs \<Rightarrow> mgo_into tab [j] (\<lambda>t. mkeyvalue_walk ln False t keys) h2
           | MArray f p xs \<Rightarrow>
               (tab, Inl (seterror ln (''encountered previously declared array '' @ SQ # cstr (snd key) @ [SQ])), h2)
           | _ \<Rightarrow> (tab, Inl (seterror ln (''cannot locate table at '' @ SQ # cstr (snd key) @ [SQ])), h2)))"

section \<open>Values\<close>

text \<open>What has been built so far, the error or the rest, and the heap; the caller frees.\<close>

type_synonym 'a made = "mdatum \<times> (string + 'a) \<times> heap"

text \<open>A string that could not be read has no bytes yet, and nothing to free.\<close>

definition mtoken_to_string :: "token \<Rightarrow> reader \<Rightarrow> heap \<Rightarrow> reader made" where
  "mtoken_to_string tok rd h =
     (case mparse_norm tok rd h of
        (Inl e, h') \<Rightarrow> (MPlain (DUnknown 0), Inl e, h')
      | (Inr (s, rd'), h') \<Rightarrow> (MString 0 s, Inr rd', h'))"

definition minline_key :: "token \<Rightarrow> mdatum \<Rightarrow> reader \<Rightarrow> heap \<Rightarrow> (nat list \<times> span \<times> token \<times> reader) made" where
  "minline_key tok tab rd h =
     (case mparse_key tok rd h of
        (Inl e, h1) \<Rightarrow> (tab, Inl e, h1)
      | (Inr (keys, rd1), h1) \<Rightarrow>
          (case mdescend (tok_lineno tok) tab (butlast keys) False h1 of
             (tab1, Inl e, h2) \<Rightarrow> (tab1, Inl e, h2)
           | (tab1, Inr path, h2) \<Rightarrow>
               if has_flag FLAG_INLINED (forget (mat tab1 path))
               then (tab1, Inl (seterror (tok_lineno tok) ''inline table cannot be extended''), h2)
               else
                 let tab2 = mput_at tab1 path (mset_flag FLAG_EXPLICIT (mat tab1 path)) in
                 (case scan_value (rd_scan rd1) of
                    Inl e \<Rightarrow> (tab2, Inl e, h2)
                  | Inr (eq, sp2) \<Rightarrow>
                      if toktyp eq = TOK_ENDL then (tab2, Inl (seterror (tok_lineno eq) ''unexpected newline''), h2)
                      else if toktyp eq \<noteq> TOK_EQUAL
                      then (tab2, Inl (seterror (tok_lineno eq) (''missing '' @ SQ # CHR ''='' # [SQ])), h2)
                      else (case scan_value sp2 of
                              Inl e \<Rightarrow> (tab2, Inl e, h2)
                            | Inr (val, sp3) \<Rightarrow>
                                (tab2, Inr (path, last keys, val, rd1\<lparr>rd_scan := sp3\<rparr>), h2)))))"

text \<open>Storing a value at the end of a key: with the value gone when that fails.\<close>

definition mstore :: "mdatum \<Rightarrow> nat list \<Rightarrow> span \<Rightarrow> mdatum \<Rightarrow> heap \<Rightarrow> mdatum \<times> string option \<times> heap" where
  "mstore tab path key v h =
     (case mtab_add (mat tab path) key v h of
        (t, Some reason, h') \<Rightarrow> (mput_at tab path t, Some reason, mfree v h')
      | (t, None, h') \<Rightarrow> (mput_at tab path t, None, h'))"

fun mparse_val :: "nat \<Rightarrow> token \<Rightarrow> reader \<Rightarrow> heap \<Rightarrow> reader made option"
and marray_loop :: "nat \<Rightarrow> mdatum \<Rightarrow> bool \<Rightarrow> reader \<Rightarrow> heap \<Rightarrow> reader made option"
and mtable_loop :: "nat \<Rightarrow> mdatum \<Rightarrow> bool \<Rightarrow> reader \<Rightarrow> heap \<Rightarrow> reader made option" where
  "mparse_val 0 tok rd h = None"
| "mparse_val (Suc n) tok rd h =
     (case toktyp tok of
        TOK_STRING \<Rightarrow> Some (mtoken_to_string tok rd h)
      | TOK_MLSTRING \<Rightarrow> Some (mtoken_to_string tok rd h)
      | TOK_LITSTRING \<Rightarrow> Some (mtoken_to_string tok rd h)
      | TOK_MLLITSTRING \<Rightarrow> Some (mtoken_to_string tok rd h)
      | TOK_TIME \<Rightarrow> Some (MPlain (token_to_timestamp tok), Inr rd, h)
      | TOK_DATE \<Rightarrow> Some (MPlain (token_to_timestamp tok), Inr rd, h)
      | TOK_DATETIME \<Rightarrow> Some (MPlain (token_to_timestamp tok), Inr rd, h)
      | TOK_DATETIMETZ \<Rightarrow> Some (MPlain (token_to_timestamp tok), Inr rd, h)
      | TOK_INTEGER \<Rightarrow> Some (MPlain (token_to_int64 tok), Inr rd, h)
      | TOK_FLOAT \<Rightarrow> Some (MPlain (token_to_fp64 tok), Inr rd, h)
      | TOK_BOOL \<Rightarrow> Some (MPlain (token_to_boolean tok), Inr rd, h)
      | TOK_LBRACK \<Rightarrow> marray_loop n mempty_array False rd h
      | TOK_LBRACE \<Rightarrow> mtable_loop n (mnew_table False) False rd h
      | _ \<Rightarrow> Some (MZERO, Inl (seterror (tok_lineno tok) ''missing value''), h))"
| "marray_loop 0 arr need_comma rd h = None"
| "marray_loop (Suc n) arr need_comma rd h =
     (case scan_value (rd_scan rd) of
        Inl e \<Rightarrow> Some (arr, Inl e, h)
      | Inr (tok, sp) \<Rightarrow>
          if toktyp tok = TOK_ENDL then marray_loop n arr need_comma (rd\<lparr>rd_scan := sp\<rparr>) h
          else if toktyp tok = TOK_RBRACK
          then (case mset_flag_recursive FLAG_INLINED arr h of (a, h') \<Rightarrow> Some (a, Inr (rd\<lparr>rd_scan := sp\<rparr>), h'))
          else if toktyp tok = TOK_COMMA
          then if need_comma then marray_loop n arr False (rd\<lparr>rd_scan := sp\<rparr>) h
               else Some (arr, Inl (seterror (tok_lineno tok) ''syntax error while parsing array: unexpected comma''), h)
          else if need_comma
          then Some (arr, Inl (seterror (tok_lineno tok) ''syntax error while parsing array: missing comma''), h)
          else (case mparse_val n tok (rd\<lparr>rd_scan := sp\<rparr>) h of
                  None \<Rightarrow> None
                | Some (v, Inl e, h1) \<Rightarrow> Some (arr, Inl e, mfree v h1)
                | Some (v, Inr rd', h1) \<Rightarrow>
                    (case marr_emplace arr h1 of
                       (arr', Inl reason, h2) \<Rightarrow>
                         Some (arr', Inl (seterror (tok_lineno tok) (''while parsing array: '' @ reason)), mfree v h2)
                     | (arr', Inr i, h2) \<Rightarrow> marray_loop n (mput arr' i v) True rd' h2)))"
| "mtable_loop 0 tab need_comma rd h = None"
| "mtable_loop (Suc n) tab need_comma rd h =
     (case scan_key (rd_scan rd) of
        Inl e \<Rightarrow> Some (tab, Inl e, h)
      | Inr (tok, sp) \<Rightarrow>
          if toktyp tok = TOK_RBRACE
          then (case mset_flag_recursive FLAG_INLINED tab h of (t, h') \<Rightarrow> Some (t, Inr (rd\<lparr>rd_scan := sp\<rparr>), h'))
          else if toktyp tok = TOK_COMMA
          then if need_comma then mtable_loop n tab False (rd\<lparr>rd_scan := sp\<rparr>) h
               else Some (tab, Inl (seterror (tok_lineno tok) ''unexpected comma''), h)
          else if toktyp tok = TOK_ENDL then mtable_loop n tab need_comma (rd\<lparr>rd_scan := sp\<rparr>) h
          else if need_comma then Some (tab, Inl (seterror (tok_lineno tok) ''missing comma''), h)
          else (case minline_key tok tab (rd\<lparr>rd_scan := sp\<rparr>) h of
                  (tab', Inl e, h1) \<Rightarrow> Some (tab', Inl e, h1)
                | (tab', Inr (path, key, val, rd1), h1) \<Rightarrow>
                    (case mparse_val n val rd1 h1 of
                       None \<Rightarrow> None
                     | Some (v, Inl e, h2) \<Rightarrow> Some (tab', Inl e, mfree v h2)
                     | Some (v, Inr rd2, h2) \<Rightarrow>
                         (case mstore tab' path key v h2 of
                            (tab'', Some reason, h3) \<Rightarrow> Some (tab'', Inl (seterror (tok_lineno val) reason), h3)
                          | (tab'', None, h3) \<Rightarrow> mtable_loop n tab'' True rd2 h3))))"

section \<open>Expressions\<close>

text \<open>The parser: the current table as a place, with its address when it was set.\<close>

record mparser =
  mp_in :: reader
  mp_toptab :: mdatum
  mp_curtab :: "nat list"
  mp_curref :: "ptr \<times> nat"

text \<open>An expression leaves the parser, the error if any, and the heap.\<close>

type_synonym expr = "mparser \<times> string option \<times> heap"

definition set_curtab :: "nat list \<Rightarrow> mparser \<Rightarrow> mparser" where
  "set_curtab path mp = mp\<lparr>mp_curtab := path, mp_curref := maddr (mp_toptab mp) path\<rparr>"

definition follow_curtab :: "mparser \<Rightarrow> heap \<Rightarrow> heap" where
  "follow_curtab mp h =
     (if mp_curtab mp = [] then h
      else touch (fst (mp_curref mp)) (SIZEOF_DATUM * (snd (mp_curref mp) + 1)) h)"

text \<open>The table for \<open>[a.b.c]\<close> in the table of \<open>[a.b]\<close>.\<close>

definition mstd_table_place :: "int \<Rightarrow> mdatum \<Rightarrow> span \<Rightarrow> heap \<Rightarrow> nat made" where
  "mstd_table_place ln tab key h =
     (case mtab_find tab key h of
        (None, h1) \<Rightarrow>
          if has_flag FLAG_INLINED (forget tab) then (tab, Inl (seterror ln ''inline table cannot be extended''), h1)
          else (case mtab_add tab key (mnew_table True) h1 of
                  (tab', Some reason, h2) \<Rightarrow> (tab', Inl (seterror ln reason), h2)
                | (tab', None, h2) \<Rightarrow> (tab', Inr (msize tab' - 1), h2))
      | (Some j, h1) \<Rightarrow>
          (let h2 = mpeek tab j h1 in
           if has_flag FLAG_EXPLICIT (forget (mvalue tab j))
           then (tab, Inl (seterror ln ''table defined more than once''), h2)
           else if \<not> has_flag FLAG_STDEXPR (forget (mvalue tab j))
           then (tab, Inl (seterror ln ''table defined before''), h2)
           else (tab, Inr j, h2)))"

text \<open>The array for \<open>[[a.b.c]]\<close>, with a new table at its end.\<close>

definition marray_table_place :: "int \<Rightarrow> mdatum \<Rightarrow> span \<Rightarrow> heap \<Rightarrow> nat list made" where
  "marray_table_place ln tab key h =
     (case (case mtab_find tab key h of
              (None, h1) \<Rightarrow> mtab_add tab key mempty_array h1
            | (Some j, h1) \<Rightarrow> (tab, None, h1)) of
        (tab', Some reason, h2) \<Rightarrow> (tab', Inl (seterror ln reason), h2)
      | (tab', None, h2) \<Rightarrow>
          (case mtab_find tab' key h2 of
             (None, h3) \<Rightarrow> (tab', Inl (seterror ln ''entry must be an array''), h3)
           | (Some idx, h3) \<Rightarrow>
               (let h4 = mpeek tab' idx h3 in
                if mtype (mvalue tab' idx) \<noteq> TOML_ARRAY then (tab', Inl (seterror ln ''entry must be an array''), h4)
                else if has_flag FLAG_INLINED (forget (mvalue tab' idx))
                then (tab', Inl (seterror ln ''cannot extend a static array''), h4)
                else (case marr_emplace (mvalue tab' idx) h4 of
                        (arr, Inl reason, h5) \<Rightarrow> (mput tab' idx arr, Inl (seterror ln reason), h5)
                      | (arr, Inr i, h5) \<Rightarrow> (mput tab' idx (mput arr i (mnew_table False)), Inr [idx, i], h5)))))"

definition mparse_std_table_expr :: "mparser \<Rightarrow> heap \<Rightarrow> expr" where
  "mparse_std_table_expr mp h =
     (case scan_key (rd_scan (mp_in mp)) of
        Inl e \<Rightarrow> (mp, Some e, h)
      | Inr (tok, sp1) \<Rightarrow>
          (case mparse_key tok ((mp_in mp)\<lparr>rd_scan := sp1\<rparr>) h of
             (Inl e, h1) \<Rightarrow> (mp, Some e, h1)
           | (Inr (keys, rd1), h1) \<Rightarrow>
               (case scan_key (rd_scan rd1) of
                  Inl e \<Rightarrow> (mp, Some e, h1)
                | Inr (rb, sp2) \<Rightarrow>
                    if toktyp rb \<noteq> TOK_RBRACK then (mp, Some (seterror (tok_lineno rb) ''missing right-bracket''), h1)
                    else (case mdescend (tok_lineno tok) (mp_toptab mp) (butlast keys) True h1 of
                            (top1, Inl e, h2) \<Rightarrow> (mp\<lparr>mp_toptab := top1\<rparr>, Some e, h2)
                          | (top1, Inr path, h2) \<Rightarrow>
                              (case mstd_table_place (tok_lineno tok) (mat top1 path) (last keys) h2 of
                                 (tab, Inl e, h3) \<Rightarrow> (mp\<lparr>mp_toptab := mput_at top1 path tab\<rparr>, Some e, h3)
                               | (tab, Inr j, h3) \<Rightarrow>
                                   (set_curtab (path @ [j])
                                      (mp\<lparr>mp_in := rd1\<lparr>rd_scan := sp2\<rparr>,
                                         mp_toptab := mput_at top1 path (mput tab j (mset_flag FLAG_EXPLICIT (mvalue tab j)))\<rparr>),
                                    None, mpeek tab j h3))))))"

definition mparse_array_table_expr :: "mparser \<Rightarrow> heap \<Rightarrow> expr" where
  "mparse_array_table_expr mp h =
     (case scan_key (rd_scan (mp_in mp)) of
        Inl e \<Rightarrow> (mp, Some e, h)
      | Inr (tok, sp1) \<Rightarrow>
          (case mparse_key tok ((mp_in mp)\<lparr>rd_scan := sp1\<rparr>) h of
             (Inl e, h1) \<Rightarrow> (mp, Some e, h1)
           | (Inr (keys, rd1), h1) \<Rightarrow>
               (case scan_key (rd_scan rd1) of
                  Inl e \<Rightarrow> (mp, Some e, h1)
                | Inr (rrb, sp2) \<Rightarrow>
                    if toktyp rrb \<noteq> TOK_RRBRACK
                    then (mp, Some (seterror (tok_lineno rrb) (''missing '' @ SQ # '']]'' @ [SQ])), h1)
                    else (case marray_walk (tok_lineno tok) (mp_toptab mp) (butlast keys) h1 of
                            (top1, Inl e, h2) \<Rightarrow> (mp\<lparr>mp_toptab := top1\<rparr>, Some e, h2)
                          | (top1, Inr path, h2) \<Rightarrow>
                              (case marray_table_place (tok_lineno tok) (mat top1 path) (last keys) h2 of
                                 (tab, Inl e, h3) \<Rightarrow> (mp\<lparr>mp_toptab := mput_at top1 path tab\<rparr>, Some e, h3)
                               | (tab, Inr p, h3) \<Rightarrow>
                                   (set_curtab (path @ p)
                                      (mp\<lparr>mp_in := rd1\<lparr>rd_scan := sp2\<rparr>, mp_toptab := mput_at top1 path tab\<rparr>),
                                    None, h3))))))"

definition mparse_keyvalue_expr :: "nat \<Rightarrow> token \<Rightarrow> mparser \<Rightarrow> heap \<Rightarrow> expr option" where
  "mparse_keyvalue_expr n tok mp h =
     (let ln = tok_lineno tok; cur = mp_curtab mp in
      case mparse_key tok (mp_in mp) h of
        (Inl e, h1) \<Rightarrow> Some (mp, Some e, h1)
      | (Inr (keys, rd1), h1) \<Rightarrow>
          (case scan_key (rd_scan rd1) of
             Inl e \<Rightarrow> Some (mp, Some e, h1)
           | Inr (eq, sp2) \<Rightarrow>
               if toktyp eq \<noteq> TOK_EQUAL
               then Some (mp, Some (seterror (tok_lineno eq) (''expect '' @ SQ # CHR ''='' # [SQ])), h1)
               else (case mkeyvalue_walk ln True (mat (mp_toptab mp) cur) (butlast keys) (follow_curtab mp h1) of
                       (tab1, Inl e, h2) \<Rightarrow> Some (mp\<lparr>mp_toptab := mput_at (mp_toptab mp) cur tab1\<rparr>, Some e, h2)
                     | (tab1, Inr path, h2) \<Rightarrow>
                         let top1 = mput_at (mp_toptab mp) cur tab1; mp1 = mp\<lparr>mp_toptab := top1\<rparr>;
                           tab = forget (mat tab1 path) in
                         if has_flag FLAG_INLINED tab
                         then Some (mp1, Some (seterror ln ''inline table cannot be extended''), h2)
                         else if 1 < length keys \<and> has_flag FLAG_EXPLICIT tab
                         then Some (mp1, Some (seterror ln ''cannot extend a previously defined table using dotted expression''), h2)
                         else (case scan_value sp2 of
                                 Inl e \<Rightarrow> Some (mp1, Some e, h2)
                               | Inr (val, sp3) \<Rightarrow>
                                   (case mparse_val n val (rd1\<lparr>rd_scan := sp3\<rparr>) h2 of
                                      None \<Rightarrow> None
                                    | Some (v, Inl e, h3) \<Rightarrow> Some (mp1, Some e, mfree v h3)
                                    | Some (v, Inr rd2, h3) \<Rightarrow>
                                        (case mstore tab1 path (last keys) v h3 of
                                           (tab2, r, h4) \<Rightarrow>
                                             Some (mp\<lparr>mp_in := rd2, mp_toptab := mput_at (mp_toptab mp) cur tab2\<rparr>,
                                                   map_option (seterror ln) r, h4)))))))"

section \<open>Documents\<close>

definition mparse_expr :: "nat \<Rightarrow> token \<Rightarrow> mparser \<Rightarrow> heap \<Rightarrow> expr option" where
  "mparse_expr n tok mp h =
     (if toktyp tok = TOK_LBRACK then Some (mparse_std_table_expr mp h)
      else if toktyp tok = TOK_LLBRACK then Some (mparse_array_table_expr mp h)
      else mparse_keyvalue_expr n tok mp h)"

abbreviation mp_set_scan :: "scanner \<Rightarrow> mparser \<Rightarrow> mparser" where
  "mp_set_scan sp mp \<equiv> mp\<lparr>mp_in := (mp_in mp)\<lparr>rd_scan := sp\<rparr>\<rparr>"

fun mdoc_loop :: "nat \<Rightarrow> mparser \<Rightarrow> heap \<Rightarrow> expr option" where
  "mdoc_loop 0 mp h = None"
| "mdoc_loop (Suc n) mp h =
     (case scan_key (rd_scan (mp_in mp)) of
        Inl e \<Rightarrow> Some (mp, Some e, h)
      | Inr (tok, sp1) \<Rightarrow>
          if toktyp tok = TOK_FIN then Some (mp, None, h)
          else if toktyp tok = TOK_ENDL then mdoc_loop n (mp_set_scan sp1 mp) h
          else (case mparse_expr n tok (mp_set_scan sp1 mp) h of
                  None \<Rightarrow> None
                | Some (mp1, Some e, h1) \<Rightarrow> Some (mp1, Some e, h1)
                | Some (mp1, None, h1) \<Rightarrow>
                    (case scan_key (rd_scan (mp_in mp1)) of
                       Inl e \<Rightarrow> Some (mp1, Some e, h1)
                     | Inr (tok2, sp2) \<Rightarrow>
                         if toktyp tok2 = TOK_FIN \<or> toktyp tok2 = TOK_ENDL
                         then mdoc_loop n (mp_set_scan sp2 mp1) h1
                         else Some (mp1, Some (seterror (tok_lineno tok2) ''ENDL expected''), h1))))"

definition parse_failed :: "string \<Rightarrow> mresult" where
  "parse_failed e = \<lparr>mr_ok = False, mr_toptab = MZERO, mr_errmsg = e, mr_pool = None\<rparr>"

definition mparser_init :: "string \<Rightarrow> mpool \<Rightarrow> mparser" where
  "mparser_init src pl =
     \<lparr>mp_in = \<lparr>rd_scan = scan_init src, rd_pool = pl\<rparr>, mp_toptab = mnew_table False, mp_curtab = [],
      mp_curref = (0, 0)\<rparr>"

text \<open>\<open>bail:\<close> frees the tree and the pool; before the pool exists there is nothing to free.\<close>

definition mtoml_parse :: "toml_option \<Rightarrow> string \<Rightarrow> nat \<Rightarrow> heap \<Rightarrow> (mresult \<times> heap) option" where
  "mtoml_parse opt buf len h =
     (if at buf len \<noteq> NUL then Some (parse_failed ''src[] must be NUL terminated'', h)
      else let src = take len buf in
           case (if check_utf8 opt then utf8_check 1 src else None) of
             Some e \<Rightarrow> Some (parse_failed e, h)
           | None \<Rightarrow>
               (case mpool_create (int len + 10) h of
                  (None, h1) \<Rightarrow> Some (parse_failed ''out of memory'', h1)
                | (Some pl, h1) \<Rightarrow>
                    (case mdoc_loop (parse_fuel src) (mparser_init src pl) h1 of
                       None \<Rightarrow> None
                     | Some (mp, Some e, h2) \<Rightarrow>
                         Some (parse_failed e, mpool_destroy (Some (rd_pool (mp_in mp))) (mfree (mp_toptab mp) h2))
                     | Some (mp, None, h2) \<Rightarrow>
                         Some (\<lparr>mr_ok = True, mr_toptab = mp_toptab mp, mr_errmsg = [],
                                mr_pool = Some (rd_pool (mp_in mp))\<rparr>, h2))))"

end
