(* ===== verification/Toml_Parse_Places.thy ===== *)
theory Toml_Parse_Places
  imports Toml_Copying Toml_Parse_Heap
begin

text \<open>
  Places in trees in memory: what a walk, a store and a flag owe, each with the value that
  \<open>Toml_Parser\<close> computes.
\<close>

section \<open>Blocks\<close>

text \<open>A value beside a tree: the one is in the frame of the other.\<close>

lemma built_beside:
  assumes "owns R h d" and "built (owned d + R) h v h1"
  shows "owns (owned v + R) h1 d" "owns (owned d + R) h1 v" "keeps_blocks R h h1" "heap_ok h1" "roomy h1 d" "roomy h1 v"
    "grants h = [] \<longrightarrow> grants h1 = []"
proof -
  have b: "owns (owned d + R) h1 v" "keeps_blocks (owned d + R) h h1" "heap_ok h" "roomy h d" "grants h = [] \<longrightarrow> grants h1 = []"
    using assms by (simp_all add: built_def owns_def)
  have "roomy h1 d" by (rule roomy_keep [OF b(3,4) _ b(2)]) simp
  with b(1) show "owns (owned v + R) h1 d" "roomy h1 d" by (simp_all add: owns_def ac_simps)
  show "keeps_blocks R h h1" by (rule keeps_blocks_sub [OF b(2)]) simp
  show "owns (owned d + R) h1 v" "heap_ok h1" "roomy h1 v" "grants h = [] \<longrightarrow> grants h1 = []" using b by (simp_all add: owns_def)
qed

text \<open>Freeing the value, or storing it at an empty place.\<close>

lemma built_drop:
  assumes "built (owned v + R) h d h'" and "heap_ok h" and "roomy h v"
  shows "built R h d (mfree v h')"
proof -
  have b: "owns (owned v + R) h' d" "keeps_blocks (owned v + R) h h'" "grants h = [] \<longrightarrow> grants h' = []"
    using assms(1) by (simp_all add: built_def)
  have v: "roomy h' v" by (rule roomy_keep [OF assms(2,3) _ b(2)]) simp
  have "owns (owned d + R) h' v" using b(1) v by (simp add: owns_def ac_simps)
  from mfree_ok(1) [OF this] have f: "freed (owned d + R) h' (mfree v h')" .
  have h': "heap_ok h'" "roomy h' d" using b(1) by (simp_all add: owns_def)
  have "keeps_blocks (owned d + R) h' (mfree v h')" using f by (simp add: freed_def)
  moreover from roomy_keep [OF h' _ this] have "roomy (mfree v h') d" by simp
  ultimately show ?thesis
    using f b(3) keeps_blocks_sub [OF b(2), of R] keeps_blocks_sub [of "owned d + R" h' "mfree v h'" R]
    by (auto simp: built_def owns_def freed_def intro: keeps_blocks_trans)
qed

lemma built_attach:
  assumes "built (owned v + R) h d h'" and "heap_ok h" and "roomy h v" and "i < msize d" and "mtype (mvalue d i) = TOML_UNKNOWN"
  shows "built R h (mput d i v) h'"
proof -
  have b: "owns (owned v + R) h' d" "keeps_blocks (owned v + R) h h'" "grants h = [] \<longrightarrow> grants h' = []"
    using assms(1) by (simp_all add: built_def)
  have v: "roomy h' v" by (rule roomy_keep [OF assms(2,3) _ b(2)]) simp
  obtain x where x: "mvalue d i = MPlain x" using forget_unknown [OF assms(5)] by blast
  note p = mput_facts [OF assms(4)]
  have "owned d = mrest d i" "roomy h' (mput d i MZERO)"
    using p(1) [of "mvalue d i"] p(2) p(3) [of h' "mvalue d i"] x b(1) by (simp_all add: owns_def)
  then show ?thesis
    using b v p(1) [of v] p(3) [of h' v] keeps_blocks_sub [OF b(2), of R] by (simp add: built_def owns_def ac_simps)
qed

lemma owns_moved: "owns R h d \<Longrightarrow> owned d' = owned d \<Longrightarrow> roomy h d' = roomy h d \<Longrightarrow> owns R h d'"
  by (simp add: owns_def)

section \<open>Following a path\<close>

fun mpath :: "mdatum \<Rightarrow> nat list \<Rightarrow> bool" where
  "mpath d [] \<longleftrightarrow> True"
| "mpath d (i # p) \<longleftrightarrow> i < msize d \<and> mpath (mvalue d i) p"

lemma mvalue_put [simp]: "i < msize d \<Longrightarrow> mvalue (mput d i c) i = c" "msize (mput d i c) = msize d"
  by (cases d; simp)+

lemma mput_put [simp]: "mput (mput d i c) i c' = mput d i c'"
proof (cases d)
  case (MTable f k l v kvs)
  then show ?thesis by (cases "i < length kvs") (simp_all add: list_update_beyond)
qed simp_all

lemma mblock_put [simp]: "mblock (mput d i c) = mblock d"
  by (cases d) auto

lemma mat_append: "mat d (p @ q) = mat (mat d p) q"
  by (induction p arbitrary: d) auto

lemma mpath_append: "mpath d (p @ q) \<longleftrightarrow> mpath d p \<and> mpath (mat d p) q"
  by (induction p arbitrary: d) auto

lemma mat_put [simp]: "mpath d p \<Longrightarrow> mat (mput_at d p c) p = c"
  by (induction d p c rule: mput_at.induct) auto

lemma mpath_put: "mpath d p \<Longrightarrow> mpath (mput_at d p c) p"
  by (induction d p c rule: mput_at.induct) auto

lemma mput_at_put: "mpath d p \<Longrightarrow> mput_at (mput_at d p c) p c' = mput_at d p c'"
  by (induction d p c rule: mput_at.induct) auto

lemma mput_at_append: "mpath d p \<Longrightarrow> mput_at d (p @ q) c = mput_at d p (mput_at (mat d p) q c)"
  by (induction p arbitrary: d) auto

lemma maddr_put: "mpath d p \<Longrightarrow> maddr (mput_at d p c) p = maddr d p"
  by (induction d p rule: maddr.induct) auto

lemma mat_owned: "mpath d p \<Longrightarrow> owned (mput_at d p c) = owned c + owned (mput_at d p MZERO)"
proof (induction p arbitrary: d)
  case (Cons i p)
  then show ?case
    using mput_facts(1) [of i d "mput_at (mvalue d i) p c"] mput_facts(1) [of i d "mput_at (mvalue d i) p MZERO"]
    by (simp add: ac_simps)
qed simp

lemma mput_at_same: "mpath d p \<Longrightarrow> mput_at d p (mat d p) = d"
  by (induction p arbitrary: d) (auto simp: mput_facts(2))

lemma mput_at_pools: "mpath d p \<Longrightarrow> pools (mput_at d p c) \<subseteq> pools d \<union> pools c"
proof (induction p arbitrary: d)
  case (Cons i p)
  then show ?case using mput_facts(4) [of i d "mput_at (mvalue d i) p c"] mput_facts(5) [of i d] by auto
qed simp

lemma mat_pools: "mpath d p \<Longrightarrow> pools (mat d p) \<subseteq> pools d"
  using mput_facts(5) by (induction p arbitrary: d) (auto, blast)

lemma mat_size: "mpath d [i] \<Longrightarrow> i < msize d"
  by simp

lemma owns_at:
  assumes "owns R h d" and "mpath d p"
  shows "owns (owned (mput_at d p MZERO) + R) h (mat d p)"
  using assms
proof (induction p arbitrary: d R)
  case (Cons i p)
  then have i: "i < msize d" "mpath (mvalue d i) p" by simp_all
  from Cons.IH [OF owns_child [OF Cons.prems(1) i(1)] i(2)]
  show ?case using i mput_facts(1) [OF i(1), of "mput_at (mvalue d i) p MZERO"] by (simp add: ac_simps)
qed simp

lemma roomy_child: "roomy h d \<Longrightarrow> i < msize d \<Longrightarrow> roomy h (mvalue d i)"
  using mput_facts(2,3) by metis

lemma put_at_built:
  assumes "heap_ok h" and "roomy h d" and "mpath d p" and "built (owned (mput_at d p MZERO) + R) h c h'"
  shows "built R h (mput_at d p c) h'"
  using assms(2-4)
proof (induction p arbitrary: d R)
  case (Cons i p)
  then have i: "i < msize d" "mpath (mvalue d i) p" by simp_all
  have "built (owned (mput_at (mvalue d i) p MZERO) + (mrest d i + R)) h c h'"
    using Cons.prems(3) i mput_facts(1) [OF i(1), of "mput_at (mvalue d i) p MZERO"] by (simp add: ac_simps)
  from Cons.IH [OF roomy_child [OF Cons.prems(1) i(1)] i(2) this]
  show ?case using put_built [OF assms(1) Cons.prems(1) i(1)] i by simp
qed simp

lemma mpath_plain: "mpath (MPlain d) p \<longleftrightarrow> p = []" "mpath (MString f s) p \<longleftrightarrow> p = []"
  by (cases p; simp)+

lemma forget_at:
  assumes "mpath d p"
  shows "forget (mat d p) = datum_at (forget d) p" "forget (mput_at d p c) = put_at (forget d) p (forget c)"
proof -
  have "forget (mat d p) = datum_at (forget d) p \<and> forget (mput_at d p c) = put_at (forget d) p (forget c)"
    using assms
  proof (induction p arbitrary: d)
    case (Cons i p)
    then have IH: "forget (mat (mvalue d i) p) = datum_at (forget (mvalue d i)) p"
      "forget (mput_at (mvalue d i) p c) = put_at (forget (mvalue d i)) p (forget c)" by simp_all
    show ?case
      using Cons.prems IH by (cases d) (auto simp: map_update case_prod_unfold)
  qed simp
  then show "forget (mat d p) = datum_at (forget d) p" "forget (mput_at d p c) = put_at (forget d) p (forget c)" by simp_all
qed

lemma peek_ok: "heap_ok h \<Longrightarrow> roomy h d \<Longrightarrow> i < msize d \<Longrightarrow> mpeek d i h = h"
  using mult_le_mono2 [of "i + 1" "msize d" SIZEOF_DATUM]
  by (cases d) (auto simp: mpeek_def intro!: holds_touch [of h _ "SIZEOF_DATUM * msize d"])

text \<open>The address of a place is one of a live block that is long enough.\<close>

lemma follow_ok: "heap_ok h \<Longrightarrow> roomy h d \<Longrightarrow> mpath d (i # p) \<Longrightarrow>
    touch (fst (maddr d (i # p))) (SIZEOF_DATUM * (snd (maddr d (i # p)) + 1)) h = h"
proof (induction p arbitrary: d i)
  case Nil
  then show ?case using peek_ok [of h d i] by (simp add: mpeek_def)
next
  case (Cons j p)
  then show ?case using roomy_child [of h d i] by (simp del: touch_ok)
qed

section \<open>Costs\<close>

lemma sum_list_put: "i < length xs \<Longrightarrow> sum_list (map f (xs[i := y])) + f (xs ! i) = sum_list (map f xs) + (f y :: nat)"
  by (induction xs arbitrary: i) (auto split: nat.split)

lemma mcost_put: "i < msize d \<Longrightarrow> mcost (mput d i c) + mcost (mvalue d i) = mcost d + mcost c"
proof (cases d)
  case (MTable f k l v kvs)
  then show "i < msize d \<Longrightarrow> ?thesis"
    using sum_list_put [of i kvs "\<lambda>(s, d). mcost d" "(fst (kvs ! i), c)"] by (simp add: case_prod_unfold)
qed (simp_all add: sum_list_put)

lemma mcost_put_at: "mpath d p \<Longrightarrow> mcost (mput_at d p c) + mcost (mat d p) = mcost d + mcost c"
proof (induction p arbitrary: d)
  case (Cons i p)
  then have "mcost (mput_at (mvalue d i) p c) + mcost (mat (mvalue d i) p) = mcost (mvalue d i) + mcost c" by simp
  with Cons.prems mcost_put [of i d "mput_at (mvalue d i) p c"] show ?case by simp
qed simp

end
