(* ===== verification/Toml_Parse_Walks.thy ===== *)
theory Toml_Parse_Walks
  imports Toml_Shape Toml_Parse_Places
begin

text \<open>
  The three walks along a dotted key on trees in memory: the frame that a step keeps, what it
  owes (\<open>makes\<close>, \<open>walks\<close>), and that each walk does what \<open>Toml_Parser\<close> does on values, or
  reports a refused request.
\<close>

section \<open>Flags\<close>

lemma mset_flag_simps [simp]:
  "forget (mset_flag g d) = set_flag g (forget d)" "owned (mset_flag g d) = owned d" "pools (mset_flag g d) = pools d"
  "roomy h (mset_flag g d) = roomy h d" "mcost (mset_flag g d) = mcost d" "msize (mset_flag g d) = msize d"
  by (cases d; simp)+

definition flagged :: "flag \<Rightarrow> mdatum \<Rightarrow> mdatum \<Rightarrow> bool" where
  "flagged g d c \<longleftrightarrow>
     forget c = set_flag_recursive g (forget d) \<and> owned c = owned d \<and> pools c = pools d \<and> mcost c = mcost d \<and>
     (\<forall>h. roomy h c = roomy h d)"

lemma set_flag_recursive_plain: "dtype d \<notin> {TOML_STRING, TOML_ARRAY, TOML_TABLE} \<Longrightarrow> set_flag_recursive g d = set_flag g d"
  by (cases d) auto

lemma mset_flag_recursive_ok:
  "heap_ok h \<Longrightarrow> roomy h d \<Longrightarrow> \<exists>c. mset_flag_recursive g d h = (c, h) \<and> flagged g d c"
  "heap_ok h \<Longrightarrow> \<forall>d \<in> set xs. roomy h d \<Longrightarrow> block_holds h p (SIZEOF_DATUM * (i + length xs)) \<Longrightarrow>
     \<exists>ys. mset_flag_array g p i xs h = (ys, h) \<and> list_all2 (flagged g) xs ys"
  "heap_ok h \<Longrightarrow> \<forall>(s, d) \<in> set kvs. roomy h d \<Longrightarrow> block_holds h v (SIZEOF_DATUM * (i + length kvs)) \<Longrightarrow>
     \<exists>lws. mset_flag_table g v i kvs h = (lws, h) \<and> list_all2 (\<lambda>(s, d) (t, c). s = t \<and> flagged g d c) kvs lws"
proof (induction g d h and g p i xs h and g v i kvs h rule: mset_flag_recursive_mset_flag_array_mset_flag_table.induct)
  case (1 g f p xs h)
  then obtain ys where ys: "mset_flag_array g p 0 xs h = (ys, h)" "list_all2 (flagged g) xs ys" by auto
  have "forget (MArray (f OR g) p ys) = set_flag_recursive g (forget (MArray f p xs))" "length ys = length xs"
    "map owned ys = map owned xs" "map mcost ys = map mcost xs" "(\<Union>x \<in> set ys. pools x) = (\<Union>x \<in> set xs. pools x)"
    "\<And>h. (\<forall>x \<in> set ys. roomy h x) = (\<forall>x \<in> set xs. roomy h x)"
    using ys(2) by (induction rule: list_all2_induct) (auto simp: flagged_def)
  with ys(1) show ?case by (simp add: flagged_def)
next
  case (2 g f k l v kvs h)
  then obtain lws where lws: "mset_flag_table g v 0 kvs h = (lws, h)" "list_all2 (\<lambda>(s, d) (t, c). s = t \<and> flagged g d c) kvs lws" by auto
  have "forget (MTable (f OR g) k l v lws) = set_flag_recursive g (forget (MTable f k l v kvs))" "length lws = length kvs"
    "map (\<lambda>(s, d). owned d) lws = map (\<lambda>(s, d). owned d) kvs" "map (\<lambda>(s, d). mcost d) lws = map (\<lambda>(s, d). mcost d) kvs"
    "(\<Union>(s, d) \<in> set lws. insert (fst s) (pools d)) = (\<Union>(s, d) \<in> set kvs. insert (fst s) (pools d))"
    "\<And>h. (\<forall>(s, d) \<in> set lws. roomy h d) = (\<forall>(s, d) \<in> set kvs. roomy h d)"
    using lws(2) by (induction rule: list_all2_induct) (auto simp: flagged_def)
  with lws(1) show ?case by (simp add: flagged_def)
next
  case (3 g d h)
  then show ?case by (auto simp: flagged_def set_flag_recursive_plain)
next
  case (6 g p i d xs h)
  have t: "touch p (SIZEOF_DATUM * (i + 1)) h = h"
    using 6(3,5) by (intro holds_touch [of h p "SIZEOF_DATUM * (i + length (d # xs))"]) simp_all
  obtain c where c: "mset_flag_recursive g d h = (c, h)" "flagged g d c" using 6(1) [unfolded t] 6(3,4) by auto
  obtain ys where "mset_flag_array g p (i + 1) xs h = (ys, h)" "list_all2 (flagged g) xs ys"
    using 6(2) [unfolded t, OF c(1) [symmetric]] 6(3-5) by auto
  with c t show ?case by simp
next
  case (8 g v i s d kvs h)
  have t: "touch v (SIZEOF_DATUM * (i + 1)) h = h"
    using 8(3,5) by (intro holds_touch [of h v "SIZEOF_DATUM * (i + length ((s, d) # kvs))"]) simp_all
  obtain c where c: "mset_flag_recursive g d h = (c, h)" "flagged g d c" using 8(1) [unfolded t] 8(3,4) by auto
  obtain lws where "mset_flag_table g v (i + 1) kvs h = (lws, h)" "list_all2 (\<lambda>(s, d) (t, c). s = t \<and> flagged g d c) kvs lws"
    using 8(2) [unfolded t, OF c(1) [symmetric]] 8(3-5) by auto
  with c t show ?case by simp
qed (auto simp: flagged_def)

section \<open>Finding and adding a key\<close>

lemma mtab_find_ok:
  assumes "owns R h d" and "mtype d = TOML_TABLE" and "pools d \<subseteq> {q}" and "fst key = q" and "q \<in># R"
  shows "mtab_find d key h = (tab_find (forget d) (snd key), h)"
proof -
  obtain f k l v kvs where d: "d = MTable f k l v kvs" using owns_table [OF assms(1,2)] by blast
  have ok: "heap_ok h" "alive h = owned d + R" "roomy h d" using assms(1) by (simp_all add: owns_def)
  have "q \<in># alive h" using ok(2) assms(5) by simp
  moreover have "\<forall>(s, x) \<in> set kvs. fst s = q" using assms(3) by (auto simp: d)
  ultimately have "\<forall>(s, x) \<in> set kvs. fst s \<in># alive h" "fst key \<in># alive h" using assms(4) by auto
  with find_loop_ok [OF ok(1), of key k 0 kvs l] ok(3) assms(3,4) show ?thesis
    by (auto simp: d find_slot_forget option.map_ident)
qed

lemma emplace_cost: "mtab_emplace d key h = (d', res, h') \<Longrightarrow> mcost d' = mcost d"
  by (cases d) (auto simp: MZERO_def split: option.splits if_splits prod.splits)

lemma mtab_add_cost: "mtab_add d key w h = (d', e, h') \<Longrightarrow> mcost d' \<le> mcost d + (if e = None then mcost w else 0)"
proof -
  assume a: "mtab_add d key w h = (d', e, h')"
  obtain d1 res h1 where e: "mtab_emplace d key h = (d1, res, h1)" by (metis prod_cases3)
  note c = emplace_cost [OF e]
  have "mcost (mput d1 i w) \<le> mcost d1 + mcost w" for i
    using mcost_put [of i d1 w] by (cases "i < msize d1") (auto, cases d1, auto simp: list_update_beyond)
  with a e c show ?thesis by (auto simp: mtab_add_def split: sum.splits if_splits)
qed

lemma mtab_add_built:
  assumes "owns (owned w + R) h tab" and "mtype tab = TOML_TABLE" and "roomy h w" and "pools w \<subseteq> {q}"
    and "pools tab \<subseteq> {q}" and "fst key = q" and "q \<in># R" and "mtab_add tab key w h = (tab', e, h')"
  shows "built (if e = None then R else owned w + R) h tab' h'" "pools tab' \<subseteq> {q}" "mtype tab' = TOML_TABLE"
    "case e of
       None \<Rightarrow> tab_add (forget tab) (snd key) (forget w) = Inr (forget tab')
     | Some reason \<Rightarrow> tab_add (forget tab) (snd key) (forget w) = Inl reason \<or> grants h \<noteq> [] \<and> reason = ''out of memory''"
proof -
  have P: "{q} \<subseteq> set_mset (owned w + R)" using assms(7) by simp
  obtain d1 res h1 where e: "mtab_emplace tab key h = (d1, res, h1)" by (metis prod_cases3)
  have s: "fst key \<in> {q}" using assms(6) by simp
  note m = table_place [OF assms(1,2,5) s P e]
  have ok: "heap_ok h" using assms(1) by (simp add: owns_def)
  have all: "built (if e = None then R else owned w + R) h tab' h' \<and> pools tab' \<subseteq> {q} \<and> mtype tab' = TOML_TABLE \<and>
    (case e of
       None \<Rightarrow> tab_add (forget tab) (snd key) (forget w) = Inr (forget tab')
     | Some reason \<Rightarrow> tab_add (forget tab) (snd key) (forget w) = Inl reason \<or> grants h \<noteq> [] \<and> reason = ''out of memory'')"
  proof (cases res)
    case (Inl reason)
    then have "tab' = d1" "e = Some reason" "h' = h1" using assms(8) e by (simp_all add: mtab_add_def)
    with m Inl show ?thesis by (auto simp: agrees_def tab_add_def simp del: tab_emplace.simps)
  next
    case (Inr i)
    then have i: "tab_emplace (forget tab) (snd key) = Inr (forget d1, i)" "i < msize d1"
      using m(4) by (simp_all add: agrees_def del: tab_emplace.simps)
    note p = mput_facts [OF i(2)]
    show ?thesis
    proof (cases "mtype (mvalue d1 i) = TOML_UNKNOWN")
      case True
      have r: "tab' = mput d1 i w" "e = None" "h' = h1" using assms(8) e Inr True by (simp_all add: mtab_add_def)
      have "pools tab' \<subseteq> {q}" using p(4) [of w] m(2) assms(4) unfolding r by blast
      moreover have "tab_add (forget tab) (snd key) (forget w) = Inr (forget tab')"
        using True p(7) [OF m(3), of w] p(8) [OF m(3)] by (simp add: r tab_add_def i(1) del: tab_emplace.simps)
      ultimately show ?thesis
        using built_attach [OF m(1) ok assms(3) i(2) True] p(6) [of w] m(3) by (simp add: r)
    next
      case False
      have r: "tab' = d1" "e = Some ''duplicate key''" "h' = h1" using assms(8) e Inr False by (simp_all add: mtab_add_def)
      have "dtype (tab_value (forget d1) i) \<noteq> TOML_UNKNOWN" using False p(8) [OF m(3)] by simp
      with tab_emplace_typed [OF i(1) this] m i(1) show ?thesis by (simp add: r tab_add_def del: tab_emplace.simps)
    qed
  qed
  then show "built (if e = None then R else owned w + R) h tab' h'" "pools tab' \<subseteq> {q}" "mtype tab' = TOML_TABLE"
    "case e of
       None \<Rightarrow> tab_add (forget tab) (snd key) (forget w) = Inr (forget tab')
     | Some reason \<Rightarrow> tab_add (forget tab) (snd key) (forget w) = Inl reason \<or> grants h \<noteq> [] \<and> reason = ''out of memory''"
    by simp_all
qed

section \<open>Walks\<close>

definition refused :: "string \<Rightarrow> bool" where
  "refused e \<longleftrightarrow>
     e = ''out of memory'' \<or> (\<exists>ln. e = seterror ln ''out of memory'') \<or> (\<exists>ln. e = seterror ln ''while parsing array: out of memory'')"

text \<open>
  A step that builds on a tree: it owns what it has built, its keys lie in the pool \<open>q\<close>, its
  strings take no more than \<open>c\<close>, and its answer is that of the value model or a refusal.
\<close>

definition makes :: "ptr \<Rightarrow> ptr multiset \<Rightarrow> heap \<Rightarrow> nat \<Rightarrow> string + 'b \<Rightarrow> (mdatum \<Rightarrow> 'a \<Rightarrow> 'b) \<Rightarrow> 'a made \<Rightarrow> bool" where
  "makes q R h c pure to r \<longleftrightarrow>
     (case r of (d, res, h') \<Rightarrow>
        built R h d h' \<and> pools d \<subseteq> {q} \<and> mcost d \<le> c \<and>
        (case res of Inl e \<Rightarrow> pure = Inl e \<or> grants h \<noteq> [] \<and> refused e | Inr x \<Rightarrow> pure = Inr (to d x)))"

definition walks :: "ptr \<Rightarrow> ptr multiset \<Rightarrow> heap \<Rightarrow> mdatum \<Rightarrow> string + datum \<times> nat list \<Rightarrow> walk \<Rightarrow> bool" where
  "walks q R h tab pure r \<longleftrightarrow>
     makes q R h (mcost tab) pure (\<lambda>d p. (forget d, p)) r \<and> mtype (fst r) = TOML_TABLE \<and>
     (\<forall>p. fst (snd r) = Inr p \<longrightarrow> mpath (fst r) p \<and> mtype (mat (fst r) p) = TOML_TABLE)"

text \<open>What a walk starts from.\<close>

definition tabled :: "ptr \<Rightarrow> ptr multiset \<Rightarrow> heap \<Rightarrow> mdatum \<Rightarrow> bool" where
  "tabled q R h tab \<longleftrightarrow> owns R h tab \<and> mtype tab = TOML_TABLE \<and> pools tab \<subseteq> {q} \<and> q \<in># R"

lemma walks_stop: "tabled q R h tab \<Longrightarrow> pure = Inl e \<Longrightarrow> walks q R h tab pure (tab, Inl e, h)"
  by (auto simp: walks_def makes_def tabled_def built_refl)

lemma walks_here: "tabled q R h tab \<Longrightarrow> walks q R h tab (Inr (forget tab, [])) (tab, Inr [], h)"
  by (auto simp: walks_def makes_def tabled_def built_refl)

lemma tabled_at:
  assumes "tabled q R h tab" and "mpath tab path" and "mtype (mat tab path) = TOML_TABLE"
  shows "tabled q (owned (mput_at tab path MZERO) + R) h (mat tab path)"
  using assms owns_at [of R h tab path] mat_pools [OF assms(2)] by (auto simp: tabled_def)

lemma mtype_put_at: "mpath d p \<Longrightarrow> mtype c = mtype (mat d p) \<Longrightarrow> mtype (mput_at d p c) = mtype d"
  using mput_facts(6) by (cases p) auto

lemma walks_into:
  assumes "tabled q R h tab" and "mpath tab path" and "mtype (mat tab path) = TOML_TABLE"
    and "walks q (owned (mput_at tab path MZERO) + R) h (mat tab path) (pk (datum_at (forget tab) path)) (k (mat tab path) h)"
  shows "walks q R h tab (go_into (forget tab) path pk) (mgo_into tab path k h)"
proof -
  obtain sub r h' where k: "k (mat tab path) h = (sub, r, h')" by (metis prod_cases3)
  have w: "built (owned (mput_at tab path MZERO) + R) h sub h'" "pools sub \<subseteq> {q}" "mcost sub \<le> mcost (mat tab path)"
    "mtype sub = TOML_TABLE" "\<And>p. r = Inr p \<Longrightarrow> mpath sub p \<and> mtype (mat sub p) = TOML_TABLE"
    "case r of Inl e \<Rightarrow> pk (datum_at (forget tab) path) = Inl e \<or> grants h \<noteq> [] \<and> refused e
      | Inr p \<Rightarrow> pk (datum_at (forget tab) path) = Inr (forget sub, p)"
    using assms(4) by (auto simp: walks_def makes_def k)
  have t: "heap_ok h" "roomy h tab" "pools tab \<subseteq> {q}" "mtype tab = TOML_TABLE" using assms(1) by (simp_all add: tabled_def owns_def)
  have "built R h (mput_at tab path sub) h'" by (rule put_at_built [OF t(1,2) assms(2) w(1)])
  moreover have "pools (mput_at tab path sub) \<subseteq> {q}" using mput_at_pools [OF assms(2), of sub] w(2) t(3) by auto
  moreover have "mcost (mput_at tab path sub) \<le> mcost tab" using mcost_put_at [OF assms(2), of sub] w(3) by simp
  moreover have "mtype (mput_at tab path sub) = TOML_TABLE" using mtype_put_at [OF assms(2)] w(4) assms(3) t(4) by metis
  moreover have "mpath (mput_at tab path sub) (path @ p) \<and> mtype (mat (mput_at tab path sub) (path @ p)) = TOML_TABLE"
    if "r = Inr p" for p
    using w(5) [OF that] mpath_put [OF assms(2)] assms(2) by (simp add: mpath_append mat_append)
  ultimately show ?thesis
    using w(6) forget_at(2) [OF assms(2), of sub]
    by (cases r) (auto simp: walks_def makes_def mgo_into_def k go_into_def)
qed

text \<open>Going on below a table, for a walk that is right from every table.\<close>

lemma walks_deeper:
  assumes "tabled q R h tab" and "mpath tab path" and "mtype (mat tab path) = TOML_TABLE"
    and "\<And>R h t. tabled q R h t \<Longrightarrow> walks q R h t (pk (forget t)) (k t h)"
  shows "walks q R h tab (go_into (forget tab) path pk) (mgo_into tab path k h)"
  using assms(4) [OF tabled_at [OF assms(1-3)]] forget_at(1) [OF assms(2)] by (intro walks_into [OF assms(1-3)]) simp

lemma walks_shift:
  assumes "built R h tab1 h1" and "mcost tab1 \<le> mcost tab" and "walks q R h1 tab1 pure r"
  shows "walks q R h tab pure r"
proof -
  obtain d res h' where r: "r = (d, res, h')" by (metis prod_cases3)
  have "built R h1 d h'" using assms(3) by (simp add: walks_def makes_def r)
  moreover have "grants h = [] \<Longrightarrow> grants h1 = []" using assms(1) by (simp add: built_def)
  ultimately show ?thesis
    using assms(2,3) built_then [OF assms(1)] by (auto simp: walks_def makes_def r split: sum.splits)
qed

text \<open>A key that is not there yet.\<close>

lemma mnew_table_simps [simp]:
  "forget (mnew_table std) = new_table std" "owned (mnew_table std) = {#}" "pools (mnew_table std) = {}" "roomy h (mnew_table std)"
  "mcost (mnew_table std) = 0" "msize (mnew_table std) = 0"
  by (simp_all add: mnew_table_def new_table_def)

lemma mnew_type: "dtype (new_table std) = TOML_TABLE"
  by (simp add: new_table_def)

lemma tab_add_last:
  "tab_find d key = None \<Longrightarrow> tab_add d key v = Inr t \<Longrightarrow> 0 < tab_size t \<and> tab_value t (tab_size t - 1) = v"
  by (cases d) (auto simp: tab_add_def nth_append split: if_splits)

lemma tab_size_forget: "mtype d = TOML_TABLE \<Longrightarrow> roomy h d \<Longrightarrow> tab_size (forget d) = msize d"
  by (cases d) auto

lemma mnew_added:
  assumes "tabled q R h tab" and "tab_find (forget tab) (snd key) = None" and "fst key = q"
    and "roomy h w" and "owned w = {#}" and "pools w \<subseteq> {q}" and "mcost w = 0" and "mtab_add tab key w h = (tab', e, h')"
  shows "built R h tab' h'" "tabled q R h' tab'" "mcost tab' \<le> mcost tab"
    "e = None \<Longrightarrow> tab_add (forget tab) (snd key) (forget w) = Inr (forget tab') \<and> msize tab' = tab_size (forget tab') \<and>
       mpath tab' [msize tab' - 1] \<and> forget (mvalue tab' (msize tab' - 1)) = forget w"
    "e = Some reason \<Longrightarrow> tab_add (forget tab) (snd key) (forget w) = Inl reason \<or> grants h \<noteq> [] \<and> reason = ''out of memory''"
proof -
  have o: "owns (owned w + R) h tab" "mtype tab = TOML_TABLE" "pools tab \<subseteq> {q}" "q \<in># R"
    using assms(1,5) by (simp_all add: tabled_def)
  note m = mtab_add_built [OF o(1,2) assms(4,6) o(3) assms(3) o(4) assms(8)]
  show b: "built R h tab' h'" using m(1) assms(5) by (simp split: if_splits)
  then have own: "owns R h' tab'" by (simp add: built_def)
  with m(2,3) o(4) show "tabled q R h' tab'" by (simp add: tabled_def)
  show "mcost tab' \<le> mcost tab" using mtab_add_cost [OF assms(8)] assms(7) by (simp split: if_splits)
  show "e = Some reason \<Longrightarrow> tab_add (forget tab) (snd key) (forget w) = Inl reason \<or> grants h \<noteq> [] \<and> reason = ''out of memory''"
    using m(4) by simp
  assume e: "e = None"
  have add: "tab_add (forget tab) (snd key) (forget w) = Inr (forget tab')" using m(4) e by simp
  have size: "msize tab' = tab_size (forget tab')" using tab_size_forget [of tab' h'] m(3) own by (simp add: owns_def)
  note last = tab_add_last [OF assms(2) add]
  have "msize tab' - 1 < msize tab'" using last size by simp
  with mput_facts(8) [OF this m(3)] add size last
  show "tab_add (forget tab) (snd key) (forget w) = Inr (forget tab') \<and> msize tab' = tab_size (forget tab') \<and>
       mpath tab' [msize tab' - 1] \<and> forget (mvalue tab' (msize tab' - 1)) = forget w" by simp
qed

lemma walks_new:
  assumes "tabled q R h tab" and "tab_find (forget tab) (snd key) = None" and "fst key = q"
    and "\<And>R h t. tabled q R h t \<Longrightarrow> walks q R h t (pk (forget t)) (k t h)"
  shows "walks q R h tab
    (case tab_add (forget tab) (snd key) (new_table std) of
       Inl reason \<Rightarrow> Inl (seterror ln reason)
     | Inr tab' \<Rightarrow> go_into tab' [tab_size tab' - 1] pk) (mgo_new ln std tab key k h)"
proof -
  obtain tab' e h' where a: "mtab_add tab key (mnew_table std) h = (tab', e, h')" by (metis prod_cases3)
  note m = mnew_added [OF assms(1-3) _ _ _ _ a, simplified]
  show ?thesis
  proof (cases e)
    case (Some reason)
    then show ?thesis
      using m(1-3) m(5) [OF Some] a by (auto simp: mgo_new_def walks_def makes_def tabled_def refused_def)
  next
    case None
    note n = m(4) [OF None]
    have "forget (mvalue tab' (msize tab' - 1)) = new_table std" using n unfolding One_nat_def by blast
    then have t: "mtype (mat tab' [msize tab' - 1]) = TOML_TABLE" by (simp only: mat.simps mnew_type)
    have p: "mpath tab' [msize tab' - 1]" using n by simp
    have "walks q R h' tab' (go_into (forget tab') [msize tab' - 1] pk) (mgo_into tab' [msize tab' - 1] k h')"
      by (rule walks_deeper [OF m(2) p t assms(4)])
    from walks_shift [OF m(1,3) this] show ?thesis using n by (simp add: mgo_new_def a None)
  qed
qed

section \<open>The three walks\<close>

text \<open>What a key that is there leads to.\<close>

lemma walk_found:
  assumes "tabled q R h tab" and "tab_find (forget tab) key = Some j"
  obtains
    (table) f k l v kvs where "mvalue tab j = MTable f k l v kvs" "tab_value (forget tab) j = DTable f (plain_entries kvs)"
      "mpath tab [j]" "mtype (mat tab [j]) = TOML_TABLE" "mpeek tab j h = h"
  | (array) f p xs where "mvalue tab j = MArray f p xs" "tab_value (forget tab) j = DArray f (map forget xs)" "mpeek tab j h = h"
      "xs \<noteq> [] \<Longrightarrow> mpeek (MArray f p xs) (length xs - 1) h = h \<and> mpath tab [j, length xs - 1] \<and> mat tab [j, length xs - 1] = last xs"
  | (plain) d where "mvalue tab j = MPlain d" "tab_value (forget tab) j = d" "dtype d \<notin> {TOML_STRING, TOML_ARRAY, TOML_TABLE}"
      "mpeek tab j h = h"
  | (quoted) f s where "mvalue tab j = MString f s" "tab_value (forget tab) j = DString f (snd s)" "mpeek tab j h = h"
proof -
  have t: "heap_ok h" "roomy h tab" "mtype tab = TOML_TABLE" using assms(1) by (simp_all add: tabled_def owns_def)
  have j: "j < msize tab" using tab_find_at [OF assms(2)] tab_size_forget [OF t(3,2)] by simp
  have pk: "mpeek tab j h = h" by (rule peek_ok [OF t(1,2) j])
  have r: "roomy h (mvalue tab j)" by (rule roomy_child [OF t(2) j])
  have v: "tab_value (forget tab) j = forget (mvalue tab j)" by (rule mput_facts(8) [OF j t(3), symmetric])
  show thesis
  proof (cases "mvalue tab j")
    case (MPlain d)
    with that(3) [of d] v r pk show thesis by simp
  next
    case (MString f s)
    with that(4) v pk show thesis by simp
  next
    case (MArray f p xs)
    have "mpeek (MArray f p xs) (length xs - 1) h = h \<and> mpath tab [j, length xs - 1] \<and> mat tab [j, length xs - 1] = last xs" if "xs \<noteq> []"
      using peek_ok [OF t(1), of "MArray f p xs" "length xs - 1"] r j that MArray by (simp add: last_conv_nth)
    with that(2) MArray v pk show thesis by simp
  next
    case (MTable f k l v' kvs)
    with that(1) v j pk show thesis by simp
  qed
qed

lemma mdescend_ok:
  "tabled q R h tab \<Longrightarrow> \<forall>key \<in> set keys. fst key = q \<Longrightarrow>
     walks q R h tab (descend_keypart ln (forget tab) (map snd keys) std) (mdescend ln tab keys std h)"
proof (induction keys arbitrary: R h tab)
  case Nil
  then show ?case by (simp add: walks_here)
next
  case (Cons key keys)
  note t = Cons.prems(1)
  have key: "fst key = q" "\<forall>key \<in> set keys. fst key = q" using Cons.prems(2) by simp_all
  note IH = Cons.IH [OF _ key(2)]
  have find: "mtab_find tab key h = (tab_find (forget tab) (snd key), h)"
    using t key(1) by (intro mtab_find_ok) (auto simp: tabled_def)
  show ?case
  proof (cases "tab_find (forget tab) (snd key)")
    case None
    with walks_new [OF t None key(1) IH] find show ?thesis by simp
  next
    case (Some j)
    show ?thesis
      using t Some
    proof (cases rule: walk_found)
      case (table f k l v kvs)
      from walks_deeper [OF t table(3,4) IH] table(1,2,5) find Some
      show ?thesis by simp
    next
      case (array f p xs)
      show ?thesis
      proof (cases "xs \<noteq> [] \<and> mtype (last xs) = TOML_TABLE")
        case True
        then have a: "mpath tab [j, length xs - 1]" "mtype (mat tab [j, length xs - 1]) = TOML_TABLE" "mpeek (MArray f p xs) (length xs - 1) h = h"
          using array(4) by simp_all
        from walks_deeper [OF t a(1,2) IH] array(1-3) a(3) True find Some
        show ?thesis by (simp add: last_map)
      next
        case False
        then show ?thesis using t array find Some by (auto simp: last_map intro!: walks_stop)
      qed
    next
      case (plain d)
      then show ?thesis using t find Some by (cases d) (auto intro!: walks_stop)
    next
      case (quoted f s)
      then show ?thesis using t find Some by (auto intro!: walks_stop)
    qed
  qed
qed

lemma marray_walk_ok:
  "tabled q R h tab \<Longrightarrow> \<forall>key \<in> set keys. fst key = q \<Longrightarrow>
     walks q R h tab (array_walk ln (forget tab) (map snd keys)) (marray_walk ln tab keys h)"
proof (induction keys arbitrary: R h tab)
  case Nil
  then show ?case by (simp add: walks_here)
next
  case (Cons key keys)
  note t = Cons.prems(1)
  have key: "fst key = q" "\<forall>key \<in> set keys. fst key = q" using Cons.prems(2) by simp_all
  note IH = Cons.IH [OF _ key(2)]
  have find: "mtab_find tab key h = (tab_find (forget tab) (snd key), h)"
    using t key(1) by (intro mtab_find_ok) (auto simp: tabled_def)
  show ?case
  proof (cases "tab_find (forget tab) (snd key)")
    case None
    with walks_new [OF t None key(1) IH] find show ?thesis by simp
  next
    case (Some j)
    show ?thesis
      using t Some
    proof (cases rule: walk_found)
      case (table f k l v kvs)
      from walks_deeper [OF t table(3,4) IH] table(1,2,5) find Some
      show ?thesis by simp
    next
      case (array f p xs)
      show ?thesis
      proof (cases "\<not> has_flag FLAG_INLINED (DArray f (map forget xs)) \<and> xs \<noteq> [] \<and> mtype (last xs) = TOML_TABLE")
        case True
        then have a: "mpath tab [j, length xs - 1]" "mtype (mat tab [j, length xs - 1]) = TOML_TABLE" "mpeek (MArray f p xs) (length xs - 1) h = h"
          using array(4) by simp_all
        from walks_deeper [OF t a(1,2) IH] array(1-3) a(3) True find Some
        show ?thesis by (simp add: last_map)
      next
        case False
        then show ?thesis using t array find Some by (auto simp: last_map intro!: walks_stop)
      qed
    next
      case (plain d)
      then show ?thesis using t find Some by (cases d) (auto intro!: walks_stop)
    next
      case (quoted f s)
      then show ?thesis using t find Some by (auto intro!: walks_stop)
    qed
  qed
qed

lemma mkeyvalue_walk_ok:
  "tabled q R h tab \<Longrightarrow> \<forall>key \<in> set keys. fst key = q \<Longrightarrow>
     walks q R h tab (keyvalue_walk ln first (forget tab) (map snd keys)) (mkeyvalue_walk ln first tab keys h)"
proof (induction keys arbitrary: R h tab first)
  case Nil
  then show ?case by (simp add: walks_here)
next
  case (Cons key keys)
  note t = Cons.prems(1)
  have key: "fst key = q" "\<forall>key \<in> set keys. fst key = q" using Cons.prems(2) by simp_all
  note IH = Cons.IH [OF _ key(2), where first = False]
  have find: "mtab_find tab key h = (tab_find (forget tab) (snd key), h)"
    using t key(1) by (intro mtab_find_ok) (auto simp: tabled_def)
  show ?case
  proof (cases "tab_find (forget tab) (snd key)")
    case None
    with walks_new [OF t None key(1) IH] find t show ?thesis by (auto intro!: walks_stop)
  next
    case (Some j)
    show ?thesis
      using t Some
    proof (cases rule: walk_found)
      case (table f k l v kvs)
      from walks_deeper [OF t table(3,4) IH] table(1,2,5) find Some
      show ?thesis by simp
    next
      case (plain d)
      then show ?thesis using t find Some by (cases d) (auto intro!: walks_stop)
    qed (use t find Some in \<open>auto intro!: walks_stop\<close>)
  qed
qed

section \<open>The reading side\<close>

definition reads :: "reader \<Rightarrow> parser \<Rightarrow> bool" where
  "reads rd pp \<longleftrightarrow>
     scan pp = rd_scan rd \<and> pool_top pp = pl_top (rd_pool rd) \<and> pool_max pp = pl_max (rd_pool rd)"

text \<open>The pool is a live block of the frame, and its fill level is within it.\<close>

definition pooled :: "ptr \<Rightarrow> ptr multiset \<Rightarrow> heap \<Rightarrow> reader \<Rightarrow> bool" where
  "pooled q R h rd \<longleftrightarrow>
     q \<in># R \<and> pl_ptr (rd_pool rd) = q \<and> pl_top (rd_pool rd) \<le> pl_max (rd_pool rd) \<and>
     (\<exists>m. size_of h q = Some m \<and> SIZEOF_POOL + pl_max (rd_pool rd) \<le> m)"

lemma pooled_keep: "pooled q R h rd \<Longrightarrow> keeps_blocks R h h' \<Longrightarrow> pooled q R h' rd"
  by (auto simp: pooled_def keeps_blocks_def)

lemma pooled_scan [simp]: "pooled q R h (rd\<lparr>rd_scan := sp\<rparr>) = pooled q R h rd"
  by (simp add: pooled_def)

lemma reads_scan [simp]: "reads (rd\<lparr>rd_scan := sp\<rparr>) (pp\<lparr>scan := sp\<rparr>) \<longleftrightarrow> pool_top pp = pl_top (rd_pool rd) \<and> pool_max pp = pl_max (rd_pool rd)"
  by (simp add: reads_def)

lemma write_pool_ok: "pooled q R h rd \<Longrightarrow> write_pool rd h = h"
  by (auto simp: pooled_def write_pool_def touch_ok)

text \<open>Strings are read without the tree.\<close>

definition off_tree :: "parser \<Rightarrow> parser" where
  "off_tree pp = pp\<lparr>toptab := DATUM_ZERO, curtab := []\<rparr>"

lemma off_tree_simps [simp]:
  "scan (off_tree pp) = scan pp" "pool_top (off_tree pp) = pool_top pp" "pool_max (off_tree pp) = pool_max pp"
  "off_tree (pp\<lparr>scan := sp\<rparr>) = (off_tree pp)\<lparr>scan := sp\<rparr>"
  by (simp_all add: off_tree_def)

lemma as_parser_reads: "reads rd pp \<Longrightarrow> as_parser rd = off_tree pp"
  by (simp add: reads_def as_parser_def off_tree_def)

abbreviation off_result :: "string + 'a \<times> parser \<Rightarrow> string + 'a \<times> parser" where
  "off_result r \<equiv> map_sum id (map_prod id off_tree) r"

lemma pool_alloc_off: "pool_alloc n (off_tree pp) = map_option off_tree (pool_alloc n pp)"
  by (simp add: pool_alloc_def off_tree_def)

lemma parse_norm_off: "parse_norm tok (off_tree pp) = off_result (parse_norm tok pp)"
  by (auto simp: parse_norm_def pool_alloc_off split: option.splits tokval.splits sum.splits)

lemma key_loop_off: "key_loop parts (off_tree pp) = off_result (key_loop parts pp)"
proof (induction parts pp rule: key_loop.induct)
  case (1 parts pp)
  have n: "parse_norm tok ((off_tree pp)\<lparr>scan := sp\<rparr>) = off_result (parse_norm tok (pp\<lparr>scan := sp\<rparr>))" for tok sp
    using parse_norm_off [of tok "pp\<lparr>scan := sp\<rparr>"] by simp
  show ?case
    by (subst (1 2) key_loop.simps) (use 1 in \<open>auto simp: n Let_def id_def split: sum.splits\<close>)
qed

lemma parse_key_off: "parse_key tok (off_tree pp) = off_result (parse_key tok pp)"
  by (auto simp: parse_key_def parse_norm_off key_loop_off split: sum.splits)

end
