(* ===== verification/Toml_Parse_Values.thy ===== *)
theory Toml_Parse_Values
  imports Toml_Parse_Walks
begin

text \<open>
  Strings, keys and stored values in memory: what \<open>parse_norm\<close> and \<open>parse_key\<close> take from the
  pool, the key of an entry of an inline table, and a value beside the tree that it is for.
\<close>

section \<open>Strings\<close>

text \<open>An escape is never shorter than what it stands for.\<close>

lemma ucs_to_utf8_length: "ucs_to_utf8 u = Some bs \<Longrightarrow> length bs \<le> 4" "u \<le> 0x7F \<Longrightarrow> ucs_to_utf8 u = Some bs \<Longrightarrow> length bs = 1"
  by (auto simp: ucs_to_utf8_def split: if_splits)

lemma digit_nonneg: "0 \<le> digit_value c"
  by (auto simp: digit_value_def digit_def isdigit_def is_lower_def is_upper_def)

lemma strtol16_short: "length buf \<le> 1 \<Longrightarrow> strtol16 buf \<le> 0x7F"
proof -
  assume "length buf \<le> 1"
  then consider "buf = []" | c where "buf = [c]" by (cases buf) auto
  then show ?thesis
  proof cases
    case 2
    have "strtol16 [c] = 0 \<or> (\<exists>v. 0 \<le> v \<and> v < 16 \<and> strtol16 [c] = word_of_int v)"
      using digit_nonneg [of c] by (auto simp: strtol16_def strtoll_def at_def Let_def unsigned_of_int take_bit_int_eq_self)
    moreover have "(word_of_int v :: 32 word) \<le> 0x7F" if "0 \<le> v" "v < 16" for v
      using that by (simp add: word_le_def uint_word_of_int)
    ultimately show ?thesis unfolding 2 by auto
  qed (simp add: strtol16_def strtoll_def at_def)
qed

lemma ucs_escape_length: "ucs_escape ln check buf = Inr bs \<Longrightarrow> length bs \<le> 2 + length buf"
proof -
  assume "ucs_escape ln check buf = Inr bs"
  then have u: "ucs_to_utf8 (strtol16 buf) = Some bs" by (auto simp: ucs_escape_def Let_def split: if_splits option.splits)
  then show ?thesis
    using ucs_to_utf8_length(1) [OF u] ucs_to_utf8_length(2) [OF strtol16_short u] by (cases "length buf \<le> 1") auto
qed

lemma prepend_Inr: "prepend s r = Inr t \<longleftrightarrow> (\<exists>u. r = Inr u \<and> t = s @ u)"
  by (auto simp: prepend_def split: sum.split)

lemma at_length: "at p i \<noteq> NUL \<Longrightarrow> i < length p"
  by (auto simp: at_def split: if_splits)

lemma norm_loop_length: "norm_loop ln p = Inr s \<Longrightarrow> length s \<le> length p"
proof (induction ln p arbitrary: s rule: norm_loop.induct)
  case (1 ln p)
  note eq = "1.prems" [unfolded norm_loop.simps [of ln p]]
  consider (nul) "at p 0 = NUL" | (plain) "at p 0 \<noteq> NUL" "at p 0 \<noteq> BSL"
    | (simple) c where "at p 0 = BSL" "at p 0 \<noteq> NUL" "plain_escape (at p 1) = Some c"
    | (esc) "at p 0 = BSL" "at p 0 \<noteq> NUL" "plain_escape (at p 1) = None" by auto
  then show ?case
  proof cases
    case nul
    with eq show ?thesis by simp
  next
    case plain
    then obtain u where "norm_loop ln (drop 1 p) = Inr u" "s = [at p 0] @ u" using eq by (auto simp: prepend_Inr)
    with "1.IH"(1) [OF plain this(1)] at_length [OF plain(1)] show ?thesis by (cases p) auto
  next
    case simple
    then obtain u where u: "norm_loop ln (drop 2 p) = Inr u" "s = [c] @ u" using eq by (auto simp: prepend_Inr)
    have "at p 1 \<noteq> NUL" using simple(3) by (auto simp: plain_escape_def split: if_splits)
    with "1.IH"(6) [OF simple(2) _ simple(3) u(1)] simple(1) u(2) at_length [of p 1] show ?thesis by simp
  next
    case esc
    note step = eq [unfolded if_not_P [OF esc(2)] esc(1) simp_thms if_False esc(3) option.case]
    show ?thesis
    proof (cases "at p 1 = CHR ''x''")
      case x: True
      then obtain bs u where b: "ucs_escape ln False (take 2 (drop 2 p)) = Inr bs" "norm_loop ln (drop 4 p) = Inr u" "s = bs @ u"
        using step by (auto simp: prepend_Inr split: sum.splits)
      have "length u \<le> length (drop 4 p)" using "1.IH"(2) [OF esc(2) _ esc(3) x b(1,2)] esc(1) by simp
      then show ?thesis using ucs_escape_length [OF b(1)] b(3) at_length [of p 1] x by auto
    next
      case x: False
      show ?thesis
      proof (cases "at p 1 = CHR ''u'' \<or> at p 1 = CHR ''U''")
        case u: True
        let ?sz = "if at p 1 = CHR ''u'' then 4 else 8"
        obtain bs u where b: "ucs_escape ln True (take ?sz (drop 2 p)) = Inr bs" "norm_loop ln (drop (2 + ?sz) p) = Inr u" "s = bs @ u"
          using step x u by (auto simp: prepend_Inr Let_def split: sum.splits)
        have "length u \<le> length (drop (2 + ?sz) p)" using "1.IH"(3) [OF esc(2) _ esc(3) x u refl b(1,2)] esc(1) by simp
        then show ?thesis using ucs_escape_length [OF b(1)] b(3) at_length [of p 1] u by auto
      next
        case u: False
        show ?thesis
        proof (cases "at p 1 \<in> {CHR '' '', TAB, CR}")
          case True
          let ?q = "drop (strspn (drop 1 p) [CHR '' '', TAB, CR]) (drop 1 p)"
          have r: "at ?q 0 = LF" "norm_loop ln (drop (strspn (drop 1 ?q) [CHR '' '', TAB, CR, LF]) (drop 1 ?q)) = Inr s"
            using step x u True by (auto simp: Let_def split: if_splits)
          have "length s \<le> length (drop (strspn (drop 1 ?q) [CHR '' '', TAB, CR, LF]) (drop 1 ?q))"
            using "1.IH"(4) [OF esc(2) _ esc(3) x u True refl _ r(2)] esc(1) r(1) by simp
          then show ?thesis by simp
        next
          case w: False
          then have r: "at p 1 = LF" "norm_loop ln (drop (strspn (drop 1 p) [CHR '' '', TAB, CR, LF]) (drop 1 p)) = Inr s"
            using step x u by (auto split: if_splits)
          have "length s \<le> length (drop (strspn (drop 1 p) [CHR '' '', TAB, CR, LF]) (drop 1 p))"
            using "1.IH"(5) [OF esc(2) _ esc(3) x u w r] esc(1) by simp
          then show ?thesis by simp
        qed
      qed
    qed
  qed
qed

lemma parse_norm_length: "parse_norm tok pp = Inr (s, pp') \<Longrightarrow> length s \<le> length (tok_str tok)"
proof -
  assume a: "parse_norm tok pp = Inr (s, pp')"
  have "length (take e (tok_str tok) @ u) \<le> length (tok_str tok)" if "norm_loop ln (drop e (tok_str tok)) = Inr u" for ln e u
    using norm_loop_length [OF that] by simp
  with a show ?thesis by (fastforce simp: parse_norm_def split: option.splits if_splits tokval.splits sum.splits)
qed

text \<open>The fill level rises by what is taken, and stays within the pool.\<close>

definition fills :: "parser \<Rightarrow> parser \<Rightarrow> bool" where
  "fills pp pp' \<longleftrightarrow>
     pool_max pp' = pool_max pp \<and> pool_top pp \<le> pool_top pp' \<and> (pool_top pp \<le> pool_max pp \<longrightarrow> pool_top pp' \<le> pool_max pp')"

lemma fills_simps [simp]: "fills pp pp" "fills (pp\<lparr>scan := sp\<rparr>) pp' = fills pp pp'" "fills pp (pp'\<lparr>scan := sp\<rparr>) = fills pp pp'"
  by (simp_all add: fills_def)

lemma fills_trans: "fills pp pp1 \<Longrightarrow> fills pp1 pp2 \<Longrightarrow> fills pp pp2"
  by (auto simp: fills_def)

lemma parse_norm_fills:
  "parse_norm tok pp = Inr (s, pp') \<Longrightarrow> fills pp pp' \<and> scan pp' = scan pp \<and> pool_top pp' = pool_top pp + length (tok_str tok) + 1"
  by (auto simp: parse_norm_def pool_alloc_def fills_def split: option.splits if_splits tokval.splits sum.splits)

lemma key_loop_fills: "key_loop parts pp = Inr (keys, pp') \<Longrightarrow> fills pp pp'"
proof (induction parts pp rule: key_loop.induct)
  case (1 parts pp)
  obtain tok sp1 where s1: "scan_key (scan pp) = Inr (tok, sp1)"
    using "1.prems" by (cases "scan_key (scan pp)") (auto simp: key_loop.simps [of parts pp])
  show ?case
  proof (cases "toktyp tok = TOK_DOT")
    case False
    with "1.prems" s1 show ?thesis by (auto simp: key_loop.simps [of parts pp] Let_def)
  next
    case True
    obtain tok2 sp2 s pp1 where n: "scan_key sp1 = Inr (tok2, sp2)" "is_keypart tok2" "\<not> KEYPARTMAX \<le> length parts"
      "parse_norm tok2 (pp\<lparr>scan := sp2\<rparr>) = Inr (s, pp1)" "key_loop (parts @ [s]) pp1 = Inr (keys, pp')"
      using "1.prems" s1 True by (auto simp: key_loop.simps [of parts pp] Let_def split: if_splits sum.splits)
    have "fills pp1 pp'"
      using "1.IH" [OF refl s1 refl _ n(1) refl _ _ n(4) refl n(5)] True n(2,3) by simp
    then show ?thesis using parse_norm_fills [OF n(4)] by (auto intro: fills_trans)
  qed
qed

lemma parse_key_fills: "parse_key tok pp = Inr (keys, pp') \<Longrightarrow> fills pp pp'"
  by (auto simp: parse_key_def split: sum.splits if_splits dest!: parse_norm_fills key_loop_fills intro: fills_trans)

section \<open>Strings and keys in the pool\<close>

definition pool_on :: "reader \<Rightarrow> reader \<Rightarrow> bool" where
  "pool_on rd rd' \<longleftrightarrow>
     pl_ptr (rd_pool rd') = pl_ptr (rd_pool rd) \<and> pl_max (rd_pool rd') = pl_max (rd_pool rd) \<and>
     pl_top (rd_pool rd) \<le> pl_top (rd_pool rd') \<and>
     (pl_top (rd_pool rd) \<le> pl_max (rd_pool rd) \<longrightarrow> pl_top (rd_pool rd') \<le> pl_max (rd_pool rd'))"

lemma pool_on_simps [simp]: "pool_on rd rd" "pool_on (rd\<lparr>rd_scan := sp\<rparr>) rd' = pool_on rd rd'" "pool_on rd (rd'\<lparr>rd_scan := sp\<rparr>) = pool_on rd rd'"
  by (simp_all add: pool_on_def)

lemma pool_on_trans: "pool_on rd rd1 \<Longrightarrow> pool_on rd1 rd2 \<Longrightarrow> pool_on rd rd2"
  by (auto simp: pool_on_def)

lemma pooled_on: "pooled q R h rd \<Longrightarrow> pool_on rd rd' \<Longrightarrow> keeps_blocks R h h' \<Longrightarrow> pooled q R h' rd'"
  by (auto simp: pooled_def pool_on_def keeps_blocks_def)

lemma as_reader_off [simp]: "as_reader rd (off_tree pp) = as_reader rd pp"
  by (simp add: as_reader_def)

lemma fills_reads:
  assumes "reads rd pp" and "fills pp pp'"
  shows "reads (as_reader rd pp') pp' \<and> pool_on rd (as_reader rd pp')"
  using assms by (auto simp: reads_def fills_def as_reader_def pool_on_def)

lemma mparse_norm_ok:
  assumes "pooled q R h rd" and "reads rd pp"
  shows "mparse_norm tok rd h =
    (case parse_norm tok pp of Inl e \<Rightarrow> Inl e | Inr (s, pp') \<Rightarrow> Inr ((q, s), as_reader rd pp'), h)"
proof -
  have q: "pl_ptr (rd_pool rd) = q" using assms(1) by (simp add: pooled_def)
  have w: "write_pool (as_reader rd pp') h = h" if "parse_norm tok pp = Inr (s, pp')" for s pp'
    using fills_reads [OF assms(2)] parse_norm_fills [OF that] pooled_on [OF assms(1) _ keeps_blocks_refl] by (intro write_pool_ok [of q R]) auto
  show ?thesis
    using w by (auto simp: mparse_norm_def as_parser_reads [OF assms(2)] parse_norm_off write_pool_ok [OF assms(1)] q split: sum.splits)
qed

lemma mparse_key_ok:
  assumes "pooled q R h rd" and "reads rd pp"
  shows "mparse_key tok rd h =
    (case parse_key tok pp of Inl e \<Rightarrow> Inl e | Inr (keys, pp') \<Rightarrow> Inr (map (Pair q) keys, as_reader rd pp'), h)"
proof -
  have q: "pl_ptr (rd_pool rd) = q" using assms(1) by (simp add: pooled_def)
  have w: "write_pool (as_reader rd pp') h = h" if "parse_key tok pp = Inr (s, pp')" for s pp'
    using fills_reads [OF assms(2)] parse_key_fills [OF that] pooled_on [OF assms(1) _ keeps_blocks_refl] by (intro write_pool_ok [of q R]) auto
  show ?thesis
    using w by (auto simp: mparse_key_def as_parser_reads [OF assms(2)] parse_key_off write_pool_ok [OF assms(1)] q split: sum.splits)
qed

section \<open>Values\<close>

text \<open>
  What parsing a value owes: the value owns what it has built, takes no more of the pool than
  was filled, and is the one of \<open>Toml_Parser\<close>; a failure is one of it, or a refusal.
\<close>

definition vmakes :: "ptr \<Rightarrow> ptr multiset \<Rightarrow> heap \<Rightarrow> reader \<Rightarrow> nat \<Rightarrow> (string + datum \<times> parser) option \<Rightarrow> reader made option \<Rightarrow> bool" where
  "vmakes q R h rd c pure r \<longleftrightarrow>
     (case r of
        None \<Rightarrow> pure = None
      | Some (d, res, h') \<Rightarrow>
          built R h d h' \<and> pools d \<subseteq> {q} \<and>
          (case res of
             Inl e \<Rightarrow> pure = Some (Inl e) \<or> grants h \<noteq> [] \<and> refused e
           | Inr rd' \<Rightarrow> (\<exists>pp'. pure = Some (Inr (forget d, pp')) \<and> reads rd' pp') \<and> pool_on rd rd' \<and>
               mcost d + pl_top (rd_pool rd) \<le> c + pl_top (rd_pool rd')))"

lemma vmakes_fail: "built R h d h' \<Longrightarrow> pools d \<subseteq> {q} \<Longrightarrow> pure = Some (Inl e) \<or> grants h \<noteq> [] \<and> refused e \<Longrightarrow>
    vmakes q R h rd c pure (Some (d, Inl e, h'))"
  by (simp add: vmakes_def)

lemma vmakes_value:
  "built R h d h' \<Longrightarrow> pools d \<subseteq> {q} \<Longrightarrow> pure = Some (Inr (forget d, pp')) \<Longrightarrow> reads rd' pp' \<Longrightarrow> pool_on rd rd' \<Longrightarrow>
     mcost d + pl_top (rd_pool rd) \<le> c + pl_top (rd_pool rd') \<Longrightarrow> vmakes q R h rd c pure (Some (d, Inr rd', h'))"
  by (auto simp: vmakes_def)

lemma vmakes_shift:
  assumes "built R h d1 h1" and "pool_on rd rd1" and "c1 + pl_top (rd_pool rd) \<le> c + pl_top (rd_pool rd1)"
    and "vmakes q R h1 rd1 c1 pure r"
  shows "vmakes q R h rd c pure r"
proof (cases r)
  case (Some a)
  obtain d res h' where a: "a = (d, res, h')" by (metis prod_cases3)
  have "built R h1 d h'" using assms(4) by (simp add: vmakes_def Some a)
  moreover have "grants h = [] \<Longrightarrow> grants h1 = []" using assms(1) by (simp add: built_def)
  ultimately show ?thesis
    using assms(2-4) built_then [OF assms(1)] by (auto simp: vmakes_def Some a split: sum.splits intro: pool_on_trans)
qed (use assms(4) in \<open>simp add: vmakes_def\<close>)

lemma vmakes_scan: "vmakes q R h (rd\<lparr>rd_scan := sp\<rparr>) c pure r \<longleftrightarrow> vmakes q R h rd c pure r"
  by (auto simp: vmakes_def split: option.splits sum.splits)

lemma built_self: "owns R h d \<Longrightarrow> roomy h d' \<Longrightarrow> owned d' = owned d \<Longrightarrow> built R h d' h"
  by (simp add: built_def owns_def)

lemma mtoken_to_string_ok:
  assumes "heap_ok h" and "alive h = R" and "pooled q R h rd" and "reads rd pp"
  shows "vmakes q R h rd 0 (Some (token_to_string tok pp)) (Some (mtoken_to_string tok rd h))"
proof (cases "parse_norm tok pp")
  case (Inl e)
  have "built R h (MPlain (DUnknown 0)) h" using assms(1,2) by (simp add: built_def owns_def)
  with Inl show ?thesis
    by (simp add: mtoken_to_string_def token_to_string_def mparse_norm_ok [OF assms(3,4)] vmakes_fail)
next
  case (Inr a)
  obtain s pp' where a: "a = (s, pp')" by (cases a)
  note f = parse_norm_fills [OF Inr [unfolded a]]
  have c: "mcost (MString 0 (q, s)) + pl_top (rd_pool rd) \<le> 0 + pl_top (rd_pool (as_reader rd pp'))"
    using f parse_norm_length [OF Inr [unfolded a]] assms(4) by (simp add: reads_def as_reader_def)
  have "built R h (MString 0 (q, s)) h" using assms(1,2) by (simp add: built_def owns_def)
  from vmakes_value [OF this _ _ _ _ c, of q _ pp'] show ?thesis
    using f fills_reads [OF assms(4)] Inr a
    by (simp add: mtoken_to_string_def token_to_string_def mparse_norm_ok [OF assms(3,4)])
qed

text \<open>Storing at a place.\<close>

lemma mstore_ok:
  assumes "owns (owned v + R) h tab" and "mpath tab path" and "mtype (mat tab path) = TOML_TABLE" and "pools tab \<subseteq> {q}"
    and "roomy h v" and "pools v \<subseteq> {q}" and "fst key = q" and "q \<in># R" and "mstore tab path key v h = (tab', e, h')"
  shows "built R h tab' h'" "pools tab' \<subseteq> {q}" "mtype tab' = mtype tab" "mcost tab' \<le> mcost tab + mcost v" "mpath tab' path"
    "case e of
       None \<Rightarrow> \<exists>t. tab_add (forget (mat tab path)) (snd key) (forget v) = Inr t \<and> forget tab' = put_at (forget tab) path t
     | Some reason \<Rightarrow> tab_add (forget (mat tab path)) (snd key) (forget v) = Inl reason \<or> grants h \<noteq> [] \<and> reason = ''out of memory''"
proof -
  let ?rest = "owned (mput_at tab path MZERO)"
  have h: "heap_ok h" "roomy h tab" using assms(1) by (simp_all add: owns_def)
  obtain t e1 h1 where a: "mtab_add (mat tab path) key v h = (t, e1, h1)" by (metis prod_cases3)
  have o: "owns (owned v + (?rest + R)) h (mat tab path)"
    using owns_at [OF assms(1,2)] by (simp add: ac_simps)
  have p: "pools (mat tab path) \<subseteq> {q}" "q \<in># ?rest + R" using mat_pools [OF assms(2)] assms(4,8) by auto
  note m = mtab_add_built [OF o assms(3,5,6) p(1) assms(7) p(2) a]
  have b: "built (if e1 = None then R else owned v + R) h (mput_at tab path t) h1"
    by (rule put_at_built [OF h assms(2)]) (use m(1) in \<open>cases e1; simp add: ac_simps\<close>)
  have eq: "tab' = mput_at tab path t" "e = e1" "h' = (if e1 = None then h1 else mfree v h1)"
    using assms(9) a by (auto simp: mstore_def split: option.splits)
  show "built R h tab' h'" using b built_drop [OF _ h(1) assms(5)] by (auto simp: eq split: if_splits)
  show "pools tab' \<subseteq> {q}" using mput_at_pools [OF assms(2), of t] m(2) assms(4) by (auto simp: eq)
  show "mtype tab' = mtype tab" unfolding eq(1) using m(3) assms(3) by (intro mtype_put_at [OF assms(2)]) simp
  show "mpath tab' path" unfolding eq(1) by (rule mpath_put [OF assms(2)])
  show "mcost tab' \<le> mcost tab + mcost v"
    using mcost_put_at [OF assms(2), of t] mtab_add_cost [OF a] unfolding eq(1) by (simp split: if_splits)
  show "case e of
       None \<Rightarrow> \<exists>t. tab_add (forget (mat tab path)) (snd key) (forget v) = Inr t \<and> forget tab' = put_at (forget tab) path t
     | Some reason \<Rightarrow> tab_add (forget (mat tab path)) (snd key) (forget v) = Inl reason \<or> grants h \<noteq> [] \<and> reason = ''out of memory''"
    using m(4) forget_at(2) [OF assms(2), of t] by (simp add: eq split: option.splits)
qed

text \<open>The key of an entry of an inline table.\<close>

definition keyed :: "ptr \<Rightarrow> ptr multiset \<Rightarrow> heap \<Rightarrow> reader \<Rightarrow> mdatum \<Rightarrow> string + datum \<times> nat list \<times> string \<times> token \<times> parser \<Rightarrow>
    (nat list \<times> span \<times> token \<times> reader) made \<Rightarrow> bool" where
  "keyed q R h rd tab pure r \<longleftrightarrow>
     (case r of (d, res, h') \<Rightarrow>
        built R h d h' \<and> tabled q R h' d \<and> mcost d \<le> mcost tab \<and>
        (case res of
           Inl e \<Rightarrow> pure = Inl e \<or> grants h \<noteq> [] \<and> refused e
         | Inr (path, key, val, rd') \<Rightarrow>
             (\<exists>pp'. pure = Inr (forget d, path, snd key, val, pp') \<and> reads rd' pp') \<and> pool_on rd rd' \<and> fst key = q \<and>
             mpath d path \<and> mtype (mat d path) = TOML_TABLE))"

lemma tabled_built: "built R h d h' \<Longrightarrow> pools d \<subseteq> {q} \<Longrightarrow> mtype d = TOML_TABLE \<Longrightarrow> q \<in># R \<Longrightarrow> tabled q R h' d"
  by (simp add: tabled_def built_def)

lemma keyed_fail:
  "built R h d h' \<Longrightarrow> tabled q R h' d \<Longrightarrow> mcost d \<le> mcost tab \<Longrightarrow> pure = Inl e \<or> grants h \<noteq> [] \<and> refused e \<Longrightarrow>
     keyed q R h rd tab pure (d, Inl e, h')"
  by (simp add: keyed_def)

lemma set_flag_at:
  fixes g :: flag
  assumes "tabled q R h d" and "mpath d path"
  defines "d' \<equiv> mput_at d path (mset_flag g (mat d path))"
  shows "tabled q R h d'" "built R h d h1 \<Longrightarrow> h1 = h \<Longrightarrow> built R h d' h" "mcost d' = mcost d" "mpath d' path"
    "forget d' = put_at (forget d) path (set_flag g (datum_at (forget d) path))" "mat d' path = mset_flag g (mat d path)"
proof -
  have t: "owns R h d" "mtype d = TOML_TABLE" "pools d \<subseteq> {q}" "q \<in># R" using assms(1) by (simp_all add: tabled_def)
  have "built (owned (mput_at d path MZERO) + R) h (mset_flag g (mat d path)) h"
    using owns_at [OF t(1) assms(2)] by (simp add: built_def owns_def)
  then have b: "built R h d' h" unfolding d'_def by (intro put_at_built [OF _ _ assms(2)]) (use t(1) in \<open>simp_all add: owns_def\<close>)
  then show "built R h d h1 \<Longrightarrow> h1 = h \<Longrightarrow> built R h d' h" by simp
  have "pools d' \<subseteq> {q}" using mput_at_pools [OF assms(2), of "mset_flag g (mat d path)"] mat_pools [OF assms(2)] t(3) by (auto simp: d'_def)
  moreover have "mtype d' = TOML_TABLE" using mtype_put_at [OF assms(2), of "mset_flag g (mat d path)"] t(2) by (simp add: d'_def)
  ultimately show "tabled q R h d'" using b t(4) by (simp add: tabled_def built_def)
  show "mcost d' = mcost d" using mcost_put_at [OF assms(2), of "mset_flag g (mat d path)"] by (simp add: d'_def)
  show "mpath d' path" "mat d' path = mset_flag g (mat d path)" using assms(2) by (simp_all add: d'_def mpath_put)
  show "forget d' = put_at (forget d) path (set_flag g (datum_at (forget d) path))"
    by (simp add: d'_def forget_at [OF assms(2)])
qed

lemma butlast_pair: "butlast (map (Pair q) keys) = map (Pair q) (butlast keys)" "map snd (map (Pair q) keys) = keys"
  by (simp_all add: map_butlast comp_def)

text \<open>From the key on: the entry's table is flagged, then the equal sign and the token of the value.\<close>

lemma inline_equal_ok:
  assumes "tabled q R h tab" and "built R h0 tab h" and "mcost tab \<le> mcost tab0" and "mpath tab path"
    and "mtype (mat tab path) = TOML_TABLE" and "reads rd1 pp1" and "pool_on rd rd1" and "fst key = q" and "snd key = name"
  defines "tab2 \<equiv> mput_at tab path (mset_flag FLAG_EXPLICIT (mat tab path))"
  shows "keyed q R h0 rd tab0
    (case scan_value (scan pp1) of
       Inl e \<Rightarrow> Inl e
     | Inr (eq, sp2) \<Rightarrow>
         if toktyp eq = TOK_ENDL then Inl (seterror (tok_lineno eq) ''unexpected newline'')
         else if toktyp eq \<noteq> TOK_EQUAL then Inl (seterror (tok_lineno eq) (''missing '' @ SQ # CHR ''='' # [SQ]))
         else (case scan_value sp2 of
                 Inl e \<Rightarrow> Inl e
               | Inr (val, sp3) \<Rightarrow>
                   Inr (put_at (forget tab) path (set_flag FLAG_EXPLICIT (datum_at (forget tab) path)), path, name, val, pp1\<lparr>scan := sp3\<rparr>)))
    (case scan_value (rd_scan rd1) of
       Inl e \<Rightarrow> (tab2, Inl e, h)
     | Inr (eq, sp2) \<Rightarrow>
         if toktyp eq = TOK_ENDL then (tab2, Inl (seterror (tok_lineno eq) ''unexpected newline''), h)
         else if toktyp eq \<noteq> TOK_EQUAL then (tab2, Inl (seterror (tok_lineno eq) (''missing '' @ SQ # CHR ''='' # [SQ])), h)
         else (case scan_value sp2 of
                 Inl e \<Rightarrow> (tab2, Inl e, h)
               | Inr (val, sp3) \<Rightarrow> (tab2, Inr (path, key, val, rd1\<lparr>rd_scan := sp3\<rparr>), h)))"
proof -
  note f = set_flag_at [OF assms(1,4), where g = FLAG_EXPLICIT, folded tab2_def]
  have b2: "built R h0 tab2 h" "mcost tab2 \<le> mcost tab0"
    using built_then [OF assms(2)] f(2) [OF built_refl] f(3) assms(1,3) by (auto simp: tabled_def)
  note fail = keyed_fail [OF b2(1) f(1) b2(2)]
  have sc: "rd_scan rd1 = scan pp1" "reads (rd1\<lparr>rd_scan := sp\<rparr>) (pp1\<lparr>scan := sp\<rparr>)" "pool_on rd (rd1\<lparr>rd_scan := sp\<rparr>)" for sp
    using assms(6,7) by (auto simp: reads_def intro: pool_on_trans)
  have t2: "mtype (mat tab2 path) = TOML_TABLE" using assms(5) f(6) by simp
  show ?thesis
  proof (cases "scan_value (scan pp1)")
    case (Inl e)
    then show ?thesis by (simp add: sc(1) fail)
  next
    case (Inr a)
    obtain eq sp2 where a: "a = (eq, sp2)" by (cases a)
    show ?thesis
      using f(4,5) b2 f(1) t2 sc assms(8,9) Inr a by (cases "scan_value sp2") (auto simp: fail keyed_def)
  qed
qed

lemma minline_key_ok:
  assumes "tabled q R h tab" and "pooled q R h rd" and "reads rd pp"
  shows "keyed q R h rd tab (inline_key tok (forget tab) pp) (minline_key tok tab rd h)"
proof (cases "parse_key tok pp")
  case (Inl e)
  then show ?thesis
    using assms(1) by (auto simp: minline_key_def inline_key_def mparse_key_ok [OF assms(2,3)] keyed_def built_refl tabled_def)
next
  case (Inr a)
  obtain keys pp1 where a: "a = (keys, pp1)" by (cases a)
  let ?rd1 = "as_reader rd pp1" and ?ks = "map (Pair q) keys"
  have k: "mparse_key tok rd h = (Inr (?ks, ?rd1), h)" "keys \<noteq> []" "reads ?rd1 pp1" "pool_on rd ?rd1"
    using mparse_key_ok [OF assms(2,3), of tok] Inr a parse_key_moves [of tok pp keys pp1] parse_key_fills [of tok pp keys pp1]
      fills_reads [OF assms(3)] by simp_all
  obtain tab1 r h2 where w: "mdescend (tok_lineno tok) tab (butlast ?ks) False h = (tab1, r, h2)" by (metis prod_cases3)
  have wk: "walks q R h tab (descend_keypart (tok_lineno tok) (forget tab) (butlast keys) False) (tab1, r, h2)"
    using mdescend_ok [OF assms(1), of "butlast ?ks" "tok_lineno tok" False] w by (simp add: butlast_pair comp_def)
  then have b: "built R h tab1 h2" "mcost tab1 \<le> mcost tab" "tabled q R h2 tab1"
    using assms(1) by (auto simp: walks_def makes_def intro!: tabled_built) (simp add: tabled_def)
  note defs = minline_key_def inline_key_def k(1) Inr a w prod.case sum.case
  show ?thesis
  proof (cases r)
    case (Inl e)
    then show ?thesis
      using wk b by (auto simp: defs walks_def makes_def intro!: keyed_fail)
  next
    case (Inr path)
    have p: "descend_keypart (tok_lineno tok) (forget tab) (butlast keys) False = Inr (forget tab1, path)" "mpath tab1 path"
      "mtype (mat tab1 path) = TOML_TABLE" using wk Inr by (simp_all add: walks_def makes_def)
    have last: "fst (last ?ks) = q" "snd (last ?ks) = last keys" using k(2) by (simp_all add: last_map)
    note defs2 = defs \<open>r = Inr path\<close> p(1) forget_at(1) [OF p(2)]
    show ?thesis
    proof (cases "has_flag FLAG_INLINED (forget (mat tab1 path))")
      case True
      then show ?thesis using keyed_fail [OF b(1,3,2)] by (simp add: defs2)
    next
      case False
      then have "\<not> has_flag FLAG_INLINED (datum_at (forget tab1) path)" by (simp add: forget_at(1) [OF p(2)])
      with inline_equal_ok [OF b(3,1,2) p(2,3) k(3,4) last] show ?thesis
        unfolding defs2 Let_def by (simp only: if_False)
    qed
  qed
qed

section \<open>A value beside what it is for\<close>

lemma built_from: "keeps_blocks R h h1 \<Longrightarrow> (grants h = [] \<longrightarrow> grants h1 = []) \<Longrightarrow> built R h1 d h2 \<Longrightarrow> built R h d h2"
  by (auto simp: built_def intro: keeps_blocks_trans)

lemma pooled_more: "pooled q R h rd \<Longrightarrow> pooled q (S + R) h rd"
  by (auto simp: pooled_def)

text \<open>A value that fails is freed, and the rest is as before.\<close>

lemma value_dropped:
  assumes "owns R h d" and "built (owned d + R) h v h1"
  shows "built R h d (mfree v h1)"
proof -
  note b = built_beside [OF assms]
  have "freed (owned d + R) h1 (mfree v h1)" by (rule mfree_ok(1) [OF b(2)])
  then have f: "heap_ok (mfree v h1)" "alive (mfree v h1) = owned d + R" "keeps_blocks (owned d + R) h1 (mfree v h1)"
    "grants (mfree v h1) = grants h1" by (simp_all add: freed_def)
  moreover have "roomy (mfree v h1) d" by (rule roomy_keep [OF b(4,5) _ f(3)]) simp
  ultimately show ?thesis
    using b(3,7) keeps_blocks_sub [OF f(3), of R] by (auto simp: built_def owns_def intro: keeps_blocks_trans)
qed

lemma array_element:
  assumes "owns R h arr" and "mtype arr = TOML_ARRAY" and "pools arr \<subseteq> {q}" and "built (owned arr + R) h v h1" and "pools v \<subseteq> {q}"
    and "marr_emplace arr h1 = (arr', res, h2)"
  shows "res = Inl reason \<Longrightarrow> built R h arr' (mfree v h2) \<and> pools arr' \<subseteq> {q} \<and>
      (arr_emplace (forget arr) = Inl reason \<or> grants h \<noteq> [] \<and> reason = ''out of memory'')"
    "res = Inr i \<Longrightarrow> built R h (mput arr' i v) h2 \<and> mtype (mput arr' i v) = TOML_ARRAY \<and> pools (mput arr' i v) \<subseteq> {q} \<and>
      mcost (mput arr' i v) = mcost arr + mcost v \<and> arr_emplace (forget arr) = Inr (forget arr', i) \<and>
      forget (mput arr' i v) = arr_set (forget arr') i (forget v)"
proof -
  note b = built_beside [OF assms(1,4)]
  note m = array_place [OF b(1) assms(2,3,6)]
  show "built R h arr' (mfree v h2) \<and> pools arr' \<subseteq> {q} \<and>
      (arr_emplace (forget arr) = Inl reason \<or> grants h \<noteq> [] \<and> reason = ''out of memory'')" if "res = Inl reason"
    using built_from [OF b(3,7) built_drop [OF m(1) b(4,6)]] m(2,4) that b(7)
    by (auto simp: agrees_def simp del: arr_emplace.simps)
  show "built R h (mput arr' i v) h2 \<and> mtype (mput arr' i v) = TOML_ARRAY \<and> pools (mput arr' i v) \<subseteq> {q} \<and>
      mcost (mput arr' i v) = mcost arr + mcost v \<and> arr_emplace (forget arr) = Inr (forget arr', i) \<and>
      forget (mput arr' i v) = arr_set (forget arr') i (forget v)" if r: "res = Inr i"
  proof -
    have i: "arr_emplace (forget arr) = Inr (forget arr', i)" "i < msize arr'"
      using m(4) r by (simp_all add: agrees_def del: arr_emplace.simps)
    obtain f p xs where arr: "arr = MArray f p xs" using owns_array [OF assms(1,2)] by blast
    have z: "mvalue arr' i = MZERO" "mcost arr' = mcost arr"
      using assms(6) r by (auto simp: arr MZERO_def split: if_splits prod.splits)
    note p = mput_facts [OF i(2)]
    show ?thesis
      using built_from [OF b(3,7) built_attach [OF m(1) b(4,6) i(2)]] z p(4) [of v] p(6) [of v] p(9) [OF m(3), of v] m(2,3) assms(5) i(1)
        mcost_put [OF i(2), of v] by (auto simp: MZERO_def)
  qed
qed

lemma table_entry:
  assumes "tabled q R h tab" and "mpath tab path" and "mtype (mat tab path) = TOML_TABLE" and "fst key = q"
    and "built (owned tab + R) h v h1" and "pools v \<subseteq> {q}" and "mstore tab path key v h1 = (tab', e, h2)"
  shows "built R h tab' h2" "tabled q R h2 tab'" "mcost tab' \<le> mcost tab + mcost v" "mpath tab' path"
    "case e of
       None \<Rightarrow> \<exists>t. tab_add (forget (mat tab path)) (snd key) (forget v) = Inr t \<and> forget tab' = put_at (forget tab) path t
     | Some reason \<Rightarrow> tab_add (forget (mat tab path)) (snd key) (forget v) = Inl reason \<or> grants h \<noteq> [] \<and> reason = ''out of memory''"
proof -
  have t: "owns R h tab" "mtype tab = TOML_TABLE" "pools tab \<subseteq> {q}" "q \<in># R" using assms(1) by (simp_all add: tabled_def)
  note b = built_beside [OF t(1) assms(5)]
  note m = mstore_ok [OF b(1) assms(2,3) t(3) b(6) assms(6,4) t(4) assms(7)]
  show r: "built R h tab' h2" by (rule built_from [OF b(3,7) m(1)])
  show "tabled q R h2 tab'" using r m(2,3) t(2,4) by (simp add: tabled_def built_def)
  show "mcost tab' \<le> mcost tab + mcost v" "mpath tab' path" by (rule m(4), rule m(5))
  show "case e of
       None \<Rightarrow> \<exists>t. tab_add (forget (mat tab path)) (snd key) (forget v) = Inr t \<and> forget tab' = put_at (forget tab) path t
     | Some reason \<Rightarrow> tab_add (forget (mat tab path)) (snd key) (forget v) = Inl reason \<or> grants h \<noteq> [] \<and> reason = ''out of memory''"
    using m(6) b(7) by (auto split: option.splits)
qed

lemma flagged_value:
  assumes "owns R h d" and "pools d \<subseteq> {q}" and "reads rd pp"
  shows "case mset_flag_recursive g d h of (c, h') \<Rightarrow>
    vmakes q R h rd (mcost d) (Some (Inr (set_flag_recursive g (forget d), pp))) (Some (c, Inr rd, h'))"
proof -
  obtain c where c: "mset_flag_recursive g d h = (c, h)" "flagged g d c"
    using mset_flag_recursive_ok(1) [of h d g] assms(1) by (auto simp: owns_def)
  then have "built R h c h" using assms(1) by (simp add: built_def owns_def flagged_def)
  with c assms(2,3) show ?thesis by (auto simp: flagged_def intro!: vmakes_value)
qed

end
