(* ===== verification/Toml_Parse_Loops.thy ===== *)
theory Toml_Parse_Loops
  imports Toml_Parse_Values
begin

text \<open>
  The loops of inline arrays and tables in memory, and with them \<open>parse_val\<close>: what has been
  built is owned, is what \<open>Toml_Parser\<close> computes, and a failure has freed the value it was at.
\<close>

lemma refused_simps [simp]: "refused (seterror ln ''out of memory'')" "refused (seterror ln (''while parsing array: '' @ ''out of memory''))"
  by (auto simp: refused_def)

definition arrayed :: "ptr \<Rightarrow> ptr multiset \<Rightarrow> heap \<Rightarrow> mdatum \<Rightarrow> bool" where
  "arrayed q R h arr \<longleftrightarrow> owns R h arr \<and> mtype arr = TOML_ARRAY \<and> pools arr \<subseteq> {q}"

text \<open>The rounds of the two loops that take a value.\<close>

lemma array_round:
  assumes "arrayed q R h arr" and "pooled q R h rd" and "pool_on rd rd1"
    and "vmakes q (owned arr + R) h rd1 0 pure (mparse_val n tok rd1 h)"
    and IH: "\<And>arr' h' rd' pp'. arrayed q R h' arr' \<Longrightarrow> pooled q R h' rd' \<Longrightarrow> reads rd' pp' \<Longrightarrow>
      vmakes q R h' rd' (mcost arr') (array_loop m (forget arr') True pp') (marray_loop m arr' True rd' h')"
  shows "vmakes q R h rd (mcost arr)
    (case pure of
       None \<Rightarrow> None
     | Some (Inl e) \<Rightarrow> Some (Inl e)
     | Some (Inr (v, pp')) \<Rightarrow>
         (case arr_emplace (forget arr) of
            Inl reason \<Rightarrow> Some (Inl (seterror ln (''while parsing array: '' @ reason)))
          | Inr (arr', i) \<Rightarrow> array_loop m (arr_set arr' i v) True pp'))
    (case mparse_val n tok rd1 h of
       None \<Rightarrow> None
     | Some (v, Inl e, h1) \<Rightarrow> Some (arr, Inl e, mfree v h1)
     | Some (v, Inr rd', h1) \<Rightarrow>
         (case marr_emplace arr h1 of
            (arr', Inl reason, h2) \<Rightarrow> Some (arr', Inl (seterror ln (''while parsing array: '' @ reason)), mfree v h2)
          | (arr', Inr i, h2) \<Rightarrow> marray_loop m (mput arr' i v) True rd' h2))"
proof (cases "mparse_val n tok rd1 h")
  case None
  with assms(4) show ?thesis by (simp add: vmakes_def)
next
  case (Some a)
  obtain v r h1 where a: "a = (v, r, h1)" by (metis prod_cases3)
  note vm = assms(4) [unfolded vmakes_def Some a option.case prod.case]
  have arr: "owns R h arr" "mtype arr = TOML_ARRAY" "pools arr \<subseteq> {q}" using assms(1) by (simp_all add: arrayed_def)
  have b: "built (owned arr + R) h v h1" "pools v \<subseteq> {q}" using vm by simp_all
  show ?thesis
  proof (cases r)
    case (Inl e)
    with vm Some a value_dropped [OF arr(1) b(1)] arr(3) show ?thesis by (auto intro!: vmakes_fail)
  next
    case (Inr rd')
    then obtain pp' where p: "pure = Some (Inr (forget v, pp'))" "reads rd' pp'" "pool_on rd1 rd'"
      "mcost v + pl_top (rd_pool rd1) \<le> pl_top (rd_pool rd')" using vm by auto
    obtain arr' res h2 where e: "marr_emplace arr h1 = (arr', res, h2)" by (metis prod_cases3)
    note el = array_element [OF arr b e]
    show ?thesis
    proof (cases res)
      case (Inl reason)
      with el(1) show ?thesis by (auto simp: Some a \<open>r = Inr rd'\<close> e p(1) simp del: arr_emplace.simps append.simps intro!: vmakes_fail)
    next
      case (Inr i)
      note el2 = el(2) [OF Inr]
      let ?arr = "mput arr' i v"
      have on: "pool_on rd rd'" using pool_on_trans [OF assms(3) p(3)] .
      have "built R h ?arr h2" "mtype ?arr = TOML_ARRAY" "pools ?arr \<subseteq> {q}" using el2 by blast+
      then have h2: "arrayed q R h2 ?arr" "keeps_blocks R h h2" by (simp_all add: arrayed_def built_def)
      have "vmakes q R h2 rd' (mcost ?arr) (array_loop m (forget ?arr) True pp') (marray_loop m ?arr True rd' h2)"
        by (rule IH [OF h2(1) pooled_on [OF assms(2) on h2(2)] p(2)])
      from vmakes_shift [OF _ on _ this, of h ?arr "mcost arr"] el2 p(4) assms(3) show ?thesis
        by (simp add: Some a \<open>r = Inr rd'\<close> e p(1) Inr pool_on_def del: arr_emplace.simps marray_loop.simps array_loop.simps)
    qed
  qed
qed

lemma table_round:
  assumes "tabled q R h tab" and "pooled q R h rd" and "reads rd pp"
    and vals: "\<And>R h rd pp val. heap_ok h \<Longrightarrow> alive h = R \<Longrightarrow> pooled q R h rd \<Longrightarrow> reads rd pp \<Longrightarrow>
      vmakes q R h rd 0 (parse_val n val pp) (mparse_val n val rd h)"
    and IH: "\<And>tab' h' rd' pp'. tabled q R h' tab' \<Longrightarrow> pooled q R h' rd' \<Longrightarrow> reads rd' pp' \<Longrightarrow>
      vmakes q R h' rd' (mcost tab') (table_loop m (forget tab') True pp') (mtable_loop m tab' True rd' h')"
  shows "vmakes q R h rd (mcost tab)
    (case inline_key tok (forget tab) pp of
       Inl e \<Rightarrow> Some (Inl e)
     | Inr (tab', path, key, val, pp1) \<Rightarrow>
         (case parse_val n val pp1 of
            None \<Rightarrow> None
          | Some (Inl e) \<Rightarrow> Some (Inl e)
          | Some (Inr (v, pp2)) \<Rightarrow>
              (case tab_add (datum_at tab' path) key v of
                 Inl reason \<Rightarrow> Some (Inl (seterror (tok_lineno val) reason))
               | Inr t \<Rightarrow> table_loop m (put_at tab' path t) True pp2)))
    (case minline_key tok tab rd h of
       (tab', Inl e, h1) \<Rightarrow> Some (tab', Inl e, h1)
     | (tab', Inr (path, key, val, rd1), h1) \<Rightarrow>
         (case mparse_val n val rd1 h1 of
            None \<Rightarrow> None
          | Some (v, Inl e, h2) \<Rightarrow> Some (tab', Inl e, mfree v h2)
          | Some (v, Inr rd2, h2) \<Rightarrow>
              (case mstore tab' path key v h2 of
                 (tab'', Some reason, h3) \<Rightarrow> Some (tab'', Inl (seterror (tok_lineno val) reason), h3)
               | (tab'', None, h3) \<Rightarrow> mtable_loop m tab'' True rd2 h3)))"
proof -
  obtain tab1 r h1 where k: "minline_key tok tab rd h = (tab1, r, h1)" by (metis prod_cases3)
  note ky = minline_key_ok [OF assms(1-3), of tok, unfolded keyed_def k prod.case]
  then have b: "built R h tab1 h1" "tabled q R h1 tab1" "mcost tab1 \<le> mcost tab" "pools tab1 \<subseteq> {q}" by (simp_all add: tabled_def)
  have h1: "keeps_blocks R h h1" "owns R h1 tab1" "heap_ok h1" "grants h = [] \<longrightarrow> grants h1 = []" using b(1) by (simp_all add: built_def owns_def)
  show ?thesis
  proof (cases r)
    case (Inl e)
    with ky b show ?thesis by (auto simp: k intro!: vmakes_fail)
  next
    case (Inr x)
    then obtain path key val rd1 where x: "r = Inr (path, key, val, rd1)" by (metis prod_cases4)
    then obtain pp1 where p: "inline_key tok (forget tab) pp = Inr (forget tab1, path, snd key, val, pp1)" "reads rd1 pp1" "pool_on rd rd1"
      "fst key = q" "mpath tab1 path" "mtype (mat tab1 path) = TOML_TABLE" using ky by auto
    have "vmakes q (owned tab1 + R) h1 rd1 0 (parse_val n val pp1) (mparse_val n val rd1 h1)"
      using h1 p(2) pooled_more [OF pooled_on [OF assms(2) p(3) h1(1)]] by (intro vals) (auto simp: owns_def)
    note vm = this [unfolded vmakes_def]
    show ?thesis
    proof (cases "mparse_val n val rd1 h1")
      case None
      with vm show ?thesis by (simp add: vmakes_def k x p(1))
    next
      case (Some a)
      obtain v r2 h2 where a: "a = (v, r2, h2)" by (metis prod_cases3)
      have bv: "built (owned tab1 + R) h1 v h2" "pools v \<subseteq> {q}" using vm by (simp_all add: Some a)
      show ?thesis
      proof (cases r2)
        case (Inl e)
        have "built R h tab1 (mfree v h2)" by (rule built_then [OF b(1) value_dropped [OF h1(2) bv(1)]])
        with vm Inl h1(4) b(4) show ?thesis by (auto simp: k x p(1) Some a intro!: vmakes_fail)
      next
        case (Inr rd2)
        then obtain pp2 where pv: "parse_val n val pp1 = Some (Inr (forget v, pp2))" "reads rd2 pp2" "pool_on rd1 rd2"
          "mcost v + pl_top (rd_pool rd1) \<le> pl_top (rd_pool rd2)" using vm by (auto simp: Some a)
        obtain tab2 e h3 where s: "mstore tab1 path key v h2 = (tab2, e, h3)" by (metis prod_cases3)
        note te = table_entry [OF b(2) p(5,6,4) bv s]
        have b3: "built R h tab2 h3" by (rule built_then [OF b(1) te(1)])
        have on: "pool_on rd rd2" by (rule pool_on_trans [OF p(3) pv(3)])
        have add: "datum_at (forget tab1) path = forget (mat tab1 path)" by (simp add: forget_at(1) [OF p(5)])
        note defs = k x p(1) Some a Inr pv(1) s add prod.case sum.case option.case
        show ?thesis
        proof (cases e)
          case (Some reason)
          with te(2,5) b3 h1(4) show ?thesis unfolding defs by (auto simp: tabled_def intro!: vmakes_fail)
        next
          case None
          then obtain t where t: "tab_add (forget (mat tab1 path)) (snd key) (forget v) = Inr t" "forget tab2 = put_at (forget tab1) path t"
            using te(5) by auto
          have "keeps_blocks R h h3" using b3 by (simp add: built_def)
          from IH [OF te(2) pooled_on [OF assms(2) on this] pv(2)]
          have "vmakes q R h rd (mcost tab) (table_loop m (forget tab2) True pp2) (mtable_loop m tab2 True rd2 h3)"
            using te(3) b(3) pv(4) p(3) by (intro vmakes_shift [OF b3 on]) (simp_all add: pool_on_def)
          with t None show ?thesis unfolding defs by (simp del: table_loop.simps mtable_loop.simps)
        qed
      qed
    qed
  qed
qed

lemma parse_val_step:
  assumes "heap_ok h" and "alive h = R" and "pooled q R h rd" and "reads rd pp"
    and arrays: "\<And>d. arrayed q R h d \<Longrightarrow>
      vmakes q R h rd (mcost d) (array_loop n (forget d) False pp) (marray_loop n d False rd h)"
    and tables: "\<And>d. tabled q R h d \<Longrightarrow>
      vmakes q R h rd (mcost d) (table_loop n (forget d) False pp) (mtable_loop n d False rd h)"
  shows "vmakes q R h rd 0 (parse_val (Suc n) tok pp) (mparse_val (Suc n) tok rd h)"
proof -
  have e: "arrayed q R h mempty_array" "tabled q R h (mnew_table False)" "built R h MZERO h"
    using assms(1-4) by (auto simp: arrayed_def tabled_def owns_def pooled_def new_table_def built_def)
  have plain: "vmakes q R h rd 0 (Some (Inr (d, pp))) (Some (MPlain d, Inr rd, h))" if "dtype d \<notin> {TOML_STRING, TOML_ARRAY, TOML_TABLE}" for d
    using assms(1-4) that by (intro vmakes_value) (auto simp: built_def owns_def)
  have ts: "dtype (token_to_timestamp tok) \<notin> {TOML_STRING, TOML_ARRAY, TOML_TABLE}"
    by (auto simp: token_to_timestamp_def split: tokval.split toktyp.split)
  show ?thesis
    using mtoken_to_string_ok [OF assms(1-4)] plain [OF ts] plain [of "token_to_int64 tok"] plain [of "token_to_fp64 tok"]
      plain [of "token_to_boolean tok"] arrays [OF e(1)] tables [OF e(2)] vmakes_fail [OF e(3), of q]
    by (cases "toktyp tok")
      (simp_all add: token_to_int64_def token_to_fp64_def token_to_boolean_def new_table_def
        del: array_loop.simps marray_loop.simps table_loop.simps mtable_loop.simps)
qed

text \<open>At the closing bracket the value is flagged as inlined.\<close>

lemma inlined_value:
  assumes "owns R h d" and "pools d \<subseteq> {q}" and "reads rd pp"
  obtains c h' where "mset_flag_recursive FLAG_INLINED d h = (c, h')"
    "vmakes q R h rd (mcost d) (Some (Inr (set_flag_recursive FLAG_INLINED (forget d), pp))) (Some (c, Inr rd, h'))"
  using flagged_value [OF assms, of FLAG_INLINED] by (auto split: prod.splits)

lemma array_step:
  assumes "arrayed q R h d" and "pooled q R h rd" and "reads rd pp"
    and vals: "\<And>R h rd pp tok. heap_ok h \<Longrightarrow> alive h = R \<Longrightarrow> pooled q R h rd \<Longrightarrow> reads rd pp \<Longrightarrow>
      vmakes q R h rd 0 (parse_val n tok pp) (mparse_val n tok rd h)"
    and IH: "\<And>R h d rd pp need. arrayed q R h d \<Longrightarrow> pooled q R h rd \<Longrightarrow> reads rd pp \<Longrightarrow>
      vmakes q R h rd (mcost d) (array_loop n (forget d) need pp) (marray_loop n d need rd h)"
  shows "vmakes q R h rd (mcost d) (array_loop (Suc n) (forget d) need pp) (marray_loop (Suc n) d need rd h)"
proof -
  have d: "owns R h d" "pools d \<subseteq> {q}" "built R h d h" using assms(1) by (auto simp: arrayed_def built_refl)
  show ?thesis
  proof (cases "scan_value (rd_scan rd)")
    case (Inl e)
    with assms(3) d show ?thesis by (auto simp: reads_def intro!: vmakes_fail)
  next
    case (Inr a)
    obtain tok sp where a: "a = (tok, sp)" by (cases a)
    let ?rd = "rd\<lparr>rd_scan := sp\<rparr>" and ?pp = "pp\<lparr>scan := sp\<rparr>"
    have r: "reads ?rd ?pp" "pool_on rd ?rd" "pooled q R h ?rd" "scan pp = rd_scan rd" using assms(2,3) by (simp_all add: reads_def)
    note same = vmakes_scan [THEN iffD1]
    have go: "vmakes q R h rd (mcost d) (array_loop n (forget d) b ?pp) (marray_loop n d b ?rd h)" for b
      by (rule same [OF IH [OF assms(1) r(3,1)]])
    have "vmakes q (owned d + R) h ?rd 0 (parse_val n tok ?pp) (mparse_val n tok ?rd h)"
      using d(1) r(1) pooled_more [OF r(3)] by (intro vals) (auto simp: owns_def)
    note val = array_round [OF assms(1,2) r(2) this IH, where ln = "tok_lineno tok"]
    obtain c h' where c: "mset_flag_recursive FLAG_INLINED d h = (c, h')"
      "vmakes q R h ?rd (mcost d) (Some (Inr (set_flag_recursive FLAG_INLINED (forget d), ?pp))) (Some (c, Inr ?rd, h'))"
      by (rule inlined_value [OF d(1,2) r(1)])
    show ?thesis
      using go val same [OF c(2)] vmakes_fail [OF d(3,2)]
      by (simp add: r(4) Inr a c(1) del: array_loop.simps(1) marray_loop.simps(1))
  qed
qed

lemma table_step:
  assumes "tabled q R h d" and "pooled q R h rd" and "reads rd pp"
    and vals: "\<And>R h rd pp tok. heap_ok h \<Longrightarrow> alive h = R \<Longrightarrow> pooled q R h rd \<Longrightarrow> reads rd pp \<Longrightarrow>
      vmakes q R h rd 0 (parse_val n tok pp) (mparse_val n tok rd h)"
    and IH: "\<And>R h d rd pp need. tabled q R h d \<Longrightarrow> pooled q R h rd \<Longrightarrow> reads rd pp \<Longrightarrow>
      vmakes q R h rd (mcost d) (table_loop n (forget d) need pp) (mtable_loop n d need rd h)"
  shows "vmakes q R h rd (mcost d) (table_loop (Suc n) (forget d) need pp) (mtable_loop (Suc n) d need rd h)"
proof -
  have d: "owns R h d" "pools d \<subseteq> {q}" "built R h d h" using assms(1) by (auto simp: tabled_def built_refl)
  show ?thesis
  proof (cases "scan_key (rd_scan rd)")
    case (Inl e)
    with assms(3) d show ?thesis by (auto simp: reads_def intro!: vmakes_fail)
  next
    case (Inr a)
    obtain tok sp where a: "a = (tok, sp)" by (cases a)
    let ?rd = "rd\<lparr>rd_scan := sp\<rparr>" and ?pp = "pp\<lparr>scan := sp\<rparr>"
    have r: "reads ?rd ?pp" "pool_on rd ?rd" "pooled q R h ?rd" "scan pp = rd_scan rd" using assms(2,3) by (simp_all add: reads_def)
    note same = vmakes_scan [THEN iffD1]
    have go: "vmakes q R h rd (mcost d) (table_loop n (forget d) b ?pp) (mtable_loop n d b ?rd h)" for b
      by (rule same [OF IH [OF assms(1) r(3,1)]])
    note val = same [OF table_round [OF assms(1) r(3,1) vals IH, of tok]]
    obtain c h' where c: "mset_flag_recursive FLAG_INLINED d h = (c, h')"
      "vmakes q R h ?rd (mcost d) (Some (Inr (set_flag_recursive FLAG_INLINED (forget d), ?pp))) (Some (c, Inr ?rd, h'))"
      by (rule inlined_value [OF d(1,2) r(1)])
    show ?thesis
      using go val same [OF c(2)] vmakes_fail [OF d(3,2)]
      by (simp add: r(4) Inr a c(1) del: table_loop.simps(1) mtable_loop.simps(1))
  qed
qed

lemma mvalues_ok:
  "heap_ok h \<Longrightarrow> alive h = R \<Longrightarrow> pooled q R h rd \<Longrightarrow> reads rd pp \<Longrightarrow>
     vmakes q R h rd 0 (parse_val n tok pp) (mparse_val n tok rd h)"
  "arrayed q R h d \<Longrightarrow> pooled q R h rd \<Longrightarrow> reads rd pp \<Longrightarrow>
     vmakes q R h rd (mcost d) (array_loop n (forget d) need pp) (marray_loop n d need rd h)"
  "tabled q R h d \<Longrightarrow> pooled q R h rd \<Longrightarrow> reads rd pp \<Longrightarrow>
     vmakes q R h rd (mcost d) (table_loop n (forget d) need pp) (mtable_loop n d need rd h)"
proof (induction n arbitrary: R h rd pp tok d need)
  case 0
  { case 1 show ?case by (simp add: vmakes_def) }
  { case 2 show ?case by (simp add: vmakes_def) }
  { case 3 show ?case by (simp add: vmakes_def) }
next
  case (Suc n)
  { case 1 show ?case by (rule parse_val_step [OF 1 Suc.IH(2) [OF _ 1(3,4)] Suc.IH(3) [OF _ 1(3,4)]]) }
  { case 2 show ?case by (rule array_step [OF 2 Suc.IH(1,2)]) }
  { case 3 show ?case by (rule table_step [OF 3 Suc.IH(1,3)]) }
qed

end
