(* ===== verification/Toml_Parse_Headers.thy ===== *)
theory Toml_Parse_Headers
  imports Toml_Parse_Loops
begin

text \<open>
  The headers of tables in memory.  \<open>mirrors\<close> relates the parser in memory to its value; among
  other things the pointer \<open>curtab\<close> points to where the current table is now.
\<close>

section \<open>Expressions\<close>

text \<open>A place with a table is one that can be followed.\<close>

lemma place_mpath: "roomy h d \<Longrightarrow> dtype (datum_at (forget d) p) \<noteq> TOML_UNKNOWN \<Longrightarrow> mpath d p"
proof (induction p arbitrary: d)
  case (Cons i p)
  show ?case
  proof (cases d)
    case (MPlain x)
    with Cons.prems show ?thesis by (cases x) auto
  next
    case (MArray f q xs)
    with Cons show ?thesis by (auto split: if_splits)
  next
    case (MTable f k l v kvs)
    with Cons show ?thesis by (auto simp: case_prod_unfold split: if_splits)
  qed (use Cons.prems in simp)
qed simp

text \<open>The parser in memory and its value: the tree, the current table and what is read.\<close>

definition mirrors :: "ptr \<Rightarrow> ptr multiset \<Rightarrow> heap \<Rightarrow> mparser \<Rightarrow> parser \<Rightarrow> bool" where
  "mirrors q R h mp pp \<longleftrightarrow>
     tabled q R h (mp_toptab mp) \<and> pooled q R h (mp_in mp) \<and> mcost (mp_toptab mp) \<le> pl_top (rd_pool (mp_in mp)) \<and>
     reads (mp_in mp) pp \<and> toptab pp = forget (mp_toptab mp) \<and> curtab pp = mp_curtab mp \<and> doc_ok pp \<and>
     mp_curref mp = maddr (mp_toptab mp) (mp_curtab mp)"

definition emakes :: "ptr \<Rightarrow> ptr multiset \<Rightarrow> heap \<Rightarrow> (string + parser) option \<Rightarrow> expr option \<Rightarrow> bool" where
  "emakes q R h pure r \<longleftrightarrow>
     (case r of
        None \<Rightarrow> pure = None
      | Some (mp, e, h') \<Rightarrow>
          built R h (mp_toptab mp) h' \<and> pl_ptr (rd_pool (mp_in mp)) = q \<and>
          (case e of
             None \<Rightarrow> \<exists>pp. pure = Some (Inr pp) \<and> mirrors q R h' mp pp
           | Some reason \<Rightarrow> pure = Some (Inl reason) \<or> grants h \<noteq> [] \<and> refused reason))"

lemma emakes_fail:
  "built R h (mp_toptab mp) h' \<Longrightarrow> pl_ptr (rd_pool (mp_in mp)) = q \<Longrightarrow> pure = Some (Inl e) \<or> grants h \<noteq> [] \<and> refused e \<Longrightarrow>
     emakes q R h pure (Some (mp, Some e, h'))"
  by (simp add: emakes_def)

lemma mirrors_cur:
  assumes "mirrors q R h mp pp"
  shows "mpath (mp_toptab mp) (mp_curtab mp)" "mtype (mat (mp_toptab mp) (mp_curtab mp)) = TOML_TABLE" "follow_curtab mp h = h"
proof -
  have t: "roomy h (mp_toptab mp)" "heap_ok h" using assms by (simp_all add: mirrors_def tabled_def owns_def)
  have d: "dtype (datum_at (forget (mp_toptab mp)) (mp_curtab mp)) = TOML_TABLE"
    using assms by (auto simp: mirrors_def doc_ok_def tab_place_def)
  show p: "mpath (mp_toptab mp) (mp_curtab mp)" by (rule place_mpath [OF t(1)]) (simp add: d)
  show "mtype (mat (mp_toptab mp) (mp_curtab mp)) = TOML_TABLE" using d forget_at(1) [OF p] by simp
  show "follow_curtab mp h = h"
    using follow_ok [OF t(2,1)] p assms by (cases "mp_curtab mp") (auto simp: follow_curtab_def mirrors_def)
qed

text \<open>A step below a place of the tree, and the tree with its result.\<close>

lemma placed:
  assumes "tabled q R h root" and "mpath root path" and "built (owned (mput_at root path MZERO) + R) h t h'" and "tabled q S h' t"
  shows "built R h (mput_at root path t) h'" "mtype (mat root path) = TOML_TABLE \<Longrightarrow> tabled q R h' (mput_at root path t)"
    "mcost (mput_at root path t) + mcost (mat root path) = mcost root + mcost t"
proof -
  have t: "heap_ok h" "roomy h root" "pools root \<subseteq> {q}" "mtype root = TOML_TABLE" "q \<in># R" using assms(1) by (simp_all add: tabled_def owns_def)
  show b: "built R h (mput_at root path t) h'" by (rule put_at_built [OF t(1,2) assms(2,3)])
  show "mcost (mput_at root path t) + mcost (mat root path) = mcost root + mcost t" by (rule mcost_put_at [OF assms(2)])
  assume "mtype (mat root path) = TOML_TABLE"
  then have "mtype (mput_at root path t) = TOML_TABLE"
    using mtype_put_at [OF assms(2), of t] assms(4) t(4) by (simp add: tabled_def)
  moreover have "pools (mput_at root path t) \<subseteq> {q}" using mput_at_pools [OF assms(2), of t] t(3) assms(4) by (auto simp: tabled_def)
  ultimately show "tabled q R h' (mput_at root path t)" using b t(5) by (simp add: tabled_def built_def)
qed

lemma walked:
  assumes "walks q R h root pure (top1, r, h1)" and "q \<in># R"
  shows "built R h top1 h1" "tabled q R h1 top1" "mcost top1 \<le> mcost root"
    "r = Inl e \<Longrightarrow> pure = Inl e \<or> grants h \<noteq> [] \<and> refused e"
    "r = Inr path \<Longrightarrow> pure = Inr (forget top1, path) \<and> mpath top1 path \<and> mtype (mat top1 path) = TOML_TABLE"
  using assms by (auto simp: walks_def makes_def tabled_def built_def)

text \<open>What the two kinds of headers do at the end of their key.\<close>

definition header_ends :: "ptr \<Rightarrow> ptr multiset \<Rightarrow> heap \<Rightarrow> mdatum \<Rightarrow> string + datum \<times> 'a \<Rightarrow> 'a made \<Rightarrow> bool" where
  "header_ends q R h tab pure r \<longleftrightarrow>
     (case r of (t, res, h') \<Rightarrow>
        built R h t h' \<and> tabled q R h' t \<and> mcost t \<le> mcost tab \<and>
        (case res of Inl e \<Rightarrow> pure = Inl e \<or> grants h \<noteq> [] \<and> refused e | Inr x \<Rightarrow> pure = Inr (forget t, x)))"

lemma ends_fail: "tabled q R h tab \<Longrightarrow> pure = Inl e \<Longrightarrow> header_ends q R h tab pure (tab, Inl e, h)"
  by (auto simp: header_ends_def tabled_def built_refl)

lemma found_peek:
  assumes "tabled q R h tab" and "tab_find (forget tab) key = Some j"
  shows "j < msize tab" "mpeek tab j h = h" "forget (mvalue tab j) = tab_value (forget tab) j"
proof -
  have t: "heap_ok h" "roomy h tab" "mtype tab = TOML_TABLE" using assms(1) by (simp_all add: tabled_def owns_def)
  show j: "j < msize tab" using tab_find_at [OF assms(2)] tab_size_forget [OF t(3,2)] by simp
  show "mpeek tab j h = h" by (rule peek_ok [OF t(1,2) j])
  show "forget (mvalue tab j) = tab_value (forget tab) j" by (rule mput_facts(8) [OF j t(3)])
qed

lemma tabled_find: "tabled q R h tab \<Longrightarrow> fst key = q \<Longrightarrow> mtab_find tab key h = (tab_find (forget tab) (snd key), h)"
  by (intro mtab_find_ok) (auto simp: tabled_def)

lemma mstd_table_place_ok:
  assumes "tabled q R h tab" and "fst key = q"
  shows "header_ends q R h tab (std_table_place ln (forget tab) (snd key)) (mstd_table_place ln tab key h)"
    "mstd_table_place ln tab key h = (t, Inr j, h') \<Longrightarrow> j < msize t"
proof -
  have "header_ends q R h tab (std_table_place ln (forget tab) (snd key)) (mstd_table_place ln tab key h) \<and>
    (mstd_table_place ln tab key h = (t, Inr j, h') \<longrightarrow> j < msize t)"
  proof (cases "tab_find (forget tab) (snd key)")
    case (Some i)
    note f = found_peek [OF assms(1) Some]
    have b: "built R h tab h" using assms(1) by (simp add: tabled_def built_refl)
    show ?thesis
      using ends_fail [OF assms(1)] f assms(1) b
      by (auto simp: mstd_table_place_def std_table_place_def tabled_find [OF assms] Some Let_def header_ends_def)
  next
    case None
    show ?thesis
    proof (cases "has_flag FLAG_INLINED (forget tab)")
      case True
      then show ?thesis
        by (simp add: mstd_table_place_def std_table_place_def tabled_find [OF assms] None ends_fail [OF assms(1) refl])
    next
      case False
      obtain tab' e h1 where a: "mtab_add tab key (mnew_table True) h = (tab', e, h1)" by (metis prod_cases3)
      have w: "pools (mnew_table True) \<subseteq> {q}" by simp
      note m = mnew_added [OF assms(1) None assms(2) mnew_table_simps(4,2) w mnew_table_simps(5) a]
      show ?thesis
      proof (cases e)
        case (Some reason)
        show ?thesis using m(1-3,5) False a Some
          by (auto simp: mstd_table_place_def std_table_place_def tabled_find [OF assms] None header_ends_def)
      next
        case e: None
        show ?thesis using m(1-4) False a e
          by (auto simp: mstd_table_place_def std_table_place_def tabled_find [OF assms] None header_ends_def)
      qed
    qed
  qed
  then show "header_ends q R h tab (std_table_place ln (forget tab) (snd key)) (mstd_table_place ln tab key h)"
    "mstd_table_place ln tab key h = (t, Inr j, h') \<Longrightarrow> j < msize t" by simp_all
qed

lemma refused_emplace_cost: "marr_emplace arr h = (arr', Inl reason, h') \<Longrightarrow> mcost arr' = mcost arr"
  by (cases arr) (auto split: if_splits prod.splits)

lemma marray_end_ok:
  assumes "tabled q R h tab" and "tab_find (forget tab) (snd key) = Some idx" and "mtype (mvalue tab idx) = TOML_ARRAY"
  shows "header_ends q R h tab
    (case arr_emplace (tab_value (forget tab) idx) of
       Inl reason \<Rightarrow> Inl (seterror ln reason)
     | Inr (arr, i) \<Rightarrow> Inr (tab_set (forget tab) idx (arr_set arr i (mkdatum TOML_TABLE)), [idx, i]))
    (case marr_emplace (mvalue tab idx) h of
       (arr, Inl reason, h1) \<Rightarrow> (mput tab idx arr, Inl (seterror ln reason), h1)
     | (arr, Inr i, h1) \<Rightarrow> (mput tab idx (mput arr i (mnew_table False)), Inr [idx, i], h1))"
proof -
  note f = found_peek [OF assms(1,2)]
  have t: "owns R h tab" "mtype tab = TOML_TABLE" "pools tab \<subseteq> {q}" "q \<in># R" "heap_ok h" "roomy h tab"
    using assms(1) by (simp_all add: tabled_def owns_def)
  note o = owns_child [OF t(1) f(1)]
  have pl: "pools (mvalue tab idx) \<subseteq> {q}" using mput_facts(5) [OF f(1)] t(3) by blast
  have n: "built (owned (mvalue tab idx) + (mrest tab idx + R)) h (mnew_table False) h"
    using o by (simp add: built_def owns_def)
  obtain arr res h1 where e: "marr_emplace (mvalue tab idx) h = (arr, res, h1)" by (metis prod_cases3)
  note el = array_element [OF o assms(3) pl n _ e]
  have put: "built R h (mput tab idx c) h1 \<and> tabled q R h1 (mput tab idx c) \<and> mcost (mput tab idx c) \<le> mcost tab"
    if "built (mrest tab idx + R) h c h1" "pools c \<subseteq> {q}" "mcost c \<le> mcost (mvalue tab idx)" for c
  proof -
    have b: "built R h (mput tab idx c) h1" by (rule put_built [OF t(5,6) f(1) that(1)])
    moreover have "mcost (mput tab idx c) \<le> mcost tab" using mcost_put [OF f(1), of c] that(3) by simp
    moreover have "pools (mput tab idx c) \<subseteq> {q}" using mput_facts(4) [OF f(1), of c] that(2) t(3) by blast
    ultimately show ?thesis using mput_facts(6) [OF f(1), of c] t(2,4) by (simp add: tabled_def built_def)
  qed
  show ?thesis
  proof (cases res)
    case (Inl reason)
    have free: "mfree (mnew_table False) h' = h'" for h' by (simp add: mnew_table_def mem_free_def)
    have c: "mcost arr = mcost (mvalue tab idx)" using refused_emplace_cost e Inl by blast
    note x = el(1) [OF _ Inl, simplified free]
    show ?thesis using put [of arr] x c f(3) by (auto simp: e Inl header_ends_def simp del: arr_emplace.simps)
  next
    case (Inr i)
    let ?c = "mput arr i (mnew_table False)"
    have x: "built (mrest tab idx + R) h ?c h1" "pools ?c \<subseteq> {q}" "mcost ?c = mcost (mvalue tab idx)"
      "arr_emplace (tab_value (forget tab) idx) = Inr (forget arr, i)" "forget ?c = arr_set (forget arr) i (mkdatum TOML_TABLE)"
      using el(2) [OF _ Inr] f(3) by (auto simp: new_table_def simp del: arr_emplace.simps)
    have "forget (mput tab idx ?c) = tab_set (forget tab) idx (forget ?c)" by (rule mput_facts(7) [OF f(1) t(2)])
    with put [of ?c] x show ?thesis by (simp add: e Inr header_ends_def del: arr_emplace.simps)
  qed
qed

lemma ends_shift:
  assumes "built R h tab1 h1" and "mcost tab1 \<le> mcost tab" and "header_ends q R h1 tab1 pure r"
  shows "header_ends q R h tab pure r"
proof -
  obtain d res h' where r: "r = (d, res, h')" by (metis prod_cases3)
  have "built R h1 d h'" using assms(3) by (simp add: header_ends_def r)
  moreover have "grants h = [] \<Longrightarrow> grants h1 = []" using assms(1) by (simp add: built_def)
  ultimately show ?thesis
    using assms(2,3) built_then [OF assms(1)] by (auto simp: header_ends_def r split: sum.splits)
qed

lemma marray_table_place_ok:
  assumes "tabled q R h tab" and "fst key = q"
  shows "header_ends q R h tab (array_table_place ln (forget tab) (snd key)) (marray_table_place ln tab key h)"
proof -
  let ?header_ends = "\<lambda>h tab1. header_ends q R h tab1
      (case tab_find (forget tab1) (snd key) of
         None \<Rightarrow> Inl (seterror ln ''entry must be an array'')
       | Some idx \<Rightarrow>
           if dtype (tab_value (forget tab1) idx) \<noteq> TOML_ARRAY then Inl (seterror ln ''entry must be an array'')
           else if has_flag FLAG_INLINED (tab_value (forget tab1) idx) then Inl (seterror ln ''cannot extend a static array'')
           else (case arr_emplace (tab_value (forget tab1) idx) of
                   Inl reason \<Rightarrow> Inl (seterror ln reason)
                 | Inr (arr, i) \<Rightarrow> Inr (tab_set (forget tab1) idx (arr_set arr i (mkdatum TOML_TABLE)), [idx, i])))
      (case mtab_find tab1 key h of
         (None, h3) \<Rightarrow> (tab1, Inl (seterror ln ''entry must be an array''), h3)
       | (Some idx, h3) \<Rightarrow>
           (let h4 = mpeek tab1 idx h3 in
            if mtype (mvalue tab1 idx) \<noteq> TOML_ARRAY then (tab1, Inl (seterror ln ''entry must be an array''), h4)
            else if has_flag FLAG_INLINED (forget (mvalue tab1 idx)) then (tab1, Inl (seterror ln ''cannot extend a static array''), h4)
            else (case marr_emplace (mvalue tab1 idx) h4 of
                    (arr, Inl reason, h5) \<Rightarrow> (mput tab1 idx arr, Inl (seterror ln reason), h5)
                  | (arr, Inr i, h5) \<Rightarrow> (mput tab1 idx (mput arr i (mnew_table False)), Inr [idx, i], h5))))"
  have main: "?header_ends h tab1" if t: "tabled q R h tab1" for h tab1
  proof (cases "tab_find (forget tab1) (snd key)")
    case None
    then show ?thesis by (simp add: tabled_find [OF t assms(2)] ends_fail [OF t refl])
  next
    case (Some idx)
    note f = found_peek [OF t Some]
    show ?thesis
      using marray_end_ok [OF t Some, of ln] f
      by (simp add: tabled_find [OF t assms(2)] Some Let_def ends_fail [OF t refl] del: arr_emplace.simps marr_emplace.simps)
  qed
  show ?thesis
  proof (cases "tab_find (forget tab) (snd key)")
    case (Some j)
    with main [OF assms(1)] show ?thesis
      by (simp add: marray_table_place_def array_table_place_def tabled_find [OF assms] del: arr_emplace.simps marr_emplace.simps)
  next
    case None
    obtain tab' e h1 where a: "mtab_add tab key mempty_array h = (tab', e, h1)" by (metis prod_cases3)
    have w: "forget mempty_array = mkdatum TOML_ARRAY" "pools mempty_array \<subseteq> {q}" "roomy h mempty_array" "mcost mempty_array = 0" by simp_all
    note m = mnew_added [OF assms(1) None assms(2) w(3) mempty_owned(2) w(2,4) a, unfolded w(1)]
    show ?thesis
    proof (cases e)
      case (Some reason)
      with m(1-3,5) a show ?thesis
        by (auto simp: marray_table_place_def array_table_place_def tabled_find [OF assms] None header_ends_def)
    next
      case e: None
      from ends_shift [OF m(1,3) main [OF m(2)]] m(4) [OF e] a e show ?thesis
        by (simp add: marray_table_place_def array_table_place_def tabled_find [OF assms] None del: arr_emplace.simps marr_emplace.simps)
    qed
  qed
qed

lemma mirrors_facts:
  assumes "mirrors q R h mp pp"
  shows "tabled q R h (mp_toptab mp)" "pooled q R h (mp_in mp)" "reads (mp_in mp) pp" "toptab pp = forget (mp_toptab mp)"
    "curtab pp = mp_curtab mp" "scan pp = rd_scan (mp_in mp)" "built R h (mp_toptab mp) h" "pl_ptr (rd_pool (mp_in mp)) = q"
  using assms by (auto simp: mirrors_def reads_def tabled_def pooled_def built_refl)

lemma mirrors_fail:
  assumes "mirrors q R h mp pp" and "pure = Some (Inl e)"
  shows "emakes q R h pure (Some (mp, Some e, h))"
  using mirrors_facts [OF assms(1)] assms(2) by (intro emakes_fail) auto

lemma mirrors_lost:
  assumes "mirrors q R h mp pp" and "built R h top' h'" and "pure = Some (Inl e) \<or> grants h \<noteq> [] \<and> refused e"
  shows "emakes q R h pure (Some (mp\<lparr>mp_toptab := top'\<rparr>, Some e, h'))"
  using mirrors_facts(8) [OF assms(1)] assms(2,3) by (intro emakes_fail) auto

text \<open>Reading the key of an expression.\<close>

lemma expr_key:
  assumes "mirrors q R h mp pp" and "parse_key tok (pp\<lparr>scan := sp1\<rparr>) = Inr (keys, pp1)"
  defines "rd \<equiv> as_reader ((mp_in mp)\<lparr>rd_scan := sp1\<rparr>) pp1"
  shows "mparse_key tok ((mp_in mp)\<lparr>rd_scan := sp1\<rparr>) h = (Inr (map (Pair q) keys, rd), h)" "keys \<noteq> []" "reads rd pp1"
    "pool_on (mp_in mp) rd" "rd_scan rd = scan pp1" "toptab pp1 = toptab pp" "curtab pp1 = curtab pp"
    "last (map (Pair q) keys) = (q, last keys)"
proof -
  note m = mirrors_facts [OF assms(1)]
  have r: "reads ((mp_in mp)\<lparr>rd_scan := sp1\<rparr>) (pp\<lparr>scan := sp1\<rparr>)" using m(3) by (simp add: reads_def)
  have p: "pooled q R h ((mp_in mp)\<lparr>rd_scan := sp1\<rparr>)" using m(2) by simp
  show "mparse_key tok ((mp_in mp)\<lparr>rd_scan := sp1\<rparr>) h = (Inr (map (Pair q) keys, rd), h)"
    using mparse_key_ok [OF p r, of tok] assms(2) by (simp add: rd_def)
  have f: "reads rd pp1 \<and> pool_on ((mp_in mp)\<lparr>rd_scan := sp1\<rparr>) rd"
    using fills_reads [OF r parse_key_fills [OF assms(2)]] by (simp add: rd_def)
  then show "reads rd pp1" "pool_on (mp_in mp) rd" "rd_scan rd = scan pp1" by (simp_all add: reads_def)
  show k: "keys \<noteq> []" "toptab pp1 = toptab pp" "curtab pp1 = curtab pp"
    using parse_key_moves [OF assms(2)] by (auto simp: moves_def)
  then show "last (map (Pair q) keys) = (q, last keys)" by (simp add: last_map)
qed

lemma expr_no_key:
  assumes "mirrors q R h mp pp" and "parse_key tok (pp\<lparr>scan := sp1\<rparr>) = Inl e"
  shows "mparse_key tok ((mp_in mp)\<lparr>rd_scan := sp1\<rparr>) h = (Inl e, h)"
proof -
  note m = mirrors_facts [OF assms(1)]
  have r: "reads ((mp_in mp)\<lparr>rd_scan := sp1\<rparr>) (pp\<lparr>scan := sp1\<rparr>)" using m(3) by (simp add: reads_def)
  have p: "pooled q R h ((mp_in mp)\<lparr>rd_scan := sp1\<rparr>)" using m(2) by simp
  show ?thesis using mparse_key_ok [OF p r, of tok] assms(2) by simp
qed

text \<open>The end of a header: the tree with its table, and the parser that goes on from there.\<close>

lemma header_end:
  assumes "mirrors q R h mp pp" and "walks q R h (mp_toptab mp) pure (top1, Inr path, h1)"
    and "header_ends q (owned (mput_at top1 path MZERO) + R) h1 (mat top1 path) pure' (t, res, h2)"
  shows "built R h (mput_at top1 path t) h2" "tabled q R h2 (mput_at top1 path t)"
    "mcost (mput_at top1 path t) \<le> mcost (mp_toptab mp)" "forget (mput_at top1 path t) = put_at (forget top1) path (forget t)"
    "res = Inl e \<Longrightarrow> pure' = Inl e \<or> grants h \<noteq> [] \<and> refused e" "res = Inr x \<Longrightarrow> pure' = Inr (forget t, x)"
proof -
  have q: "q \<in># R" using assms(1) by (simp add: mirrors_def tabled_def)
  note w = walked [OF assms(2) q]
  have p: "mpath top1 path" "mtype (mat top1 path) = TOML_TABLE" using w(5) by simp_all
  note e = assms(3) [unfolded header_ends_def prod.case]
  have b: "built (owned (mput_at top1 path MZERO) + R) h1 t h2" "tabled q (owned (mput_at top1 path MZERO) + R) h2 t"
    "mcost t \<le> mcost (mat top1 path)" using e by simp_all
  note pl = placed [OF w(2) p(1) b(1,2)]
  show "built R h (mput_at top1 path t) h2" by (rule built_then [OF w(1) pl(1)])
  show "tabled q R h2 (mput_at top1 path t)" by (rule pl(2) [OF p(2)])
  show "mcost (mput_at top1 path t) \<le> mcost (mp_toptab mp)" using pl(3) w(3) b(3) by simp
  show "forget (mput_at top1 path t) = put_at (forget top1) path (forget t)" by (rule forget_at(2) [OF p(1)])
  have "grants h = [] \<Longrightarrow> grants h1 = []" using w(1) by (simp add: built_def)
  then show "res = Inl e \<Longrightarrow> pure' = Inl e \<or> grants h \<noteq> [] \<and> refused e" "res = Inr x \<Longrightarrow> pure' = Inr (forget t, x)"
    using e by auto
qed

lemma header_done:
  assumes "mirrors q R h mp pp" and "built R h top' h'" and "tabled q R h' top'" and "mcost top' \<le> mcost (mp_toptab mp)"
    and "reads rd pp1" and "pool_on (mp_in mp) rd" and "forget top' = d" and "doc_ok (pp1\<lparr>scan := sp2, toptab := d, curtab := p\<rparr>)"
  shows "emakes q R h (Some (Inr (pp1\<lparr>scan := sp2, toptab := d, curtab := p\<rparr>)))
    (Some (set_curtab p (mp\<lparr>mp_in := rd\<lparr>rd_scan := sp2\<rparr>, mp_toptab := top'\<rparr>), None, h'))"
proof -
  have "keeps_blocks R h h'" using assms(2) by (simp add: built_def)
  then have "pooled q R h' rd" by (rule pooled_on [OF mirrors_facts(2) [OF assms(1)] assms(6)])
  with assms show ?thesis by (auto simp: emakes_def mirrors_def set_curtab_def reads_def pool_on_def mirrors_facts(8) [OF assms(1)])
qed

text \<open>The two kinds of headers, with what tells them apart as arguments.\<close>

definition header ::
  "toktyp \<Rightarrow> string \<Rightarrow> (int \<Rightarrow> datum \<Rightarrow> string list \<Rightarrow> string + datum \<times> nat list) \<Rightarrow>
   (int \<Rightarrow> datum \<Rightarrow> string \<Rightarrow> string + datum \<times> nat list) \<Rightarrow> parser \<Rightarrow> string + parser" where
  "header close msg walk place pp =
     (case scan_key (scan pp) of
        Inl e \<Rightarrow> Inl e
      | Inr (tok, sp1) \<Rightarrow>
          (case parse_key tok (pp\<lparr>scan := sp1\<rparr>) of
             Inl e \<Rightarrow> Inl e
           | Inr (keys, pp1) \<Rightarrow>
               (case scan_key (scan pp1) of
                  Inl e \<Rightarrow> Inl e
                | Inr (rb, sp2) \<Rightarrow>
                    if toktyp rb \<noteq> close then Inl (seterror (tok_lineno rb) msg)
                    else (case walk (tok_lineno tok) (toptab pp1) (butlast keys) of
                            Inl e \<Rightarrow> Inl e
                          | Inr (top1, path) \<Rightarrow>
                              (case place (tok_lineno tok) (datum_at top1 path) (last keys) of
                                 Inl e \<Rightarrow> Inl e
                               | Inr (tab, p) \<Rightarrow> Inr (pp1\<lparr>scan := sp2, toptab := put_at top1 path tab, curtab := path @ p\<rparr>))))))"

definition mheader ::
  "toktyp \<Rightarrow> string \<Rightarrow> (int \<Rightarrow> mdatum \<Rightarrow> span list \<Rightarrow> heap \<Rightarrow> walk) \<Rightarrow> (int \<Rightarrow> mdatum \<Rightarrow> span \<Rightarrow> heap \<Rightarrow> nat list made) \<Rightarrow>
   mparser \<Rightarrow> heap \<Rightarrow> expr" where
  "mheader close msg walk place mp h =
     (case scan_key (rd_scan (mp_in mp)) of
        Inl e \<Rightarrow> (mp, Some e, h)
      | Inr (tok, sp1) \<Rightarrow>
          (case mparse_key tok ((mp_in mp)\<lparr>rd_scan := sp1\<rparr>) h of
             (Inl e, h1) \<Rightarrow> (mp, Some e, h1)
           | (Inr (keys, rd1), h1) \<Rightarrow>
               (case scan_key (rd_scan rd1) of
                  Inl e \<Rightarrow> (mp, Some e, h1)
                | Inr (rb, sp2) \<Rightarrow>
                    if toktyp rb \<noteq> close then (mp, Some (seterror (tok_lineno rb) msg), h1)
                    else (case walk (tok_lineno tok) (mp_toptab mp) (butlast keys) h1 of
                            (top1, Inl e, h2) \<Rightarrow> (mp\<lparr>mp_toptab := top1\<rparr>, Some e, h2)
                          | (top1, Inr path, h2) \<Rightarrow>
                              (case place (tok_lineno tok) (mat top1 path) (last keys) h2 of
                                 (tab, Inl e, h3) \<Rightarrow> (mp\<lparr>mp_toptab := mput_at top1 path tab\<rparr>, Some e, h3)
                               | (tab, Inr p, h3) \<Rightarrow>
                                   (set_curtab (path @ p) (mp\<lparr>mp_in := rd1\<lparr>rd_scan := sp2\<rparr>, mp_toptab := mput_at top1 path tab\<rparr>),
                                    None, h3))))))"

lemma mheader_ok:
  assumes "mirrors q R h mp pp" and "\<And>pp'. header close msg walk place pp = Inr pp' \<Longrightarrow> doc_ok pp'"
    and walk: "\<And>ln R h tab keys. tabled q R h tab \<Longrightarrow> \<forall>key \<in> set keys. fst key = q \<Longrightarrow>
      walks q R h tab (walk ln (forget tab) (map snd keys)) (mwalk ln tab keys h)"
    and place: "\<And>ln R h tab key. tabled q R h tab \<Longrightarrow> fst key = q \<Longrightarrow>
      header_ends q R h tab (place ln (forget tab) (snd key)) (mplace ln tab key h)"
  shows "emakes q R h (Some (header close msg walk place pp)) (Some (mheader close msg mwalk mplace mp h))"
proof (cases "scan_key (rd_scan (mp_in mp))")
  case (Inl e)
  then show ?thesis by (simp add: header_def mheader_def mirrors_facts(6) [OF assms(1)] mirrors_fail [OF assms(1) refl])
next
  case (Inr a)
  obtain tok sp1 where a: "a = (tok, sp1)" by (cases a)
  note defs = header_def mheader_def mirrors_facts(6) [OF assms(1)] Inr a prod.case sum.case
  show ?thesis
  proof (cases "parse_key tok (pp\<lparr>scan := sp1\<rparr>)")
    case (Inl e)
    then show ?thesis by (simp add: defs expr_no_key [OF assms(1) Inl] mirrors_fail [OF assms(1) refl])
  next
    case (Inr b)
    obtain keys pp1 where b: "b = (keys, pp1)" by (cases b)
    note k = expr_key [OF assms(1) Inr [unfolded b]]
    let ?ks = "map (Pair q) keys" and ?ln = "tok_lineno tok"
    obtain top1 r h1 where w: "mwalk ?ln (mp_toptab mp) (butlast ?ks) h = (top1, r, h1)" by (metis prod_cases3)
    have wk: "walks q R h (mp_toptab mp) (walk ?ln (toptab pp1) (butlast keys)) (top1, r, h1)"
      using walk [OF mirrors_facts(1) [OF assms(1)], of "butlast ?ks" ?ln] w
      by (simp add: butlast_pair comp_def k(6) mirrors_facts(4) [OF assms(1)])
    have qR: "q \<in># R" using assms(1) by (simp add: mirrors_def tabled_def)
    note wd = walked [OF wk qR]
    note defs2 = defs Inr b k(1,5,8) w
    show ?thesis
    proof (cases "\<exists>rb sp2 path. scan_key (scan pp1) = Inr (rb, sp2) \<and> toktyp rb = close \<and> r = Inr path")
      case False
      then show ?thesis
        using wd(4) mirrors_fail [OF assms(1) refl] mirrors_lost [OF assms(1) wd(1)]
        by (cases "scan_key (scan pp1)"; cases r) (auto simp: defs2)
    next
      case True
      then obtain rb sp2 path where s: "scan_key (scan pp1) = Inr (rb, sp2)" "toktyp rb = close" and r: "r = Inr path" by blast
      note p = wd(5) [OF r]
      obtain t res h2 where pl: "mplace ?ln (mat top1 path) (q, last keys) h1 = (t, res, h2)" by (metis prod_cases3)
      have "tabled q (owned (mput_at top1 path MZERO) + R) h1 (mat top1 path)" using tabled_at [OF wd(2)] p by blast
      from place [OF this, of "(q, last keys)" ?ln]
      have en: "header_ends q (owned (mput_at top1 path MZERO) + R) h1 (mat top1 path) (place ?ln (datum_at (forget top1) path) (last keys)) (t, res, h2)"
        using pl p by (simp add: forget_at(1))
      note hd = header_end [OF assms(1) wk [unfolded r] en]
      note defs3 = defs2 s r pl
      show ?thesis
      proof (cases res)
        case (Inl e)
        show ?thesis using p mirrors_lost [OF assms(1) hd(1)] hd(5) [OF Inl] by (auto simp: defs3 Inl)
      next
        case res: (Inr x)
        have pure: "header close msg walk place pp = Inr (pp1\<lparr>scan := sp2, toptab := forget (mput_at top1 path t), curtab := path @ x\<rparr>)"
          using hd(4) hd(6) [OF res] p by (simp add: defs3)
        from header_done [OF assms(1) hd(1-3) k(3,4) refl assms(2) [OF pure]] pure
        show ?thesis by (simp add: defs3 res)
      qed
    qed
  qed
qed

lemma mparse_array_ok:
  assumes "mirrors q R h mp pp"
  shows "emakes q R h (Some (parse_array_table_expr pp)) (Some (mparse_array_table_expr mp h))"
proof -
  let ?msg = "''missing '' @ SQ # '']]'' @ [SQ]"
  have p: "parse_array_table_expr pp = header TOK_RRBRACK ?msg array_walk array_table_place pp"
    unfolding parse_array_table_expr_def header_def ..
  have m: "mparse_array_table_expr mp h = mheader TOK_RRBRACK ?msg marray_walk marray_table_place mp h"
    unfolding mparse_array_table_expr_def mheader_def ..
  have "doc_ok pp'" if "parse_array_table_expr pp = Inr pp'" for pp'
    using parse_array_table_ok [OF _ that] assms by (simp add: mirrors_def)
  then show ?thesis unfolding p m by (intro mheader_ok [OF assms] marray_walk_ok marray_table_place_ok) auto
qed

text \<open>The place of a standard header, marked as defined.\<close>

definition std_end :: "int \<Rightarrow> datum \<Rightarrow> string \<Rightarrow> string + datum \<times> nat list" where
  "std_end ln tab key =
     (case std_table_place ln tab key of
        Inl e \<Rightarrow> Inl e
      | Inr (t, j) \<Rightarrow> Inr (tab_set t j (set_flag FLAG_EXPLICIT (tab_value t j)), [j]))"

definition mstd_end :: "int \<Rightarrow> mdatum \<Rightarrow> span \<Rightarrow> heap \<Rightarrow> nat list made" where
  "mstd_end ln tab key h =
     (case mstd_table_place ln tab key h of
        (t, Inl e, h') \<Rightarrow> (t, Inl e, h')
      | (t, Inr j, h') \<Rightarrow> (mput t j (mset_flag FLAG_EXPLICIT (mvalue t j)), Inr [j], mpeek t j h'))"

lemma mstd_end_ok:
  assumes "tabled q R h tab" and "fst key = q"
  shows "header_ends q R h tab (std_end ln (forget tab) (snd key)) (mstd_end ln tab key h)"
proof -
  obtain t res h1 where s: "mstd_table_place ln tab key h = (t, res, h1)" by (metis prod_cases3)
  note en = mstd_table_place_ok(1) [OF assms, of ln, unfolded s]
  show ?thesis
  proof (cases res)
    case (Inl e)
    with en show ?thesis by (auto simp: mstd_end_def std_end_def s header_ends_def)
  next
    case (Inr j)
    have j: "j < msize t" by (rule mstd_table_place_ok(2) [OF assms s [unfolded Inr]])
    then have "mpath t [j]" by simp
    have t: "tabled q R h1 t" using en by (simp add: header_ends_def)
    note f = set_flag_at [OF t \<open>mpath t [j]\<close>, where g = FLAG_EXPLICIT]
    let ?t = "mput t j (mset_flag FLAG_EXPLICIT (mvalue t j))"
    have ft: "forget ?t = tab_set (forget t) j (set_flag FLAG_EXPLICIT (tab_value (forget t) j))"
      using mput_facts(7,8) [OF j] t by (simp add: tabled_def)
    have "mpeek t j h1 = h1" using t j by (intro peek_ok) (simp_all add: tabled_def owns_def)
    moreover have "built R h ?t h1" using en f(2) [OF built_refl] t j by (auto simp: header_ends_def tabled_def intro: built_then)
    ultimately show ?thesis using en f(1,3) ft j by (simp add: mstd_end_def std_end_def s Inr header_ends_def)
  qed
qed

lemma mparse_std_ok:
  assumes "mirrors q R h mp pp"
  shows "emakes q R h (Some (parse_std_table_expr pp)) (Some (mparse_std_table_expr mp h))"
proof -
  have p: "parse_std_table_expr pp = header TOK_RBRACK ''missing right-bracket'' (\<lambda>ln tab keys. descend_keypart ln tab keys True) std_end pp"
    by (simp add: parse_std_table_expr_def header_def std_end_def split: sum.split)
  have m: "mparse_std_table_expr mp h =
      mheader TOK_RBRACK ''missing right-bracket'' (\<lambda>ln tab keys. mdescend ln tab keys True) mstd_end mp h"
    by (simp add: mparse_std_table_expr_def mheader_def mstd_end_def split: sum.split prod.split)
  have "doc_ok pp'" if "parse_std_table_expr pp = Inr pp'" for pp'
    using parse_std_ok [OF _ that] assms by (simp add: mirrors_def)
  then show ?thesis unfolding p m by (intro mheader_ok [OF assms] mdescend_ok mstd_end_ok) auto
qed

end
