(* ===== verification/Toml_Documents.thy ===== *)
theory Toml_Documents
  imports Toml_Parse_Headers
begin

text \<open>
  Assignments and whole documents in memory, \<open>toml_parse\<close> with what it frees, and documents that
  are parsed, merged and freed.
\<close>

section \<open>Assignments\<close>

text \<open>What is stored below the current table.\<close>

abbreviation around :: "mparser \<Rightarrow> ptr multiset" where
  "around mp \<equiv> owned (mput_at (mp_toptab mp) (mp_curtab mp) MZERO)"

lemma below_cur:
  assumes "mirrors q R h mp pp" and "built (around mp + R) h t h'"
  shows "built R h (mput_at (mp_toptab mp) (mp_curtab mp) t) h'"
    "pl_ptr (rd_pool rd) = q \<Longrightarrow> pure = Some (Inl e) \<or> grants h \<noteq> [] \<and> refused e \<Longrightarrow>
       emakes q R h pure (Some (mp\<lparr>mp_in := rd, mp_toptab := mput_at (mp_toptab mp) (mp_curtab mp) t\<rparr>, Some e, h'))"
    "pure = Some (Inl e) \<or> grants h \<noteq> [] \<and> refused e \<Longrightarrow>
       emakes q R h pure (Some (mp\<lparr>mp_toptab := mput_at (mp_toptab mp) (mp_curtab mp) t\<rparr>, Some e, h'))"
proof -
  have t: "heap_ok h" "roomy h (mp_toptab mp)" using assms(1) by (simp_all add: mirrors_def tabled_def owns_def)
  show b: "built R h (mput_at (mp_toptab mp) (mp_curtab mp) t) h'" by (rule put_at_built [OF t mirrors_cur(1) [OF assms(1)] assms(2)])
  show "pl_ptr (rd_pool rd) = q \<Longrightarrow> pure = Some (Inl e) \<or> grants h \<noteq> [] \<and> refused e \<Longrightarrow>
       emakes q R h pure (Some (mp\<lparr>mp_in := rd, mp_toptab := mput_at (mp_toptab mp) (mp_curtab mp) t\<rparr>, Some e, h'))"
    using b by (intro emakes_fail) auto
  show "pure = Some (Inl e) \<or> grants h \<noteq> [] \<and> refused e \<Longrightarrow>
       emakes q R h pure (Some (mp\<lparr>mp_toptab := mput_at (mp_toptab mp) (mp_curtab mp) t\<rparr>, Some e, h'))"
    by (rule mirrors_lost [OF assms(1) b])
qed

lemma cur_stored:
  assumes "mirrors q R h mp pp" and "built (around mp + R) h tab h'" and "tabled q (around mp + R) h' tab"
    and "mcost tab + pl_top (rd_pool (mp_in mp)) \<le> mcost (mat (mp_toptab mp) (mp_curtab mp)) + pl_top (rd_pool rd)"
    and "reads rd pp2" and "pool_on (mp_in mp) rd" and "toptab pp2 = toptab pp" and "curtab pp2 = curtab pp"
    and "d = put_at (toptab pp2) (curtab pp2) (forget tab)" and "doc_ok (pp2\<lparr>toptab := d\<rparr>)"
  shows "emakes q R h (Some (Inr (pp2\<lparr>toptab := d\<rparr>)))
    (Some (mp\<lparr>mp_in := rd, mp_toptab := mput_at (mp_toptab mp) (mp_curtab mp) tab\<rparr>, None, h'))"
proof -
  note m = mirrors_facts [OF assms(1)] and c = mirrors_cur [OF assms(1)]
  note pl = placed [OF m(1) c(1) assms(2,3)]
  have "keeps_blocks R h h'" using pl(1) by (simp add: built_def)
  then have "pooled q R h' rd" by (rule pooled_on [OF m(2) assms(6)])
  moreover have "mcost (mput_at (mp_toptab mp) (mp_curtab mp) tab) \<le> pl_top (rd_pool rd)"
    using pl(3) assms(1,4) by (simp add: mirrors_def)
  moreover have "mp_curref mp = maddr (mput_at (mp_toptab mp) (mp_curtab mp) tab) (mp_curtab mp)"
    using assms(1) maddr_put [OF c(1)] by (simp add: mirrors_def)
  moreover have "forget (mput_at (mp_toptab mp) (mp_curtab mp) tab) = d" using forget_at(2) [OF c(1)] assms(7-9) m(4,5) by simp
  ultimately show ?thesis
    using pl(1) pl(2) [OF c(2)] assms(5,6,8,10) m(5,8) by (simp add: emakes_def mirrors_def reads_def pool_on_def)
qed

lemma value_stored:
  assumes "mirrors q R h mp pp" and "built (around mp + R) h tab1 h1" and "tabled q (around mp + R) h1 tab1"
    and "mcost tab1 \<le> mcost (mat (mp_toptab mp) (mp_curtab mp))" and "mpath tab1 path" and "mtype (mat tab1 path) = TOML_TABLE"
    and "reads rd pp1" and "pool_on (mp_in mp) rd" and "toptab pp1 = toptab pp" and "curtab pp1 = curtab pp"
    and pure: "pure =
    (case parse_val n val pp1 of
       None \<Rightarrow> None
     | Some (Inl e) \<Rightarrow> Some (Inl e)
     | Some (Inr (v, pp2)) \<Rightarrow>
         (case tab_add (datum_at (forget tab1) path) key v of
            Inl reason \<Rightarrow> Some (Inl (seterror ln reason))
          | Inr t \<Rightarrow> Some (Inr (pp2\<lparr>toptab := put_at (toptab pp2) (curtab pp2) (put_at (forget tab1) path t)\<rparr>))))"
    and doc: "\<And>pp'. pure = Some (Inr pp') \<Longrightarrow> doc_ok pp'"
  shows "emakes q R h pure
    (case mparse_val n val rd h1 of
       None \<Rightarrow> None
     | Some (v, Inl e, h3) \<Rightarrow> Some (mp\<lparr>mp_toptab := mput_at (mp_toptab mp) (mp_curtab mp) tab1\<rparr>, Some e, mfree v h3)
     | Some (v, Inr rd2, h3) \<Rightarrow>
         (case mstore tab1 path (q, key) v h3 of
            (tab2, r, h4) \<Rightarrow>
              Some (mp\<lparr>mp_in := rd2, mp_toptab := mput_at (mp_toptab mp) (mp_curtab mp) tab2\<rparr>, map_option (seterror ln) r, h4)))"
proof -
  let ?S = "around mp + R"
  have h1: "owns ?S h1 tab1" "heap_ok h1" "alive h1 = owned tab1 + ?S" "grants h = [] \<longrightarrow> grants h1 = []" "keeps_blocks ?S h h1"
    using assms(2) by (simp_all add: built_def owns_def)
  have q: "pl_ptr (rd_pool rd) = q" using assms(8) mirrors_facts(8) [OF assms(1)] by (simp add: pool_on_def)
  have "pooled q ((owned tab1 + around mp) + R) h1 rd"
    using pooled_on [OF mirrors_facts(2) [OF assms(1)] assms(8)] keeps_blocks_sub [OF h1(5), of R] by (intro pooled_more) simp
  then have "vmakes q (owned tab1 + ?S) h1 rd 0 (parse_val n val pp1) (mparse_val n val rd h1)"
    using h1(2,3) assms(7) by (intro mvalues_ok(1)) (auto simp: ac_simps)
  note vm = this [unfolded vmakes_def]
  show ?thesis
  proof (cases "mparse_val n val rd h1")
    case None
    with vm show ?thesis by (simp add: emakes_def pure)
  next
    case (Some a)
    obtain v r h2 where a: "a = (v, r, h2)" by (metis prod_cases3)
    have bv: "built (owned tab1 + ?S) h1 v h2" "pools v \<subseteq> {q}" using vm by (simp_all add: Some a)
    show ?thesis
    proof (cases r)
      case (Inl e)
      have "built ?S h tab1 (mfree v h2)" by (rule built_then [OF assms(2) value_dropped [OF h1(1) bv(1)]])
      from below_cur(3) [OF assms(1) this] vm Inl h1(4) show ?thesis by (auto simp: Some a pure)
    next
      case (Inr rd2)
      then obtain pp2 where pv: "parse_val n val pp1 = Some (Inr (forget v, pp2))" "reads rd2 pp2" "pool_on rd rd2"
        "mcost v + pl_top (rd_pool rd) \<le> pl_top (rd_pool rd2)" using vm by (auto simp: Some a)
      have pp2: "toptab pp2 = toptab pp" "curtab pp2 = curtab pp"
        using steadyD [OF values_steady(1) pv(1)] assms(9,10) by (auto simp: moves_def)
      obtain tab2 e h3 where s: "mstore tab1 path (q, key) v h2 = (tab2, e, h3)" by (metis prod_cases3)
      note te = table_entry [OF assms(3,5,6) _ bv s]
      have b3: "built ?S h tab2 h3" by (rule built_then [OF assms(2) te(1)]) simp
      have on: "pool_on (mp_in mp) rd2" by (rule pool_on_trans [OF assms(8) pv(3)])
      note defs = Some a Inr s pure pv(1) forget_at(1) [OF assms(5), symmetric]
      show ?thesis
      proof (cases e)
        case (Some reason)
        have "pl_ptr (rd_pool rd2) = q" using pv(3) q by (simp add: pool_on_def)
        from below_cur(2) [OF assms(1) b3 this] te(5) Some h1(4) show ?thesis by (auto simp: defs)
      next
        case None
        then obtain t where t: "tab_add (forget (mat tab1 path)) key (forget v) = Inr t" "forget tab2 = put_at (forget tab1) path t"
          using te(5) by auto
        have c: "mcost tab2 + pl_top (rd_pool (mp_in mp)) \<le> mcost (mat (mp_toptab mp) (mp_curtab mp)) + pl_top (rd_pool rd2)"
          using te(3) assms(4,8) pv(4) by (simp add: pool_on_def)
        have p: "pure = Some (Inr (pp2\<lparr>toptab := put_at (toptab pp2) (curtab pp2) (forget tab2)\<rparr>))" using t by (simp add: defs)
        from cur_stored [OF assms(1) b3 te(2) c pv(2) on pp2 refl doc [OF p]] p None show ?thesis by (simp add: \<open>mparse_val n val rd h1 = Some a\<close> a Inr s)
      qed
    qed
  qed
qed

lemma mparse_keyvalue_ok:
  assumes "mirrors q R h mp pp"
  shows "emakes q R h (parse_keyvalue_expr n tok pp) (mparse_keyvalue_expr n tok mp h)"
proof (cases "parse_key tok pp")
  case (Inl e)
  have "mparse_key tok (mp_in mp) h = (Inl e, h)" using mparse_key_ok [OF mirrors_facts(2,3) [OF assms], of tok] Inl by simp
  then show ?thesis by (simp add: mparse_keyvalue_expr_def parse_keyvalue_expr_def Inl Let_def mirrors_fail [OF assms refl])
next
  case (Inr b)
  obtain keys pp1 where b: "b = (keys, pp1)" by (cases b)
  let ?rd = "as_reader (mp_in mp) pp1" and ?ks = "map (Pair q) keys" and ?ln = "tok_lineno tok" and ?S = "around mp + R"
  note m = mirrors_facts [OF assms] and c = mirrors_cur [OF assms]
  have "parse_key tok (pp\<lparr>scan := rd_scan (mp_in mp)\<rparr>) = Inr (keys, pp1)" using Inr b by (simp flip: m(6))
  note k = expr_key [OF assms this, simplified]
  obtain tab1 r h1 where w: "mkeyvalue_walk ?ln True (mat (mp_toptab mp) (mp_curtab mp)) (butlast ?ks) h = (tab1, r, h1)"
    by (metis prod_cases3)
  have wk: "walks q ?S h (mat (mp_toptab mp) (mp_curtab mp))
      (keyvalue_walk ?ln True (datum_at (toptab pp1) (curtab pp1)) (butlast keys)) (tab1, r, h1)"
    using mkeyvalue_walk_ok [OF tabled_at [OF m(1) c(1,2)], of "butlast ?ks" ?ln True] w
    by (simp add: butlast_pair comp_def k(6,7) m(4,5) forget_at(1) [OF c(1)])
  have "q \<in># ?S" using assms by (simp add: mirrors_def tabled_def)
  note wd = walked [OF wk this]
  note fail = below_cur(3) [OF assms wd(1)]
  have len: "length ?ks = length keys" and lst: "last ?ks = (q, last keys)" using k(2) by (simp_all add: last_map)
  note defs = mparse_keyvalue_expr_def parse_keyvalue_expr_def Let_def Inr b k(1,5) c(3) w len
  show ?thesis
  proof (cases "\<exists>eq sp2 path val sp3. scan_key (scan pp1) = Inr (eq, sp2) \<and> toktyp eq = TOK_EQUAL \<and> r = Inr path \<and>
      \<not> has_flag FLAG_INLINED (forget (mat tab1 path)) \<and> \<not> (1 < length keys \<and> has_flag FLAG_EXPLICIT (forget (mat tab1 path))) \<and>
      scan_value sp2 = Inr (val, sp3)")
    case False
    show ?thesis
    proof (cases "\<exists>eq sp2. scan_key (scan pp1) = Inr (eq, sp2) \<and> toktyp eq = TOK_EQUAL")
      case no: False
      then show ?thesis using mirrors_fail [OF assms refl] by (cases "scan_key (scan pp1)") (auto simp: defs)
    next
      case True
      then obtain eq sp2 where s: "scan_key (scan pp1) = Inr (eq, sp2)" "toktyp eq = TOK_EQUAL" by blast
      show ?thesis
      proof (cases r)
        case (Inl e)
        with wd(4) [OF Inl] fail show ?thesis by (auto simp: defs s)
      next
        case r: (Inr path)
        with False s fail wd(5) [OF r] show ?thesis
          by (cases "scan_value sp2") (auto simp: defs s forget_at(1))
      qed
    qed
  next
    case True
    then obtain eq sp2 path val sp3 where s: "scan_key (scan pp1) = Inr (eq, sp2)" "toktyp eq = TOK_EQUAL" "r = Inr path"
      "\<not> has_flag FLAG_INLINED (forget (mat tab1 path))" "\<not> (1 < length keys \<and> has_flag FLAG_EXPLICIT (forget (mat tab1 path)))"
      "scan_value sp2 = Inr (val, sp3)" by blast
    note p = wd(5) [OF s(3)]
    let ?rd' = "?rd\<lparr>rd_scan := sp3\<rparr>" and ?pp = "pp1\<lparr>scan := sp3\<rparr>"
    have pp: "reads ?rd' ?pp" "pool_on (mp_in mp) ?rd'" "toptab ?pp = toptab pp" "curtab ?pp = curtab pp"
      using k(3,4,6,7) by (simp_all add: reads_def)
    have s': "\<not> has_flag FLAG_INLINED (datum_at (forget tab1) path)" "\<not> (1 < length keys \<and> has_flag FLAG_EXPLICIT (datum_at (forget tab1) path))"
      using s(4,5) p by (simp_all add: forget_at(1))
    have doc: "doc_ok pp'" if "parse_keyvalue_expr n tok pp = Some (Inr pp')" for pp'
      using parse_keyvalue_ok [OF _ that] assms by (simp add: mirrors_def)
    show ?thesis
      using value_stored [OF assms wd(1-3) _ _ pp refl, where path = path and n = n and val = val and key = "last keys" and ln = ?ln, folded lst] p s s' doc
      by (cases "1 < length keys") (simp_all add: defs)
  qed
qed

lemma mparse_expr_ok:
  "mirrors q R h mp pp \<Longrightarrow> emakes q R h (parse_expr n tok pp) (mparse_expr n tok mp h)"
  by (simp add: parse_expr_def mparse_expr_def mparse_std_ok mparse_array_ok mparse_keyvalue_ok)


section \<open>Documents\<close>

lemma mirrors_scan:
  "mirrors q R h mp pp \<Longrightarrow> mirrors q R h (mp_set_scan sp mp) (pp\<lparr>scan := sp\<rparr>)"
  by (auto simp: mirrors_def reads_def doc_ok_def)

text \<open>The whole document: the tree and the pool, or the error.\<close>

definition dmakes :: "ptr \<Rightarrow> ptr multiset \<Rightarrow> heap \<Rightarrow> (string + datum) option \<Rightarrow> expr option \<Rightarrow> bool" where
  "dmakes q R h pure r \<longleftrightarrow>
     (case r of
        None \<Rightarrow> pure = None
      | Some (mp, e, h') \<Rightarrow>
          built R h (mp_toptab mp) h' \<and> pl_ptr (rd_pool (mp_in mp)) = q \<and>
          (case e of
             None \<Rightarrow> pure = Some (Inr (forget (mp_toptab mp))) \<and> tabled q R h' (mp_toptab mp) \<and> pooled q R h' (mp_in mp) \<and>
               mcost (mp_toptab mp) \<le> pl_top (rd_pool (mp_in mp))
           | Some reason \<Rightarrow> pure = Some (Inl reason) \<or> grants h \<noteq> [] \<and> refused reason))"

lemma dmakes_fail:
  "built R h (mp_toptab mp) h' \<Longrightarrow> pl_ptr (rd_pool (mp_in mp)) = q \<Longrightarrow> pure = Some (Inl e) \<or> grants h \<noteq> [] \<and> refused e \<Longrightarrow>
     dmakes q R h pure (Some (mp, Some e, h'))"
  by (simp add: dmakes_def)

lemma dmakes_then:
  assumes "built R h d h1" and "dmakes q R h1 pure r"
  shows "dmakes q R h pure r"
proof -
  have "grants h = [] \<longrightarrow> grants h1 = []" using assms(1) by (simp add: built_def)
  then show ?thesis using assms(2) built_then [OF assms(1)] by (auto simp: dmakes_def split: option.splits)
qed

lemma mdoc_loop_ok: "mirrors q R h mp pp \<Longrightarrow> dmakes q R h (doc_loop n pp) (mdoc_loop n mp h)"
proof (induction n arbitrary: h mp pp)
  case 0
  then show ?case by (simp add: dmakes_def)
next
  case (Suc n)
  note m = mirrors_facts [OF Suc.prems]
  show ?case
  proof (cases "scan_key (scan pp)")
    case (Inl e)
    with m show ?thesis by (auto intro!: dmakes_fail)
  next
    case (Inr a)
    obtain tok sp1 where a: "a = (tok, sp1)" by (cases a)
    note m1 = mirrors_scan [OF Suc.prems, of sp1]
    consider (fin) "toktyp tok = TOK_FIN" | (endl) "toktyp tok = TOK_ENDL"
      | (expr) "toktyp tok \<noteq> TOK_FIN" "toktyp tok \<noteq> TOK_ENDL" by blast
    then show ?thesis
    proof cases
      case fin
      with m Inr a Suc.prems show ?thesis by (auto simp: dmakes_def mirrors_def)
    next
      case endl
      with Suc.IH [OF m1] m Inr a show ?thesis by simp
    next
      case expr
      note defs = doc_loop.simps mdoc_loop.simps m(6) [symmetric] Inr a prod.case sum.case if_not_P [OF expr(1)] if_not_P [OF expr(2)]
      show ?thesis
      proof (cases "mparse_expr n tok (mp_set_scan sp1 mp) h")
        case None
        then show ?thesis using mparse_expr_ok [OF m1, of n tok] by (simp add: defs emakes_def dmakes_def)
      next
        case (Some b)
        obtain mp1 e h1 where b: "b = (mp1, e, h1)" by (metis prod_cases3)
        note em = mparse_expr_ok [OF m1, of n tok, unfolded Some b emakes_def option.case prod.case]
        then have b1: "built R h (mp_toptab mp1) h1" "pl_ptr (rd_pool (mp_in mp1)) = q" by simp_all
        show ?thesis
        proof (cases e)
          case e: (Some reason)
          with em show ?thesis by (auto simp: defs Some b intro!: dmakes_fail)
        next
          case None
          then obtain pp1 where pp1: "parse_expr n tok (pp\<lparr>scan := sp1\<rparr>) = Some (Inr pp1)" "mirrors q R h1 mp1 pp1" using em by auto
          note defs2 = defs Some b None pp1(1) mirrors_facts(6) [OF pp1(2), symmetric]
          show ?thesis
          proof (cases "scan_key (scan pp1)")
            case (Inl e')
            with b1 show ?thesis by (auto simp: defs2 intro!: dmakes_fail)
          next
            case (Inr c)
            obtain tok2 sp2 where c: "c = (tok2, sp2)" by (cases c)
            show ?thesis
              using dmakes_then [OF b1(1) Suc.IH [OF mirrors_scan [OF pp1(2), of sp2]]] dmakes_fail [OF b1] Inr c
              by (simp add: defs2)
          qed
        qed
      qed
    qed
  qed
qed

section \<open>Parsing a document\<close>

lemma mpool_create_size:
  assumes "heap_ok h" and "mpool_create (int n) h = (Some pl, h')"
  shows "size_of h' (pl_ptr pl) = Some (SIZEOF_POOL + pl_max pl)"
proof -
  obtain p h1 where m: "mem_realloc 0 (SIZEOF_POOL + (if n = 0 then 100 else n)) h = (p, h1)"
    by (cases "mem_realloc 0 (SIZEOF_POOL + (if n = 0 then 100 else n)) h")
  show ?thesis
    using assms(2) m mem_realloc_ok(5) [OF assms(1) _ m, of "alive h"]
    by (auto simp: mpool_create_def mem_alloc_def split: if_splits)
qed

lemma mirrors_init:
  assumes "heap_ok h" and "mpool_create (int (length src + 10)) h = (Some pl, h1)"
  shows "mirrors (pl_ptr pl) ({#pl_ptr pl#} + alive h) h1 (mparser_init src pl) (parser_init src)"
proof -
  note c = mpool_create_ok [OF assms]
  have p: "alive h1 = {#pl_ptr pl#} + alive h" "pl_top pl = 0" "pl_max pl = length src + 10" using c(5) [OF refl] by simp_all
  show ?thesis
    using c(1) p doc_ok_init [of src] mpool_create_size [OF assms] mnew_table_simps(1) [of False]
    by (auto simp: mirrors_def mparser_init_def parser_init_def tabled_def owns_def pooled_def reads_def mnew_table_def)
qed

text \<open>What a call of \<open>toml_parse\<close> leaves behind.\<close>

definition parsed :: "(string + datum) option \<Rightarrow> heap \<Rightarrow> mresult \<times> heap \<Rightarrow> bool" where
  "parsed pure h res \<longleftrightarrow>
     (case res of (r, h') \<Rightarrow>
        heap_ok h' \<and> alive h' = blocks_of r + alive h \<and> keeps_blocks (alive h) h h' \<and> roomy h' (mr_toptab r) \<and>
        (grants h = [] \<longrightarrow> grants h' = [] \<and> pure = Some (mdoc r)) \<and>
        (if mr_ok r then pure = Some (mdoc r) \<and> usable h' r \<and> pools (mr_toptab r) \<subseteq> set_mset (blocks_of r) \<and> mcost (mr_toptab r) \<le> pool_used r
         else blocks_of r = {#} \<and> (pure = Some (mdoc r) \<or> refused (mr_errmsg r))))"

lemma parsed_failed:
  assumes "heap_ok h'" and "alive h' = alive h" and "keeps_blocks (alive h) h h'" and "grants h = [] \<Longrightarrow> grants h' = []"
    and "pure = Some (Inl e) \<or> grants h \<noteq> [] \<and> refused e"
  shows "parsed pure h (parse_failed e, h')"
  using assms by (auto simp: parsed_def parse_failed_def blocks_of_def mdoc_def)

lemma parse_bail:
  assumes "built ({#pl_ptr pl#} + alive h) h1 t h2" and "pl_ptr pl \<noteq> 0" and "keeps_blocks (alive h) h h1"
  shows "freed (alive h) h2 (mpool_destroy (Some pl) (mfree t h2)) \<and> keeps_blocks (alive h) h (mpool_destroy (Some pl) (mfree t h2))"
proof -
  let ?r = "\<lparr>mr_ok = True, mr_toptab = t, mr_errmsg = [], mr_pool = Some pl\<rparr>"
  have b: "heap_ok h2" "alive h2 = blocks_of ?r + alive h" "roomy h2 t" "keeps_blocks ({#pl_ptr pl#} + alive h) h1 h2"
    using assms(1,2) by (simp_all add: built_def owns_def blocks_of_def)
  have f: "freed (alive h) h2 (mtoml_free ?r h2)" using b by (intro mtoml_free_ok) simp_all
  have "keeps_blocks (alive h) h1 h2" by (rule keeps_blocks_sub [OF b(4)]) auto
  with f assms(3) show ?thesis by (auto simp: freed_def mtoml_free_def intro: keeps_blocks_trans)
qed

text \<open>What the end of \<open>toml_parse\<close> makes of the loop: the document, or nothing.\<close>

definition doc_end :: "mparser \<times> string option \<times> heap \<Rightarrow> mresult \<times> heap" where
  "doc_end r = (case r of
     (mp, Some e, h) \<Rightarrow> (parse_failed e, mpool_destroy (Some (rd_pool (mp_in mp))) (mfree (mp_toptab mp) h))
   | (mp, None, h) \<Rightarrow> (\<lparr>mr_ok = True, mr_toptab = mp_toptab mp, mr_errmsg = [], mr_pool = Some (rd_pool (mp_in mp))\<rparr>, h))"

lemma doc_end_ok:
  assumes "mpool_create (int (length src + 10)) h = (Some pl, h1)" and "heap_ok h"
    and "dmakes (pl_ptr pl) ({#pl_ptr pl#} + alive h) h1 (toml_parse opt buf len) (Some r)"
  shows "parsed (toml_parse opt buf len) h (doc_end r)"
proof -
  let ?q = "pl_ptr pl" and ?R = "{#pl_ptr pl#} + alive h"
  note cr = mpool_create_ok [OF assms(2,1)]
  have q: "?q \<noteq> 0" "alive h1 = ?R" "grants h = [] \<longrightarrow> grants h1 = []" using cr(3,5) by auto
  obtain mp e h2 where r: "r = (mp, e, h2)" by (metis prod_cases3)
  note dm = assms(3) [unfolded r dmakes_def option.case prod.case]
  then have b: "built ?R h1 (mp_toptab mp) h2" and qp: "pl_ptr (rd_pool (mp_in mp)) = ?q" by simp_all
  then have g: "grants h = [] \<longrightarrow> grants h2 = []" using q(3) by (simp add: built_def)
  show ?thesis
  proof (cases e)
    case e: (Some reason)
    have "freed (alive h) h2 (mpool_destroy (Some (rd_pool (mp_in mp))) (mfree (mp_toptab mp) h2)) \<and>
        keeps_blocks (alive h) h (mpool_destroy (Some (rd_pool (mp_in mp))) (mfree (mp_toptab mp) h2))"
      using b q(1) cr(2) by (intro parse_bail [of _ _ h1]) (simp_all add: qp)
    then show ?thesis
      using dm g q(3) e by (auto simp: doc_end_def r freed_def intro!: parsed_failed)
  next
    case None
    let ?r = "\<lparr>mr_ok = True, mr_toptab = mp_toptab mp, mr_errmsg = [], mr_pool = Some (rd_pool (mp_in mp))\<rparr>"
    from None have t: "toml_parse opt buf len = Some (Inr (forget (mp_toptab mp)))" "tabled ?q ?R h2 (mp_toptab mp)"
      "mcost (mp_toptab mp) \<le> pl_top (rd_pool (mp_in mp))" using dm by simp_all
    have o: "heap_ok h2" "alive h2 = owned (mp_toptab mp) + ?R" "roomy h2 (mp_toptab mp)" "pools (mp_toptab mp) \<subseteq> {?q}"
      using t(2) by (simp_all add: tabled_def owns_def)
    have "keeps_blocks ?R h1 h2" using b unfolding built_def by blast
    then have "keeps_blocks (alive h) h1 h2" by (rule keeps_blocks_sub) auto
    then have "keeps_blocks (alive h) h h2" by (rule keeps_blocks_trans [OF cr(2)])
    moreover have "wf_datum (forget (mp_toptab mp))" using tree_ok_wf toml_parse_ok [OF t(1)] by blast
    moreover have "blocks_of ?r = owned (mp_toptab mp) + {#?q#}" using q(1) by (simp add: blocks_of_def qp)
    ultimately have "parsed (toml_parse opt buf len) h (?r, h2)"
      using o t g by (auto simp: parsed_def mdoc_def usable_def pool_used_def)
    then show ?thesis by (simp add: doc_end_def r None)
  qed
qed

lemma mtoml_parse_ok:
  assumes "heap_ok h" and "len \<le> length buf"
  shows "\<exists>res. mtoml_parse opt buf len h = Some res \<and> parsed (toml_parse opt buf len) h res"
proof (cases "at buf len \<noteq> NUL \<or> (check_utf8 opt \<and> utf8_check 1 (take len buf) \<noteq> None)")
  case True
  then show ?thesis
    using assms(1) by (auto simp: mtoml_parse_def toml_parse_def Let_def intro!: parsed_failed)
next
  case False
  let ?src = "take len buf"
  have len: "length ?src = len" using assms(2) by simp
  have pure: "toml_parse opt buf len = doc_loop (parse_fuel ?src) (parser_init ?src)"
    using False by (auto simp: toml_parse_def Let_def split: option.split)
  obtain opl h1 where c: "mpool_create (int (length ?src + 10)) h = (opl, h1)"
    by (cases "mpool_create (int (length ?src + 10)) h")
  have mem: "mtoml_parse opt buf len h =
    (case opl of
       None \<Rightarrow> Some (parse_failed ''out of memory'', h1)
     | Some pl \<Rightarrow> map_option doc_end (mdoc_loop (parse_fuel ?src) (mparser_init ?src pl) h1))"
    using False c [unfolded len] by (auto simp: mtoml_parse_def Let_def doc_end_def split: option.split)
  note cr = mpool_create_ok [OF assms(1) c]
  show ?thesis
  proof (cases opl)
    case None
    then have "grants h \<noteq> []" "alive h1 = alive h" using cr(3,4) by auto
    then show ?thesis using cr(1,2) None by (auto simp: mem refused_def intro!: parsed_failed)
  next
    case (Some pl)
    have d: "dmakes (pl_ptr pl) ({#pl_ptr pl#} + alive h) h1 (toml_parse opt buf len) (mdoc_loop (parse_fuel ?src) (mparser_init ?src pl) h1)"
      unfolding pure by (rule mdoc_loop_ok [OF mirrors_init [OF assms(1) c [unfolded Some]]])
    then obtain r where m: "mdoc_loop (parse_fuel ?src) (mparser_init ?src pl) h1 = Some r"
      using toml_parse_total [of opt buf len] by (auto simp: dmakes_def split: option.splits)
    show ?thesis using doc_end_ok [OF c [unfolded Some] assms(1) d [unfolded m]] by (simp add: mem Some m)
  qed
qed

section \<open>Documents from the parser to the merge\<close>

lemma parsed_room:
  "parsed p1 h1 (r1, g1) \<Longrightarrow> parsed p2 h2 (r2, g2) \<Longrightarrow> mr_ok r1 \<Longrightarrow> mr_ok r2 \<Longrightarrow> room_for_both r1 r2"
  by (auto simp: parsed_def room_for_both_def)

lemma usable_keep:
  assumes "usable h r" and "heap_ok h" and "keeps_blocks (alive h) h h'" and "set_mset (alive h) \<subseteq> set_mset (alive h')"
  shows "usable h' r"
proof -
  have "set_mset (owned (mr_toptab r)) \<subseteq> set_mset (alive h)" using assms(1) by (auto simp: usable_def blocks_of_def)
  then have "roomy h' (mr_toptab r)" using assms(1) by (intro roomy_keep [OF assms(2) _ _ assms(3)]) (simp_all add: usable_def)
  with assms(1,4) show ?thesis by (auto simp: usable_def)
qed

lemma parsed_keep:
  assumes "parsed pure h (r, h')" and "mr_ok r" and "heap_ok h'" and "keeps_blocks (alive h') h' h2"
    and "set_mset (alive h') \<subseteq> set_mset (alive h2)"
  shows "usable h2 r"
  using assms usable_keep [of h' r h2] by (auto simp: parsed_def)

text \<open>Two documents are parsed and merged, and all three are freed.\<close>

lemma freed_results:
  assumes "heap_ok h" and "alive h = blocks_of r + S" and "roomy h (mr_toptab r)"
  shows "heap_ok (mtoml_free r h) \<and> alive (mtoml_free r h) = S \<and> keeps_blocks S h (mtoml_free r h)"
  using mtoml_free_ok [OF assms] by (simp add: freed_def)

lemma parse_merge_ok:
  assumes "heap_ok h" and "len1 \<le> length buf1" and "len2 \<le> length buf2"
    and "mtoml_parse opt buf1 len1 h = Some (r1, h1)" and "mtoml_parse opt buf2 len2 h1 = Some (r2, h2)"
    and "mtoml_merge r1 r2 h2 = (r, h3)"
  shows "heap_ok h3 \<and> alive h3 = blocks_of r + (blocks_of r2 + (blocks_of r1 + alive h)) \<and> keeps_blocks (alive h2) h2 h3 \<and>
    roomy h3 (mr_toptab r) \<and> roomy h3 (mr_toptab r1) \<and> roomy h3 (mr_toptab r2) \<and>
    (mr_ok r \<longrightarrow> usable h3 r \<and> toml_parse opt buf1 len1 = Some (mdoc r1) \<and> toml_parse opt buf2 len2 = Some (mdoc r2) \<and>
       toml_merge (mdoc r1) (mdoc r2) = mdoc r) \<and>
    (grants h = [] \<longrightarrow> toml_parse opt buf1 len1 = Some (mdoc r1) \<and> toml_parse opt buf2 len2 = Some (mdoc r2) \<and>
       (mr_ok r \<longleftrightarrow> (\<exists>d. toml_merge (mdoc r1) (mdoc r2) = Inr d)))"
proof -
  have p1: "parsed (toml_parse opt buf1 len1) h (r1, h1)" using mtoml_parse_ok [OF assms(1,2), of opt] assms(4) by auto
  then have o1: "heap_ok h1" "alive h1 = blocks_of r1 + alive h" "roomy h1 (mr_toptab r1)" by (simp_all add: parsed_def)
  have p2: "parsed (toml_parse opt buf2 len2) h1 (r2, h2)" using mtoml_parse_ok [OF o1(1) assms(3), of opt] assms(5) by auto
  then have o2: "heap_ok h2" "alive h2 = blocks_of r2 + alive h1" "roomy h2 (mr_toptab r2)" "keeps_blocks (alive h1) h1 h2"
    by (simp_all add: parsed_def)
  have r12: "roomy h2 (mr_toptab r1)"
    by (rule roomy_keep [OF o1(1,3) _ o2(4)]) (auto simp: o1(2) blocks_of_def)
  show ?thesis
  proof (cases "mr_ok r1 \<and> mr_ok r2")
    case False
    then have eq: "h3 = h2" "\<not> mr_ok r" "blocks_of r = {#}" "roomy h2 (mr_toptab r)"
      using assms(6) by (auto simp: mtoml_merge_def failed_result_def blocks_of_def split: if_splits)
    have "\<nexists>d. toml_merge (mdoc r1) (mdoc r2) = Inr d" using False by (auto simp: toml_merge_def mdoc_def split: sum.splits if_splits)
    with eq o1 o2 r12 p1 p2 show ?thesis by (auto simp: parsed_def)
  next
    case True
    have u: "usable h2 r1" "usable h2 r2" using True p1 p2 o1(1) o2 parsed_keep [OF p1 _ o1(1) o2(4)] by (auto simp: parsed_def)
    note m = mtoml_merge_ok [OF o2(1) u, unfolded assms(6) merged_def prod.case]
    then have k: "keeps_blocks (alive h2) h2 h3" by simp
    have "roomy h3 (mr_toptab r1)" "roomy h3 (mr_toptab r2)"
      using roomy_keep [OF o2(1) r12 _ k] roomy_keep [OF o2(1,3) _ k] o1(2) o2(2) by (auto simp: blocks_of_def)
    then show ?thesis
      using m p1 p2 True parsed_room [OF p1 p2] o1(2) o2(2) by (auto simp: parsed_def mdoc_def split: if_splits)
  qed
qed

end
