(* ===== verification/Toml_Files.thy ===== *)
theory Toml_Files
  imports Toml_Documents Config_File
begin

text \<open>
  \<open>toml_parse_file\<close> of \<open>src/src/lib/tomlc17.c\<close> in memory, with its growing buffer and what it
  frees on each path, and \<open>toml_seek\<close> on a document in memory.
\<close>

section \<open>The buffer\<close>

function mfile_loop :: "ptr \<Rightarrow> string \<Rightarrow> stream \<Rightarrow> heap \<Rightarrow> (string + ptr \<times> string) \<times> heap" where
  "mfile_loop p buf fp h =
     (case grow (length buf) of
        None \<Rightarrow> (Inl ''file is too big'', mem_free p h)
      | Some mx \<Rightarrow>
          (case mem_realloc p (mx + 1) h of
             (q, h1) \<Rightarrow>
               if q = 0 then (Inl ''out of memory'', mem_free p h1)
               else (case fread (mx - length buf) fp of
                       (bs, eof, fp') \<Rightarrow>
                         let h2 = touch q (length (buf @ bs)) h1 in
                         if \<not> eof then mfile_loop q (buf @ bs) fp' h2
                         else (case st_error fp of
                                 Some msg \<Rightarrow> (Inl (snprintf_s ERRMSG_SIZE msg), mem_free q h2)
                               | None \<Rightarrow> (Inr (q, buf @ bs), touch q (length (buf @ bs) + 1) h2)))))"
  by pat_completeness auto
termination
  by (relation "measure (\<lambda>(p, buf, fp, h). length (st_bytes fp))")
    (auto simp: fread_def dest: grow_bigger)

declare mfile_loop.simps [simp del]

definition mtoml_parse_file :: "toml_option \<Rightarrow> stream \<Rightarrow> heap \<Rightarrow> (mresult \<times> heap) option" where
  "mtoml_parse_file opt fp h =
     (case mfile_loop 0 [] fp h of
        (Inl e, h1) \<Rightarrow> Some (parse_failed e, h1)
      | (Inr (q, buf), h1) \<Rightarrow>
          (case mtoml_parse opt buf (length buf) h1 of
             None \<Rightarrow> None
           | Some (r, h2) \<Rightarrow> Some (r, mem_free q h2)))"

text \<open>The buffer holds the whole file, or it has been freed.\<close>

definition loaded :: "ptr multiset \<Rightarrow> heap \<Rightarrow> string + string \<Rightarrow> (string + ptr \<times> string) \<times> heap \<Rightarrow> bool" where
  "loaded R h pure r \<longleftrightarrow>
     (case r of (ans, h') \<Rightarrow>
        heap_ok h' \<and> keeps_blocks R h h' \<and> (grants h = [] \<longrightarrow> grants h' = []) \<and>
        (case ans of
           Inl e \<Rightarrow> alive h' = R \<and> (pure = Inl e \<or> grants h \<noteq> [] \<and> e = ''out of memory'')
         | Inr (q, s) \<Rightarrow> q \<noteq> 0 \<and> alive h' = {#q#} + R \<and> pure = Inr s))"

lemma loaded_then:
  "keeps_blocks R h h1 \<Longrightarrow> (grants h = [] \<Longrightarrow> grants h1 = []) \<Longrightarrow> loaded R h1 pure r \<Longrightarrow> loaded R h pure r"
  by (auto simp: loaded_def intro: keeps_blocks_trans split: sum.splits)

lemma loaded_freed:
  "heap_ok h1 \<Longrightarrow> alive h1 = one_block p + R \<Longrightarrow> keeps_blocks R h h1 \<Longrightarrow> (grants h = [] \<Longrightarrow> grants h1 = []) \<Longrightarrow>
     pure = Inl e \<or> grants h \<noteq> [] \<and> e = ''out of memory'' \<Longrightarrow> loaded R h pure (Inl e, mem_free p h1)"
  using mem_free_ok [of h1 p R] by (auto simp: loaded_def intro: keeps_blocks_trans)

lemma mfile_loop_ok:
  "heap_ok h \<Longrightarrow> alive h = one_block p + R \<Longrightarrow> loaded R h (file_loop (\<lambda>n. True) buf fp) (mfile_loop p buf fp h)"
proof (induction p buf fp h rule: mfile_loop.induct)
  case (1 p buf fp h)
  show ?case
  proof (cases "grow (length buf)")
    case None
    then show ?thesis
      using 1(2,3) by (subst mfile_loop.simps, subst file_loop.simps) (auto intro!: loaded_freed)
  next
    case (Some mx)
    obtain q h1 where m: "mem_realloc p (mx + 1) h = (q, h1)" by (cases "mem_realloc p (mx + 1) h")
    note r = mem_realloc_ok [OF 1(2,3) m]
    obtain bs eof fp' where f: "fread (mx - length buf) fp = (bs, eof, fp')" by (metis prod_cases3)
    have "length (buf @ bs) \<le> mx" using f grow_bigger [OF Some] by (auto simp: fread_def)
    then have t: "touch q n h1 = h1" if "q \<noteq> 0" "n \<le> length (buf @ bs) + 1" for n
      using r(5) that by (intro touch_ok [of h1 q "mx + 1"]) auto
    have step: "mfile_loop p buf fp h =
        (if q = 0 then (Inl ''out of memory'', mem_free p h1)
         else if \<not> eof then mfile_loop q (buf @ bs) fp' h1
         else (case st_error fp of
                 Some msg \<Rightarrow> (Inl (snprintf_s ERRMSG_SIZE msg), mem_free q h1)
               | None \<Rightarrow> (Inr (q, buf @ bs), h1)))"
      using t by (subst mfile_loop.simps) (simp add: Some m [simplified] f Let_def split: option.split)
    have pure: "file_loop (\<lambda>n. True) buf fp =
        (if \<not> eof then file_loop (\<lambda>n. True) (buf @ bs) fp'
         else case st_error fp of Some msg \<Rightarrow> Inl (snprintf_s ERRMSG_SIZE msg) | None \<Rightarrow> Inr (buf @ bs))"
      by (subst file_loop.simps) (simp add: Some f)
    show ?thesis
    proof (cases "q = 0")
      case True
      then have "grants h \<noteq> []" using r(6) by blast
      then show ?thesis unfolding step using True r(1-3,6) by (auto intro!: loaded_freed)
    next
      case q: False
      show ?thesis
      proof (cases eof)
        case False
        have "loaded R h1 (file_loop (\<lambda>n. True) (buf @ bs) fp') (mfile_loop q (buf @ bs) fp' h1)"
          using 1(1) [OF Some m [symmetric] q f [symmetric] refl refl] False t [OF q, of "length (buf @ bs)"] r(1,3) q by simp
        from loaded_then [OF r(2) _ this] r(6) False q show ?thesis unfolding step pure by auto
      next
        case True
        have "loaded R h (Inl e) (Inl e, mem_free q h1)" for e
          by (rule loaded_freed [OF r(1) _ r(2)]) (use r(3,6) q in auto)
        then show ?thesis unfolding step pure using r(1-3,6) q True
          by (cases "st_error fp") (auto simp: loaded_def)
      qed
    qed
  qed
qed

text \<open>A document on its own blocks survives the freeing of the buffer.\<close>

lemma parsed_buffer:
  assumes "parsed pure h1 (r, h2)" and "alive h1 = {#q#} + R" and "q \<noteq> 0" and "keeps_blocks R h h1"
    and "alive h = R" and "grants h = [] \<longrightarrow> grants h1 = []"
  shows "parsed pure h (r, mem_free q h2)"
proof -
  have p: "heap_ok h2" "alive h2 = one_block q + (blocks_of r + R)" "keeps_blocks (alive h1) h1 h2" "roomy h2 (mr_toptab r)"
    using assms(1-3) by (simp_all add: parsed_def)
  note f = mem_free_ok [OF p(1,2)]
  have r: "roomy (mem_free q h2) (mr_toptab r)"
    by (rule roomy_keep [OF p(1,4), of "blocks_of r + R"]) (use f in \<open>auto simp: blocks_of_def\<close>)
  have "keeps_blocks R h1 h2" by (rule keeps_blocks_sub [OF p(3)]) (auto simp: assms(2))
  moreover have "keeps_blocks R h2 (mem_free q h2)" by (rule keeps_blocks_sub [of "blocks_of r + R"]) (use f in auto)
  ultimately have "keeps_blocks R h (mem_free q h2)" using assms(4) by (blast intro: keeps_blocks_trans)
  with assms(1,5,6) f r show ?thesis by (auto simp: parsed_def usable_def split: if_splits)
qed

lemma mtoml_parse_file_ok:
  assumes "heap_ok h"
  shows "\<exists>ans. mtoml_parse_file opt fp h = Some ans \<and> parsed (toml_parse_file opt (\<lambda>n. True) fp) h ans"
proof -
  obtain ans h1 where l: "mfile_loop 0 [] fp h = (ans, h1)" by (cases "mfile_loop 0 [] fp h")
  note ld = mfile_loop_ok [OF assms, of 0 "alive h" "[]" fp, unfolded l loaded_def prod.case, simplified]
  show ?thesis
  proof (cases ans)
    case (Inl e)
    with ld show ?thesis
      by (auto simp: mtoml_parse_file_def toml_parse_file_def l refused_def intro!: parsed_failed)
  next
    case (Inr a)
    obtain q buf where a: "a = (q, buf)" by (cases a)
    have q: "heap_ok h1" "q \<noteq> 0" "alive h1 = {#q#} + alive h" "keeps_blocks (alive h) h h1" "grants h = [] \<longrightarrow> grants h1 = []"
      "file_loop (\<lambda>n. True) [] fp = Inr buf" using ld by (simp_all add: Inr a)
    obtain r h2 where m: "mtoml_parse opt buf (length buf) h1 = Some (r, h2)"
      and p: "parsed (toml_parse opt buf (length buf)) h1 (r, h2)" using mtoml_parse_ok [OF q(1), of "length buf" buf opt] by auto
    from parsed_buffer [OF p q(3,2,4) refl q(5)] show ?thesis
      by (simp add: mtoml_parse_file_def toml_parse_file_def l Inr a m q(6))
  qed
qed

section \<open>Queries\<close>

function mseek_loop :: "mdatum \<Rightarrow> string \<Rightarrow> heap \<Rightarrow> mdatum \<times> heap" where
  "mseek_loop d p h =
     (if mtype d = TOML_TABLE
      then (case split_dot p of
              Some (a, b) \<Rightarrow> (case mtoml_get d a h of (c, h1) \<Rightarrow> mseek_loop c b h1)
            | None \<Rightarrow> mtoml_get d p h)
      else (MZERO, h))"
  by pat_completeness auto
termination
  by (relation "measure (\<lambda>(d, p, h). length p)") (auto simp: split_dot_length)

declare mseek_loop.simps [simp del]

definition mtoml_seek :: "mdatum \<Rightarrow> string \<Rightarrow> heap \<Rightarrow> mdatum \<times> heap" where
  "mtoml_seek table multipart_key h =
     (if mtype table \<noteq> TOML_TABLE then (MZERO, h)
      else case copystring 256 multipart_key of
             None \<Rightarrow> (MZERO, h)
           | Some buf \<Rightarrow> mseek_loop table buf h)"

definition readable :: "heap \<Rightarrow> mdatum \<Rightarrow> bool" where
  "readable h d \<longleftrightarrow> heap_ok h \<and> roomy h d \<and> pools d \<subseteq> set_mset (alive h)"

lemma readable_zero: "heap_ok h \<Longrightarrow> readable h MZERO"
  by (simp add: readable_def)

lemma get_loop_readable:
  "heap_ok h \<Longrightarrow> block_holds h k (SIZEOF_PTR * (i + length kvs)) \<Longrightarrow> block_holds h v (SIZEOF_DATUM * (i + length kvs)) \<Longrightarrow>
     \<forall>(s, d) \<in> set kvs. fst s \<in># alive h \<and> readable h d \<Longrightarrow>
     \<exists>d. mget_loop k v i kvs key h = (d, h) \<and> readable h d \<and> forget d = get_loop (map (\<lambda>(s, d). (snd s, forget d)) kvs) key"
proof (induction kvs arbitrary: i)
  case Nil
  then show ?case by (simp add: readable_zero)
next
  case (Cons kv kvs)
  obtain s d where kv: "kv = (s, d)" by (cases kv)
  have "touch k (SIZEOF_PTR * (i + 1)) h = h" "touch v (SIZEOF_DATUM * (i + 1)) h = h" "read_span s h = h"
    using Cons.prems kv holds_touch [of h _ "_ * (i + length (kv # kvs))"] by (auto intro!: read_span_ok)
  moreover have "\<exists>d. mget_loop k v (i + 1) kvs key h = (d, h) \<and> readable h d \<and> forget d = get_loop (map (\<lambda>(s, d). (snd s, forget d)) kvs) key"
    using Cons.prems by (intro Cons.IH) auto
  ultimately show ?case using Cons.prems(4) by (simp add: kv Let_def)
qed

lemma get_readable:
  assumes "readable h d"
  shows "\<exists>c. mtoml_get d key h = (c, h) \<and> readable h c \<and> forget c = toml_get (forget d) key"
proof (cases d)
  case (MTable f k l v kvs)
  have "\<exists>d. mget_loop k v 0 kvs key h = (d, h) \<and> readable h d \<and> forget d = get_loop (map (\<lambda>(s, d). (snd s, forget d)) kvs) key"
    using assms MTable by (intro get_loop_readable) (auto simp: readable_def)
  with MTable show ?thesis by simp
next
  case (MPlain x)
  then have "dtype x \<noteq> TOML_TABLE" using assms by (simp add: readable_def)
  with MPlain assms show ?thesis by (cases x) (simp_all add: readable_zero readable_def)
qed (use assms in \<open>simp_all add: readable_zero readable_def\<close>)

lemma seek_loop_readable:
  "readable h d \<Longrightarrow> \<exists>c. mseek_loop d p h = (c, h) \<and> readable h c \<and> forget c = seek_loop (forget d) p"
proof (induction "forget d" p arbitrary: d rule: seek_loop.induct)
  case (1 p)
  show ?case
  proof (cases "mtype d = TOML_TABLE \<and> split_dot p \<noteq> None")
    case True
    then obtain a b where s: "mtype d = TOML_TABLE" "split_dot p = Some (a, b)" by auto
    obtain c where c: "mtoml_get d a h = (c, h)" "readable h c" "forget c = toml_get (forget d) a" using get_readable [OF 1(2)] by blast
    from 1(1) [OF s(1) s(2) refl, of c] c s show ?thesis by (subst mseek_loop.simps, subst seek_loop.simps) auto
  next
    case False
    then show ?thesis
      using get_readable [OF 1(2), of p] 1(2) by (subst mseek_loop.simps, subst seek_loop.simps) (cases "split_dot p"; auto simp: readable_def)
  qed
qed

lemma mtoml_seek_ok:
  "readable h d \<Longrightarrow> \<exists>c. mtoml_seek d p h = (c, h) \<and> readable h c \<and> forget c = toml_seek (forget d) p"
  using seek_loop_readable [of h d] readable_zero [of h]
  by (auto simp: mtoml_seek_def toml_seek_def readable_def split: option.split)

end
