(* ===== verification/Daemon_Memory.thy ===== *)
theory Daemon_Memory
  imports Toml_Files Daemon
begin

text \<open>
  The reload of \<open>src/src/caald.c\<close> in memory: the document that \<open>toml_parse_file\<close> builds is read and
  freed, and the session table is a block that \<open>realloc\<close> may move or refuse to enlarge.
\<close>

text \<open>\<open>sizeof(session_t)\<close>: two strings of 64 bytes, \<open>pid_t\<close>, \<open>time_t\<close> and \<open>int\<close>, with their padding.\<close>

definition SIZEOF_SESSION :: nat where "SIZEOF_SESSION = 152"

definition config_value :: "datum \<Rightarrow> int" where
  "config_value d = (case d of DInt64 f i \<Rightarrow> if 0 < sint i then sint (ucast i :: 32 word) else 1024 | _ \<Rightarrow> 1024)"

definition mreload_config :: "stream option \<Rightarrow> ptr \<Rightarrow> daemon \<Rightarrow> heap \<Rightarrow> (daemon \<times> effect list \<times> ptr \<times> heap) option" where
  "mreload_config src sp d h =
     (case src of
        None \<Rightarrow> Some (d, [SysLog ''[reload] could not open config''], sp, h)
      | Some fp \<Rightarrow>
          (case mtoml_parse_file toml_default_option fp h of
             None \<Rightarrow> None
           | Some (doc, h1) \<Rightarrow>
               if \<not> mr_ok doc
               then Some (d, [SysLog ''[reload] could not parse config, keeping current values''], sp, h1)
               else
                 (case mtoml_seek (mr_toptab doc) ''max_sessions'' h1 of
                    (datum, h2) \<Rightarrow>
                      let new_max = config_value (forget datum); old_max = int (max_sessions d); h3 = mtoml_free doc h2 in
                      if new_max = old_max
                      then Some (d, [SysLog (''[reload] max_sessions unchanged ('' @ show_int old_max @ '')'')], sp, h3)
                      else if new_max < old_max
                      then Some (d, [SysLog (''[reload] new max_sessions ('' @ show_int new_max @
                                   '') is lower than current ('' @ show_int old_max @ ''), ignoring shrink'')], sp, h3)
                      else
                        (case mem_realloc sp (nat new_max * SIZEOF_SESSION) h3 of
                           (moved, h4) \<Rightarrow>
                             if moved = 0
                             then Some (d, [SysLog ''[reload] realloc failed, keeping current table''], sp, h4)
                             else
                               Some (d\<lparr>sessions := sessions d @ replicate (nat (new_max - old_max)) session0,
                                       max_sessions := nat new_max\<rparr>,
                                     [SysLog (''[reload] max_sessions updated to '' @ show_int new_max)],
                                     moved, touch moved (nat new_max * SIZEOF_SESSION) h4)))))"

text \<open>Any number of reloads, each with the file as it is then.\<close>

fun mreloads :: "stream option list \<Rightarrow> ptr \<Rightarrow> daemon \<Rightarrow> heap \<Rightarrow> (daemon \<times> effect list \<times> ptr \<times> heap) option" where
  "mreloads [] sp d h = Some (d, [], sp, h)"
| "mreloads (src # later) sp d h =
     (case mreload_config src sp d h of
        None \<Rightarrow> None
      | Some (d1, es1, sp1, h1) \<Rightarrow>
          (case mreloads later sp1 d1 h1 of
             None \<Rightarrow> None
           | Some (d2, es2, sp2, h2) \<Rightarrow> Some (d2, es1 @ es2, sp2, h2)))"

text \<open>The table is one block of the daemon, and large enough for its slots.\<close>

definition holds_table :: "ptr multiset \<Rightarrow> heap \<Rightarrow> ptr \<Rightarrow> daemon \<Rightarrow> bool" where
  "holds_table R h sp d \<longleftrightarrow>
     heap_ok h \<and> alive h = one_block sp + R \<and> block_holds h sp (max_sessions d * SIZEOF_SESSION)"

text \<open>What one reload is in the model without memory: the file as read, or a refusal.\<close>

definition reload_answer :: "stream option \<Rightarrow> daemon \<Rightarrow> bool \<Rightarrow> daemon \<times> effect list \<Rightarrow> bool" where
  "reload_answer src d calm r \<longleftrightarrow>
     (\<exists>cfg ok. read_config (\<lambda>n. True) src = Some cfg \<and> (r = reload_config cfg ok d \<or> r = reload_config CfgBad ok d \<and> \<not> calm) \<and>
        (calm \<longrightarrow> ok))"

definition reloaded :: "ptr multiset \<Rightarrow> heap \<Rightarrow> stream option \<Rightarrow> daemon \<Rightarrow> daemon \<times> effect list \<times> ptr \<times> heap \<Rightarrow> bool" where
  "reloaded R h src d r \<longleftrightarrow>
     (case r of (d', es, sp', h') \<Rightarrow>
        holds_table R h' sp' d' \<and> keeps_blocks R h h' \<and> (grants h = [] \<longrightarrow> grants h' = []) \<and>
        reload_answer src d (grants h = []) (d', es))"

lemma config_max_value: "config_max t = config_value (toml_seek t ''max_sessions'')"
  by (simp add: config_max_def config_value_def)

text \<open>The table of a daemon is no smaller for what happens beside it.\<close>

lemma block_held:
  assumes "heap_ok h" and "block_holds h p n" and "keeps_blocks (one_block p + R) h h'"
  shows "block_holds h' p n"
proof -
  have "size_of h 0 = None" using alive_nonzero [OF assms(1)] by (auto simp: alive_size)
  then show ?thesis using assms(2,3) by (cases "p = 0") (auto simp: keeps_blocks_def block_holds_def split: if_splits)
qed

text \<open>From the freed document on: the new size against the old, and the block moved.\<close>

lemma resize_ok:
  assumes "heap_ok h3" and "alive h3 = one_block sp + R" and "block_holds h3 sp (max_sessions d * SIZEOF_SESSION)"
    and "keeps_blocks (one_block sp + R) h h3" and "grants h = [] \<longrightarrow> grants h3 = []"
    and "mem_realloc sp (nat (config_max t) * SIZEOF_SESSION) h3 = (q, h4)"
    and answer: "\<And>b. (grants h = [] \<longrightarrow> b) \<Longrightarrow> reload_answer src d (grants h = []) (reload_config (CfgOk t) b d)"
  defines "r \<equiv> reload_config (CfgOk t) (q \<noteq> 0) d"
  shows "reloaded R h src d
    (if config_max t \<le> int (max_sessions d) then (fst r, snd r, sp, h3)
     else if q = 0 then (fst r, snd r, sp, h4)
     else (fst r, snd r, q, touch q (nat (config_max t) * SIZEOF_SESSION) h4))"
proof -
  note rl = mem_realloc_ok [OF assms(1,2,6)]
  have k: "keeps_blocks R h h3" "keeps_blocks R h h4"
    using keeps_blocks_trans [OF keeps_blocks_sub [OF assms(4), of R] rl(2)] keeps_blocks_sub [OF assms(4), of R] by simp_all
  note defs = reloaded_def holds_table_def r_def reload_config_def Let_def
  consider "config_max t \<le> int (max_sessions d)" | "config_max t > int (max_sessions d)" "q = 0"
    | "config_max t > int (max_sessions d)" "q \<noteq> 0" by fastforce
  then show ?thesis
  proof cases
    case 1
    then show ?thesis using answer [of True] assms(1-3,5) k(1) by (auto simp: defs split: if_splits)
  next
    case 2
    then have "block_holds h4 sp (max_sessions d * SIZEOF_SESSION)" using assms(3) rl(4) by (simp add: block_holds_def)
    with 2 answer [of False] rl k(2) assms(5) show ?thesis by (auto simp: defs)
  next
    case 3
    then have "touch q (nat (config_max t) * SIZEOF_SESSION) h4 = h4" using rl(5) by (intro touch_ok) auto
    with 3 answer [of True] rl k(2) assms(5) show ?thesis by (auto simp: defs block_holds_def)
  qed
qed

lemma mreload_ok:
  assumes "holds_table R h sp d"
  shows "\<exists>r. mreload_config src sp d h = Some r \<and> reloaded R h src d r"
proof (cases src)
  case None
  have "reload_answer None d calm (reload_config CfgMissing True d)" for calm by (auto simp: reload_answer_def read_config_def)
  with None assms show ?thesis by (auto simp: mreload_config_def reloaded_def reload_config_def)
next
  case src: (Some fp)
  let ?S = "one_block sp + R"
  have t: "heap_ok h" "alive h = ?S" "block_holds h sp (max_sessions d * SIZEOF_SESSION)" using assms by (simp_all add: holds_table_def)
  obtain doc h1 where m: "mtoml_parse_file toml_default_option fp h = Some (doc, h1)"
    and p: "parsed (toml_parse_file toml_default_option (\<lambda>n. True) fp) h (doc, h1)"
    using mtoml_parse_file_ok [OF t(1), of toml_default_option fp] by auto
  have h1: "heap_ok h1" "alive h1 = blocks_of doc + ?S" "keeps_blocks ?S h h1" "roomy h1 (mr_toptab doc)"
    "grants h = [] \<longrightarrow> grants h1 = []" using p t(2) by (simp_all add: parsed_def)
  have cfg: "read_config (\<lambda>n. True) src = Some (if mr_ok doc then CfgOk (forget (mr_toptab doc)) else CfgBad)"
    if "mr_ok doc \<or> grants h = []"
    using p that by (auto simp: read_config_def src parsed_def mdoc_def)
  note held = block_held [OF t(1,3)]
  show ?thesis
  proof (cases "mr_ok doc")
    case False
    have "blocks_of doc = {#}" using p False by (simp add: parsed_def)
    moreover have "reload_answer src d (grants h = []) (reload_config CfgBad (grants h = []) d)"
      using cfg False read_config_total [of "\<lambda>n. True" src] by (fastforce simp: reload_answer_def)
    ultimately show ?thesis
      using h1 held [OF h1(3)] keeps_blocks_sub [OF h1(3), of R] False
      by (auto simp: mreload_config_def src m reloaded_def holds_table_def reload_config_def)
  next
    case ok: True
    let ?t = "forget (mr_toptab doc)" and ?h3 = "mtoml_free doc h1"
    have "readable h1 (mr_toptab doc)" using p ok by (auto simp: readable_def parsed_def usable_def)
    from mtoml_seek_ok [OF this, of "''max_sessions''"] obtain c where
      c: "mtoml_seek (mr_toptab doc) ''max_sessions'' h1 = (c, h1)" "forget c = toml_seek ?t ''max_sessions''" by blast
    have f: "heap_ok ?h3" "alive ?h3 = ?S" "keeps_blocks ?S h1 ?h3" "grants ?h3 = grants h1"
      using mtoml_free_ok [OF h1(1,2,4)] by (simp_all add: freed_def)
    have k3: "keeps_blocks ?S h ?h3" by (rule keeps_blocks_trans [OF h1(3) f(3)])
    obtain q h4 where r: "mem_realloc sp (nat (config_max ?t) * SIZEOF_SESSION) ?h3 = (q, h4)"
      by (cases "mem_realloc sp (nat (config_max ?t) * SIZEOF_SESSION) ?h3")
    have answer: "reload_answer src d (grants h = []) (reload_config (CfgOk ?t) b d)" if "grants h = [] \<longrightarrow> b" for b
      using cfg ok that by (auto simp: reload_answer_def)
    have "config_value (forget c) = config_max ?t" by (simp add: config_max_value c(2))
    then show ?thesis
      using resize_ok [OF f(1,2) held [OF k3] k3 _ r answer] h1(5) f(4)
      by (auto simp: mreload_config_def src m ok c(1) r Let_def reload_config_def split: if_splits)
  qed
qed


text \<open>The same reloads without memory.\<close>

definition reload_with :: "stream option \<Rightarrow> daemon \<Rightarrow> daemon \<times> effect list" where
  "reload_with src d = (case read_config (\<lambda>n. True) src of None \<Rightarrow> (d, []) | Some cfg \<Rightarrow> reload_config cfg True d)"

fun reloads :: "stream option list \<Rightarrow> daemon \<Rightarrow> daemon \<times> effect list" where
  "reloads [] d = (d, [])"
| "reloads (src # later) d =
     (case reload_with src d of (d1, es1) \<Rightarrow> (case reloads later d1 of (d2, es2) \<Rightarrow> (d2, es1 @ es2)))"

lemma reload_answer_facts:
  assumes "reload_answer src d calm (d', es)"
  shows "wf_daemon d \<Longrightarrow> wf_daemon d' \<and> active d' = active d \<and> max_sessions d \<le> max_sessions d'" "calm \<Longrightarrow> (d', es) = reload_with src d"
proof -
  obtain cfg ok where "reload_config cfg ok d = (d', es)" using assms by (auto simp: reload_answer_def)
  then show "wf_daemon d \<Longrightarrow> wf_daemon d' \<and> active d' = active d \<and> max_sessions d \<le> max_sessions d'" using reload_wf by blast
  show "calm \<Longrightarrow> (d', es) = reload_with src d" using assms by (auto simp: reload_answer_def reload_with_def)
qed

lemma mreloads_ok:
  "holds_table R h sp d \<Longrightarrow> wf_daemon d \<Longrightarrow>
     \<exists>d' es sp' h'. mreloads srcs sp d h = Some (d', es, sp', h') \<and> holds_table R h' sp' d' \<and> keeps_blocks R h h' \<and>
       wf_daemon d' \<and> active d' = active d \<and> max_sessions d \<le> max_sessions d' \<and> (grants h = [] \<longrightarrow> (d', es) = reloads srcs d)"
proof (induction srcs arbitrary: sp d h)
  case (Cons src later)
  obtain d1 es1 sp1 h1 where m: "mreload_config src sp d h = Some (d1, es1, sp1, h1)"
    and r: "holds_table R h1 sp1 d1" "keeps_blocks R h h1" "grants h = [] \<longrightarrow> grants h1 = []"
      "reload_answer src d (grants h = []) (d1, es1)"
    using mreload_ok [OF Cons.prems(1), of src] by (auto simp: reloaded_def)
  note a = reload_answer_facts [OF r(4)]
  obtain d' es sp' h' where n: "mreloads later sp1 d1 h1 = Some (d', es, sp', h')" "holds_table R h' sp' d'" "keeps_blocks R h1 h'"
    "wf_daemon d'" "active d' = active d1" "max_sessions d1 \<le> max_sessions d'" "grants h1 = [] \<longrightarrow> (d', es) = reloads later d1"
    using Cons.IH [OF r(1)] a(1) [OF Cons.prems(2)] by blast
  have "grants h = [] \<longrightarrow> (d', es1 @ es) = reloads (src # later) d"
    using a(2) n(7) r(3) by (auto simp flip: a(2) split: prod.splits)
  with m n keeps_blocks_trans [OF r(2) n(3)] a(1) [OF Cons.prems(2)] show ?case by auto
qed simp

end
