(* ===== verification/Examples.thy ===== *)
theory Examples
  imports Visits Config_File Daemon_Runs Daemon_Memory
begin

text \<open>Small concrete configurations, tables and environments on which properties are tried.\<close>

definition cfg_ex :: datum where
  "cfg_ex = DTable 0
     [(''max_sessions'', DInt64 0 2),
      (''alice'', DTable 0 [(''bundle'', DString 0 ''/srv/alice''), (''disk'', DInt64 0 16)]),
      (''bob'', DTable 0 [(''bundle'', DString 0 ''/srv/bob''), (''enabled'', DBoolean 0 False)])]"

definition boot_ex :: boot_env where
  "boot_ex = \<lparr>open_pid_ok = True, flock_ok = True, fork_result = 0, own_pid = 100, socket_ok = True,
     bind_ok = True, listen_ok = True, boot_cfg = CfgOk cfg_ex, boot_alloc_ok = True\<rparr>"

definition day_one :: daemon where
  "day_one = \<lparr>sessions = [session0, session0], session_count = 0, max_sessions = 2\<rparr>"

definition sys_ex :: dsys where
  "sys_ex = \<lparr>dm = day_one, g_reload_config = False\<rparr>"

definition day_two :: daemon where
  "day_two = \<lparr>sessions = [registered 7 ''alice'' ''c1'' 5, session0], session_count = 1, max_sessions = 2\<rparr>"

lemma config_max_ex: "config_max cfg_ex = 2"
  by code_simp

lemma boot_ex_run: "caald_main boot_ex = (fst (caald_main boot_ex), Accepting sys_ex)"
proof -
  have "fst (reload_config (CfgOk cfg_ex) True daemon0) = day_one"
    by (simp add: reload_config_def config_max_ex daemon0_def day_one_def numeral_2_eq_2)
  then show ?thesis
    by (cases "reload_config (CfgOk cfg_ex) True daemon0")
      (simp add: boot_ex_def caald_main_def caald_socket_def caald_serve_def sys_ex_def day_one_def)
qed

lemma day_one_ok: "wf_daemon day_one" "max_sessions day_one < 2 ^ 31"
  by (simp_all add: wf_daemon_def day_one_def session0_def wf_session_def fits_def CAALD_MAX_STR_def)

lemma day_one_simps [simp]: "live day_one = {#}" "max_sessions day_one = 2" "active day_one = []"
  by (simp_all add: live_def active_def day_one_def session0_def)

lemma day_two_ok: "wf_daemon day_two" "max_sessions day_two < 2 ^ 31"
  by (simp_all add: wf_daemon_def day_two_def session0_def wf_session_def fits_def CAALD_MAX_STR_def
      registered_def)

lemma active_day_two: "active day_two = [registered 7 ''alice'' ''c1'' 5]"
  by (simp add: active_def day_two_def registered_def)

lemma live_day_two: "live day_two = {#registered 7 ''alice'' ''c1'' 5#}"
  by (simp add: live_def active_day_two)

lemma registered_ex [simp]:
  "s_container_id (registered 7 ''alice'' ''c1'' 5) = ''c1''" "s_username (registered 7 ''alice'' ''c1'' 5) = ''alice''"
  "s_pid (registered 7 ''alice'' ''c1'' 5) = 5"
  by (simp_all add: registered_def CAALD_MAX_STR_def)

text \<open>A descriptor whose peer answers as the daemon does.\<close>

definition served_by :: "64 word \<Rightarrow> daemon \<Rightarrow> request \<Rightarrow> chan" where
  "served_by now d r =
     \<lparr>rx = [RData (daemon_answer (now, d) r)], tx = replicate REQUEST_SIZE 1, out = []\<rparr>"

lemma connected_served_by: "connected now d r (served_by now d r)"
  by (auto simp: connected_def caald.linked_def served_by_def willing_def)

section \<open>Hosts and logins\<close>

definition os_ex :: os where
  "os_ex = \<lparr>dirs = [SESSION_DIR], files = [(CONFIG_PATH, 0)], mnts = [], containers = [], verdicts = [], calls = []\<rparr>"

text \<open>Everything is granted except the overlay mount, the eighth call of a start.\<close>

definition os_overlay_refused :: os where
  "os_overlay_refused = os_ex\<lparr>verdicts := replicate 7 True @ [False]\<rparr>"

definition shell_ex :: "string \<Rightarrow> shell_env" where
  "shell_ex u = \<lparr>pw_name = Some u, config = CfgOk cfg_ex, count_conn = None,
     session_entries = Some [(''caalsh-1-1'', True), (''caalsh-1-1.img'', False)], getpid = 100, time_now = 7,
     crun_pid = 101, timer_fork = 102, register_conn = None,
     pty_hello = \<lparr>accepted = True, received = True, cmsg = Some (SOL_SOCKET, SCM_RIGHTS, 9)\<rparr>,
     tty_in = Some Saved, tty_size = None, pty_events = [SelError], unregister_conn = None\<rparr>"

lemma config_limit_ex: "config_limit cfg_ex = 2"
  by code_simp

lemma count_ex: "fst (count_active_sessions None (Some [(''caalsh-1-1'', True), (''caalsh-1-1.img'', False)])) = 1"
  by (simp add: count_active_sessions_def dir_count_def)

lemma denied_ex: "admitted (shell_ex ''bob'') = None"
  by code_simp

definition login_ex :: login where
  "login_ex = \<lparr>lg_bundle = ''/srv/alice'', lg_timeout = 0, lg_disk = 16\<rparr>"

lemma admitted_ex: "admitted (shell_ex ''alice'') = Some (''alice'', login_ex)"
  by code_simp

definition sid_ex :: string where
  "sid_ex = session_id 100 7"

definition req_ex :: request where
  "req_ex = register_request ''alice'' sid_ex (word_of_int 100)"

definition visit_ex :: shell_env where
  "visit_ex = (shell_ex ''alice'')\<lparr>register_conn := Some (served_by 7 day_one req_ex),
     unregister_conn := Some (served_by 9 (served 7 day_one req_ex) (unregister_request sid_ex))\<rparr>"

lemma visit_sel [simp]:
  "getpid visit_ex = 100" "time_now visit_ex = 7" "crun_pid visit_ex = 101" "lg_bundle login_ex = ''/srv/alice''"
  "lg_disk login_ex = 16" "register_conn visit_ex = Some (served_by 7 day_one req_ex)"
  "unregister_conn visit_ex = Some (served_by 9 (served 7 day_one req_ex) (unregister_request sid_ex))"
  "pty_bridge_recv (pty_hello visit_ex) = 9"
  by (simp_all add: visit_ex_def shell_ex_def login_ex_def pty_bridge_recv_def)

lemma visit_ids: "pid_range 100" "time_range 7"
  by (simp_all add: pid_range_def time_range_def)

lemma visit_ids2: "pid_range 200" "time_range 8"
  by (simp_all add: pid_range_def time_range_def)

lemma visit_admitted: "admitted visit_ex = Some (''alice'', login_ex)"
  using admitted_ex by (simp add: visit_ex_def admitted_def shell_ex_def)

lemma sids: "session_id 100 7 = ''caalsh-100-7''" "session_id 200 8 = ''caalsh-200-8''"
  by code_simp+

lemma rootfs_alice: "rootfs_of ''/srv/alice'' = ''/srv/alice/rootfs''"
  by code_simp

lemma visit_fresh: "fresh_session 100 7 ''/srv/alice'' (os_ex\<lparr>verdicts := vs\<rparr>)"
  by (simp add: fresh_session_def fresh_disk_def os_ex_def sids rootfs_alice SESSION_DIR_def CONFIG_PATH_def
      below_def mounted_def)

lemma os_ex_verdicts: "os_ex\<lparr>verdicts := []\<rparr> = os_ex" "refusals os_ex = 0"
  by (simp_all add: os_ex_def refusals_def)

lemma image_16: "image_bytes 16 = 16777216"
  by (simp add: image_bytes_def)

lemma visit_ends: "sh_exit (caalsh_main visit_ex os_ex) \<noteq> None"
proof -
  have pos: "0 < image_bytes (lg_disk login_ex)" by (simp add: image_16)
  have fresh: "fresh_session (getpid visit_ex) (time_now visit_ex) (lg_bundle login_ex) os_ex"
    using visit_fresh [of "[]"] os_ex_verdicts by simp
  have ids: "pid_range (getpid visit_ex)" "time_range (time_now visit_ex)" using visit_ids by simp_all
  obtain msgs where m: "caalsh_main visit_ex os_ex = launch ''alice'' login_ex msgs visit_ex os_ex"
    using main_admitted [OF visit_admitted] .
  obtain ct w3 where L: "launch ''alice'' login_ex msgs visit_ex os_ex =
      run_session ''alice'' (lg_timeout login_ex) ct msgs visit_ex w3"
    using launch_granted [OF ids fresh pos os_ex_verdicts(2)] by metis
  have "fst (pty_bridge_run 9 (tty_in visit_ex) (tty_size visit_ex) (pty_events visit_ex))"
    by (simp add: pty_bridge_run_def visit_ex_def shell_ex_def)
  then show ?thesis
    unfolding m L by (auto simp: run_session_def exit_with_def case_prod_unfold Let_def split: prod.splits)
qed

lemma two_visits:
  obtains ctA w1 ctB w2 where "container_start 100 7 101 ct0 ''/srv/alice'' 16 os_ex = (True, ctA, w1)"
    "container_start 200 8 201 ct0 ''/srv/alice'' 16 w1 = (True, ctB, w2)" "refusals w2 = 0"
    "fresh_session 200 8 ''/srv/alice'' w1"
proof -
  have pos: "0 < image_bytes 16" by (simp add: image_16)
  have fresh: "fresh_session 100 7 ''/srv/alice'' os_ex" using visit_fresh [of "[]"] os_ex_verdicts by simp
  obtain ctA w1 where A: "container_start 100 7 101 ct0 ''/srv/alice'' 16 os_ex = (True, ctA, w1)" "refusals w1 = 0"
    using start_granted [OF visit_ids fresh pos os_ex_verdicts(2)] .
  have f2: "fresh_session 200 8 ''/srv/alice'' w1"
    using start_ok(1) [OF visit_ids A(1)] sock_elsewhere(1) [OF visit_ids(1)]
    by (simp add: fresh_session_def fresh_disk_def with_session_def with_disk_def overlay_mount_def res_def
        os_ex_def sids rootfs_alice SESSION_DIR_def CONFIG_PATH_def below_def mounted_def Let_def)
  obtain ctB w2 where "container_start 200 8 201 ct0 ''/srv/alice'' 16 w1 = (True, ctB, w2)" "refusals w2 = 0"
    using start_granted [OF visit_ids2 f2 pos A(2)] .
  with A f2 that show thesis by blast
qed

lemma overlay_refused_run:
  "\<not> fst (container_start 100 7 101 ct0 ''/srv/alice'' 16 os_overlay_refused)"
  "fst (session_disk_setup (session_path 100 7) (session_path 100 7 @ ''.img'') 16 os_overlay_refused)"
  by code_simp+

lemma get_ex [simp]:
  "toml_get (toml_get cfg_ex ''alice'') ''bundle'' = DString 0 ''/srv/alice''"
  "toml_get (toml_get cfg_ex ''alice'') ''enabled'' = DUnknown 0"
  "toml_get (toml_get cfg_ex ''bob'') ''enabled'' = DBoolean 0 False"
  "toml_get (toml_get cfg_ex ''carol'') ''bundle'' = DUnknown 0"
  by code_simp+

lemma shell_ex_sel [simp]:
  "pw_name (shell_ex u) = Some u" "config (shell_ex u) = CfgOk cfg_ex" "count_conn (shell_ex u) = None"
  "session_entries (shell_ex u) = Some [(''caalsh-1-1'', True), (''caalsh-1-1.img'', False)]"
  by (simp_all add: shell_ex_def)

lemma show_1: "show_int 1 = ''1''"
  by code_simp

section \<open>Documents\<close>

definition doc_ex :: config where
  "doc_ex = ([Comment '' CaaL'', Setting ''max_sessions'' 0 (VInt 4)],
     [(''bob'', [Setting ''bundle'' 4 (VString ''/srv/bob''), Setting ''enabled'' 3 (VBool False)])])"

lemma doc_ex_keys: "bare_key ''max_sessions''" "bare_key ''bob''" "bare_key ''bundle''" "bare_key ''enabled''"
  "bare_key ''alice''"
  by code_simp+

lemma doc_ex_comment: "list_all (\<lambda>c. \<not> bad_in_comment c) '' CaaL''"
  by (simp add: bad_in_comment_def code_def)

lemma doc_ex_valid: "valid_config doc_ex"
  using doc_ex_comment
  by (simp add: doc_ex_def valid_config_def valid_block_def doc_ex_keys doc_ex_comment adds_def int64_range_def TABLE_MAX_def)

lemma doc_ex_length_exact: "length (show_config doc_ex) = 70"
  by code_simp

lemma doc_ex_length: "length (show_config doc_ex) < 2 ^ 30"
  by (simp add: doc_ex_length_exact)

lemma doc_ex_parsed: "toml_parse toml_default_option (show_config doc_ex) (length (show_config doc_ex)) = Some (Inr (config_tree doc_ex))"
  by (rule config_parsed [OF doc_ex_valid])

text \<open>A parser that has read \<open>a = 1\<close> and stands behind the key \<open>b\<close>.\<close>

definition parser_ex :: parser where
  "parser_ex =
     \<lparr>scan = scan_init (''= true'' @ [LF]), toptab = DTable 0 [(''a'', DInt64 0 1)], curtab = [],
      pool_top = 0, pool_max = 20\<rparr>"

definition tok_ex :: token where
  "tok_ex = \<lparr>toktyp = TOK_LIT, tok_lineno = 1, tok_str = ''b'', tok_u = NoVal\<rparr>"

lemma parser_ex_ok: "doc_ok parser_ex"
  by (simp add: doc_ok_def parser_ex_def tab_place_def TABLE_MAX_def)

lemma parser_ex_expr:
  "parse_expr 1 tok_ex parser_ex =
     Some (Inr \<lparr>scan = \<lparr>cur = [LF], lineno = 1, bracket_level = 0, brace_level = 0\<rparr>,
       toptab = DTable 0 [(''a'', DInt64 0 1), (''b'', DBoolean 0 True)], curtab = [], pool_top = 2, pool_max = 20\<rparr>)"
  by code_simp

text \<open>A run in which every second event is a signal.\<close>

definition ev_ex :: "nat \<Rightarrow> devent" where
  "ev_ex i = (if even i then Sighup else Iteration CfgMissing False None)"

definition run_ex :: "nat \<Rightarrow> dsys" where
  "run_ex i = (if even i then sys_ex else on_sighup sys_ex)"

lemma fair_ex: "fair ev_ex"
proof -
  have "i \<le> Suc (2 * i) \<and> is_iteration (ev_ex (Suc (2 * i)))" for i by (simp add: ev_ex_def is_iteration_def)
  then show ?thesis unfolding fair_def by blast
qed

lemma run_ex_ok: "run run_ex ev_ex"
proof -
  have "loop_body CfgMissing False None (on_sighup sys_ex) =
      (sys_ex, None, [SysLog ''[reload] could not open config''])"
    by (simp add: loop_body_def loop_reload_def on_sighup_def reload_config_def sys_ex_def)
  then have "dstep (on_sighup sys_ex) (Iteration CfgMissing False None) [SysLog ''[reload] could not open config''] sys_ex"
    by (rule dstep.iteration)
  moreover have "dstep sys_ex Sighup [] (on_sighup sys_ex)" by (rule dstep.sighup)
  moreover have "reachable sys_ex" using boot_ex_run by (rule reachable.boot)
  ultimately show ?thesis by (auto simp: run_def run_ex_def ev_ex_def)
qed

lemma plain_ex: "list_all plain_char ''/srv/alice''"
  by (simp add: plain_char_def is_valid_char_def code_def)

text \<open>A table that was written inline is extended by a later dotted key.\<close>

definition inline_text :: string where
  "inline_text = ''a={}'' @ [LF] @ ''a.x.y=1'' @ [LF]"

lemma inline_table_extended:
  "toml_parse toml_default_option inline_text (length inline_text) =
     Some (Inr (DTable 0 [(''a'', DTable FLAG_INLINED [(''x'', DTable 0 [(''y'', DInt64 0 1)])])]))"
  by code_simp

section \<open>Documents in memory\<close>

definition heap_docs :: heap where
  "heap_docs = \<lparr>blocks = [(1, 52), (2, 64), (3, 32), (4, 320), (5, 52), (6, 64), (7, 32), (8, 320)],
     next_ptr = 9, grants = [], fault = False\<rparr>"

definition mdoc1 :: mresult where
  "mdoc1 = \<lparr>mr_ok = True, mr_toptab = MTable 0 2 3 4 [((1, ''a''), MPlain (DInt64 0 1))], mr_errmsg = [],
     mr_pool = Some \<lparr>pl_ptr = 1, pl_top = 10, pl_max = 40\<rparr>\<rparr>"

definition mdoc2 :: mresult where
  "mdoc2 = \<lparr>mr_ok = True, mr_toptab = MTable 0 6 7 8 [((5, ''b''), MString 0 (5, ''x''))], mr_errmsg = [],
     mr_pool = Some \<lparr>pl_ptr = 5, pl_top = 10, pl_max = 40\<rparr>\<rparr>"

lemma docs_usable: "heap_ok heap_docs" "usable heap_docs mdoc1" "usable heap_docs mdoc2"
  "alive heap_docs = blocks_of mdoc1 + blocks_of mdoc2"
  by (simp_all add: heap_ok_def heap_docs_def usable_def mdoc1_def mdoc2_def blocks_of_def alive_def
      block_holds_def size_of_def SIZEOF_PTR_def SIZEOF_INT_def SIZEOF_DATUM_def TABLE_MAX_def)

lemma docs_pure: "toml_merge (mdoc mdoc1) (mdoc mdoc2) =
    Inr (DTable 0 [(''a'', DInt64 0 1), (''b'', DString 0 ''x'')])" "room_for_both mdoc1 mdoc2" "grants heap_docs = []"
  by (simp_all add: toml_merge_def mdoc_def mdoc1_def mdoc2_def room_for_both_def pool_used_def heap_docs_def TABLE_MAX_def)

lemma docs_merged:
  assumes "mtoml_merge mdoc1 mdoc2 heap_docs = (r, h')"
  shows "mr_ok r" "heap_ok h'"
  using mtoml_merge_ok [OF docs_usable(1-3)] docs_pure by (auto simp: assms merged_def)

text \<open>A heap without blocks, and a configuration file with a limit.\<close>

definition heap_new :: heap where
  "heap_new = \<lparr>blocks = [], next_ptr = 1, grants = [], fault = False\<rparr>"

lemma heap_new_ok: "heap_ok heap_new"
  by (simp add: heap_ok_def heap_new_def)

definition limit_file :: "stream option" where
  "limit_file = Some \<lparr>st_bytes = ''max_sessions = 2'', st_error = None\<rparr>"

lemma limit_parsed:
  "toml_parse toml_default_option ''max_sessions = 2'' (length ''max_sessions = 2'') =
     Some (Inr (DTable 0 [(''max_sessions'', DInt64 0 2)]))"
  by code_simp

lemma limit_max: "config_max (DTable 0 [(''max_sessions'', DInt64 0 2)]) = 2"
  by code_simp

lemma limit_read: "read_config (\<lambda>n. True) limit_file = Some (CfgOk (DTable 0 [(''max_sessions'', DInt64 0 2)]))"
  using limit_parsed parse_file_whole [of "\<lparr>st_bytes = ''max_sessions = 2'', st_error = None\<rparr>" "\<lambda>n. True" toml_default_option]
  by (simp add: read_config_def limit_file_def)

lemma limit_reloads: "max_sessions (fst (reloads [limit_file, None] daemon0)) = 2"
proof -
  have "read_config (\<lambda>n. True) None = Some CfgMissing" by (simp add: read_config_def)
  then show ?thesis by (simp add: reload_with_def limit_read limit_max reload_config_def daemon0_def split: prod.split)
qed

section \<open>Shells in one house\<close>

definition trio :: "shell set" where
  "trio = {Shell 100 7, Shell 200 8, Shell 300 8}"

lemma trio_ok: "finite trio" "card trio = 3" "\<forall>v \<in> trio. pid_range (shell_pid v) \<and> time_range (shell_born v)"
  by (simp_all add: trio_def pid_range_def time_range_def)

lemma bundle_ex: "check_bundle cfg_ex ''alice'' = Inr login_ex"
  by code_simp

text \<open>One shell that decides and registers.\<close>

lemma one_visit: "\<exists>d'. visits_reach True cfg_ex day_one (scene d' ''alice'' {Shell 100 7} {Shell 100 7})"
proof -
  let ?v = "Shell 100 7"
  let ?s0 = "scene day_one ''alice'' {} {}" and ?s1 = "scene day_one ''alice'' {Shell 100 7} {}"
  have s0: "visits_reach True cfg_ex day_one ?s0"
    using visits_reach.opened [of True cfg_ex day_one] by (simp add: scene_def)
  have "snd (check_login cfg_ex ''alice'' (Some (served_by 0 day_one count_request)) None) = Inr login_ex"
    using decide_count [OF day_one_ok connected_served_by] bundle_ex by (simp add: config_limit_ex)
  then have "visit_step True cfg_ex ?s0 (set_stage ?v (Counted ''alice'') ?s0)"
    by (intro visit_step.decide [where fd = "served_by 0 day_one count_request" and now = 0])
      (simp_all add: connected_served_by visit_ids)
  moreover have "set_stage ?v (Counted ''alice'') ?s0 = ?s1" by (auto simp: scene_def set_stage_def)
  ultimately have s1: "visits_reach True cfg_ex day_one ?s1" using s0 by (auto intro: visits_reach.visited)
  have "visit_step True cfg_ex ?s1
      (set_stage ?v (Running ''alice'') (?s1\<lparr>h_table := served 0 (h_table ?s1) (arrival 0 ''alice'' ?v)\<rparr>))"
    by (intro visit_step.register) simp
  moreover have "set_stage ?v (Running ''alice'') (?s1\<lparr>h_table := served 0 (h_table ?s1) (arrival 0 ''alice'' ?v)\<rparr>) =
      scene (served 0 day_one (arrival 0 ''alice'' ?v)) ''alice'' {?v} {?v}"
    by (auto simp: scene_def set_stage_def)
  ultimately show ?thesis using s1 by (auto intro: visits_reach.visited)
qed

end
