(* ===== verification/Spec2Isabelle.thy ===== *)
theory Spec2Isabelle
  imports Examples
begin

text \<open>
  CaaL gives every user who logs in a container instead of a shell.  Four programs under
  \<open>src/src\<close> do this: the login shell \<open>caalsh.c\<close>, the session daemon \<open>caald.c\<close>, the
  control tool \<open>caalctl.c\<close>, and the library under \<open>src/src/lib\<close> that they share.  The
  shell reads \<open>/etc/caal/caal.toml\<close>, decides whether the user may enter, builds a disk image
  and an overlay file system for the session, starts \<open>crun\<close>, registers with the daemon over
  a Unix socket, and carries bytes between the terminal and the container until one side
  ends; then it unregisters and takes everything down.  The daemon keeps the table of active
  sessions and serves register, unregister, count, list, kill and kill-user requests, one
  client at a time; the control tool sends such requests.

  Theories, in the order of their imports:

  \<^item> \<open>Prelude\<close>: bytes, C strings and the libc routines on them (\<open>strncpy\<close>, \<open>snprintf\<close>),
    little-endian integers, first-match scans, decimal output; \<open>Config\<close>: the paths of
    \<open>config.h\<close>.
  \<^item> \<open>Byte_IO\<close>: \<open>read_all\<close> and \<open>write_all\<close> (both in \<open>caald.c\<close> and \<open>caald_client.c\<close>) over a
    descriptor whose \<open>read\<close> and \<open>write\<close> results are arbitrary; the locale \<open>codec\<close> states
    what a fixed-size message format owes its users.  \<open>Proto\<close>: the packed structs of
    \<open>caald_proto.h\<close> as records with their byte layout, interpreting \<open>codec\<close> three times.
  \<^item> \<open>Session_Store\<close>: the contract of a bounded session table as a locale (entering, leaving,
    evicting a user's entries) with what follows from it alone.  \<open>Sessions\<close>: the slot array,
    \<open>find_session\<close> and the six \<open>handle_\<close> functions of \<open>caald.c\<close>, the invariant
    \<open>wf_daemon\<close>, the abstraction \<open>live\<close> to the multiset of active sessions, and the proof
    that the handlers keep the contract.
  \<^item> \<open>Dictionary\<close>: the contract of an insert-only table; \<open>Toml_Datum\<close>: the tree type of
    \<open>tomlc17.h\<close>, insertion, \<open>toml_get\<close> and \<open>toml_seek\<close>; \<open>Toml_Merge\<close>: deep copy, merge and
    comparison of trees.
  \<^item> \<open>Toml_Literals\<close>: numbers, dates and times as text; \<open>Toml_Scanner\<close>: the tokens of a
    document, with line numbers and the two nesting counters; \<open>Toml_Utf8\<close>: one character to
    and from UTF-8; \<open>Toml_Parser\<close>: keys, values, the three kinds of expressions and
    \<open>toml_parse\<close>, over a tree in which a pointer is a list of indices.  Of them,
    \<open>Toml_Progress\<close> shows that the parser always answers and that its memory pool is large
    enough, \<open>Toml_Shape\<close> that the tree stays well formed and that nothing once defined is
    changed, \<open>Toml_Strings\<close> and \<open>Toml_Text\<close> that quoted strings, integers, booleans, keys
    and comments are read back.
  \<^item> The storage of that library.  \<open>Toml_Heap\<close>: blocks, and an allocator that may refuse any
    request; \<open>Toml_Memory\<close>: the memory pool, trees with their pointers, and the functions of
    \<open>tomlc17.c\<close> that grow, free, copy, merge and search them; \<open>Toml_Ownership\<close>: which blocks a
    tree owns, and that freeing it gives back exactly these; \<open>Toml_Building\<close>: a place in a
    table or an array, and storing there, under every pattern of refusals; \<open>Toml_Copying\<close>:
    copy and merge refine \<open>Toml_Merge\<close>; \<open>Toml_Lifetime\<close>: \<open>toml_merge\<close> and \<open>toml_free\<close> as a
    whole, and whose memory the keys of the result lie in.
  \<^item> The parser in that storage.  \<open>Toml_Parse_Heap\<close>: every step of \<open>Toml_Parser\<close> again, on trees
    with their blocks, with the pointer \<open>curtab\<close> and with what each error path frees;
    \<open>Toml_Parse_Places\<close>, \<open>Toml_Parse_Walks\<close>, \<open>Toml_Parse_Values\<close>, \<open>Toml_Parse_Loops\<close>,
    \<open>Toml_Parse_Headers\<close> and \<open>Toml_Documents\<close> show, from a place in a tree up to a whole
    document, that it computes what \<open>Toml_Parser\<close> does or reports a refused request, owns what
    it has built, and leaves nothing behind when it fails; \<open>Toml_Files\<close>: \<open>toml_parse_file\<close>
    with its buffer, and \<open>toml_seek\<close>.
  \<^item> \<open>Daemon\<close>: \<open>reload_config\<close>, \<open>handle_client\<close>, the accept loop as the step relation
    \<open>dstep\<close> (with \<open>SIGHUP\<close> arriving at any time between iterations), the start-up sequence
    of \<open>main\<close>, reachability, and the invariant of all reachable states; \<open>Daemon_Memory\<close>:
    \<open>reload_config\<close> with the document it reads and the block of the session table.
  \<^item> \<open>Client\<close>: \<open>caald_client.c\<close>; its lemmas are proved in the locale \<open>rpc_server\<close>, which the
    daemon's \<open>serve\<close> provides.  \<open>Ctl\<close>: \<open>caalctl.c\<close>.  \<open>Service\<close>: sequences of requests, and
    library calls against the daemon.
  \<^item> \<open>Os\<close>: the part of the host that a session changes (directories, files, mounts with
    what they cover, containers, trace of calls).  Each call asks the environment for its
    verdict, so every failure of every call is a behaviour of the model.  \<open>Session_Disk\<close>,
    \<open>Pty_Bridge\<close>, \<open>Container\<close> and \<open>Shell\<close> model \<open>session_disk.c\<close>, \<open>pty_bridge.c\<close>,
    \<open>container.c\<close> and \<open>caalsh.c\<close> on it, each error path and each \<open>goto\<close> included.
  \<^item> \<open>Config_Text\<close>: configurations (settings, sections, comments) with a reference printer
    and the tree that each stands for; \<open>Config_File\<close>: \<open>toml_parse_file\<close>, and what the
    programs decide about such a configuration, from the bytes of the file on, the entry of
    \<open>scripts/newcaal.sh\<close> included; \<open>Daemon_Runs\<close>: infinite runs of the accept loop.
  \<^item> \<open>System\<close>: a shell, its container and the daemon together; \<open>Visits\<close>: any number of
    shells against one daemon, as interleavings of their steps and of kill commands, with or
    without a daemon that can be reached; \<open>Examples\<close>: concrete
    configurations, tables and hosts on which the properties below are tried.

  Reading the model.  A C struct is a record or a datatype, a fixed-width integer a word, a
  failed call or an early return a branch of the result.  Loops over arrays and strings are
  structural recursions; \<open>toml_seek\<close> has a termination proof by the length of its key, the
  loops of the scanner by the length of the rest of the input.  Only the mutual recursion of
  \<open>parse_val\<close> and the main loop of \<open>toml_parse\<close> carry a bound on their calls:
  \<open>parse_fuel = 2 * len + 3\<close>, which is enough for every input because each call but every
  second one uses up a character (\<open>toml_parse_total\<close>).  The
  \<open>select\<close> loop of the proxy runs over the list of events that the environment delivers and
  reports whether it ended within them.

  What is not modelled: the timing of the five-second socket timeouts (a timeout is a failed
  read or write), \<open>SIGPIPE\<close>, signals that arrive before the proxy has installed its handlers
  or between a \<open>read\<close> and the following \<open>write\<close>, the texts of \<open>strerror\<close>, the diagnostics
  that \<open>container_start\<close> prints, the offsets within a memory pool, and the overflow of sizes
  beyond \<open>int\<close> in it.  The storage of the programs themselves is modelled where the daemon
  reloads; in the shell the configuration is its tree.  In \<open>Visits\<close> a kill
  signal reaches a shell only while it runs under the proxy.  \<open>strtod\<close> is the correctly rounded conversion to
  IEEE bits.  The installation scripts and the Makefile are not C and are left out, but for
  the configuration entry that \<open>newcaal.sh\<close> writes.

  The properties of the system follow, the most important ones first.
\<close>

text \<open>
  C1. In every state that the daemon can reach from a start-up by any sequence of SIGHUPs and
  loop iterations (any configuration files, any client bytes, any failures), the session table
  is well formed, its capacity is between 1 and 2^31 - 1 and no more sessions are active than
  it allows.
\<close>

theorem daemon_capacity:
  assumes "reachable s"
  shows "wf_daemon (dm s) \<and> size (live (dm s)) \<le> max_sessions (dm s) \<and>
    0 < max_sessions (dm s) \<and> max_sessions (dm s) < 2 ^ 31"
  using reachable_inv [OF assms] live_capacity by (simp add: daemon_inv_def)

theorem daemon_capacity_witness:
  "size (live (dm sys_ex)) \<le> max_sessions (dm sys_ex) \<and> dm sys_ex = day_one"
  using daemon_capacity [OF reachable.boot [OF boot_ex_run]] by (simp add: sys_ex_def)

text \<open>
  C2. The parser reads a printed configuration back exactly: settings (64-bit integers,
  booleans, strings of any bytes), comments, empty lines and sections give the tree with the
  same keys, values and order, and nothing else.
\<close>

theorem config_roundtrip:
  assumes "valid_config d"
  shows "toml_parse toml_default_option (show_config d) (length (show_config d)) = Some (Inr (config_tree d))"
  using config_parsed [OF assms] .

theorem config_roundtrip_witness:
  "toml_parse toml_default_option (show_config doc_ex) (length (show_config doc_ex)) =
     Some (Inr (DTable 0 [(''max_sessions'', DInt64 0 4),
       (''bob'', DTable 6 [(''bundle'', DString 0 ''/srv/bob''), (''enabled'', DBoolean 0 False)])]))"
  using config_roundtrip [OF doc_ex_valid]
  by (simp add: doc_ex_def config_tree_def section_entry_def adds_def FLAG_HEADER_def FLAG_STDEXPR_def FLAG_EXPLICIT_def)

text \<open>
  C3. A session whose registration through the client library succeeded stays in the daemon
  through any sequence of requests that are not an UNREGISTER or KILL of its ID or a KILL_USER
  of its user, and its own UNREGISTER then succeeds.
\<close>

theorem session_lifetime:
  assumes "wf_daemon d" and "max_sessions d < 2 ^ 31"
    and "connected now d (register_request u c pid) fd" and "fst (caald_session_register fd u c pid)"
    and "\<forall>a \<in> set others. \<not> aimed_at (take 63 (cstr c)) (take 63 (cstr u)) (snd a)"
    and "connected later (serve_all others (served now d (register_request u c pid))) (unregister_request c) fd'"
  shows "registered now u c pid \<in># live (serve_all others (served now d (register_request u c pid))) \<and>
    fst (caald_session_unregister fd' c)"
  using visit_survives [OF assms] by blast

theorem session_lifetime_witness:
  "registered 7 ''alice'' ''caalsh-1-7'' 1 \<in># live (serve_all [(8, kill_request ''other'')]
     (served 7 day_one (register_request ''alice'' ''caalsh-1-7'' 1)))"
proof -
  let ?r = "register_request ''alice'' ''caalsh-1-7'' 1"
  have "fst (caald_session_register (served_by 7 day_one ?r) ''alice'' ''caalsh-1-7'' 1)"
    using register_call [OF day_one_ok, of 7 "''alice''" "''caalsh-1-7''" 1 "served_by 7 day_one ?r"]
    by (simp add: connected_served_by)
  moreover have "\<not> aimed_at (take 63 (cstr ''caalsh-1-7'')) (take 63 (cstr ''alice'')) (kill_request ''other'')"
    by (simp add: aimed_at_def CAALD_MAX_STR_def)
  ultimately show ?thesis
    using session_lifetime [OF day_one_ok connected_served_by, of 7 "''alice''" "''caalsh-1-7''" 1
        "[(8, kill_request ''other'')]" 9, OF _ _ connected_served_by] by simp
qed

text \<open>
  C4. Registering through the client library returns true exactly when the daemon has a free
  place; the daemon then holds exactly one more session, with the caller's user name,
  container ID (each cut to 63 bytes), PID and the current time; when full it is unchanged.
  The request sent is the encoding of that call.
\<close>

theorem register_exact:
  assumes "wf_daemon d" and "max_sessions d < 2 ^ 31" and "connected now d (register_request u c pid) fd"
  shows "(fst (caald_session_register fd u c pid) \<longleftrightarrow> size (live d) < max_sessions d) \<and>
    live (served now d (register_request u c pid)) =
      (if size (live d) < max_sessions d then add_mset (registered now u c pid) (live d) else live d) \<and>
    out (snd (caald_session_register fd u c pid)) = out fd @ enc_request (register_request u c pid)"
  using register_call [OF assms] .

theorem register_exact_witness:
  "live (served 7 day_one (register_request ''alice'' ''c1'' 5)) = {#registered 7 ''alice'' ''c1'' 5#}"
  using register_exact [OF day_one_ok connected_served_by, of 7 "''alice''" "''c1''" 5] by simp

text \<open>
  C5. Registering an ID that no live session has and then unregistering it restores the live
  sessions, also when the ID is longer than the 63 bytes that the protocol carries: both calls
  cut it the same way.
\<close>

theorem register_unregister:
  assumes "wf_daemon d" and "size (live d) < max_sessions d"
    and "\<forall>s \<in># live d. s_container_id s \<noteq> take 63 (cstr c)"
  shows "live (served later (served now d (register_request u c pid)) (unregister_request c)) = live d"
  using visit_restores [OF assms] .

theorem register_unregister_witness:
  "live (served 8 (served 7 day_one (register_request ''alice'' (replicate 70 CHR ''x'') 5))
     (unregister_request (replicate 70 CHR ''x''))) = {#}"
  using register_unregister [OF day_one_ok(1), of "replicate 70 CHR ''x''" 8 7 "''alice''" 5] by simp

text \<open>
  C6. Listing through the client library returns the number of active sessions and the user
  name, ID, PID and start time of each in table order, the first max_sess of them when the
  caller's array is smaller.
\<close>

theorem list_exact:
  assumes "wf_daemon d" and "max_sessions d < 2 ^ 31" and "connected now d list_request fd" and "0 \<le> max_sess"
  shows "fst (caald_session_list fd max_sess) = min (int (length (active d))) max_sess \<and>
    fst (snd (caald_session_list fd max_sess)) = take (nat max_sess) (map info_of (active d))"
  using caald.list_result [OF daemon_okI [OF assms(1,2)] assms(3) [unfolded connected_def] assms(4)]
  by (simp add: daemon_items_def)

theorem list_exact_witness:
  "fst (snd (caald_session_list (served_by 9 day_two list_request) 1024)) =
     [info_of (registered 7 ''alice'' ''c1'' 5)]"
  using list_exact [OF day_two_ok connected_served_by, of 1024 9] by (simp add: active_day_two)

text \<open>
  C7. A KILL request signals and removes exactly one session with the given ID when there is
  one: one SIGTERM to the PID it registered with, one log line, success; when there is none,
  nothing is signalled, nothing changes and the answer is the error.
\<close>

theorem kill_exact:
  assumes "wf_daemon d"
  shows "(\<exists>s. s \<in># live d \<and> s_container_id s = cstr (rq_container_id req) \<and>
      live (fst (handle_kill req d response0)) = live d - {#s#} \<and>
      snd (handle_kill req d response0) =
        (response0\<lparr>rs_ok := 1\<rparr>,
         [SigTerm (s_pid s), LogEvent ''SESSION_KILLED'' (s_username s) (s_container_id s)])) \<or>
    (\<forall>s \<in># live d. s_container_id s \<noteq> cstr (rq_container_id req)) \<and>
      handle_kill req d response0 = (d, set_error response0 ''session not found'', [])"
  using kill_cases [OF assms] .

theorem kill_exact_witness:
  "snd (snd (handle_kill (kill_request ''c1'') day_two response0)) =
     [SigTerm 5, LogEvent ''SESSION_KILLED'' ''alice'' ''c1'']"
  using kill_exact [OF day_two_ok(1), of "kill_request ''c1''"] by (auto simp: live_day_two CAALD_MAX_STR_def)

text \<open>
  C8. A KILL_USER request signals exactly the PIDs of the user's active sessions, in table
  order and once each, removes exactly those sessions, and answers with their number, or with
  an error when there are none.
\<close>

theorem kill_user_exact:
  assumes "wf_daemon d" and "u = cstr (rq_username req)"
    and "hit = filter (\<lambda>s. s_username s = u) (active d)"
    and "handle_kill_user req d response0 = (d', resp, es)"
  shows "active d' = filter (\<lambda>s. s_username s \<noteq> u) (active d) \<and>
    signalled es = map s_pid hit \<and>
    resp = (if hit = [] then set_error response0 ''no sessions found''
            else response0\<lparr>rs_ok := 1, rs_count := of_nat (length hit)\<rparr>)"
  using kill_user_result [OF assms(1,4)] unfolding assms(2,3) by (simp add: signalled_kills)

theorem kill_user_exact_witness:
  "signalled (snd (snd (handle_kill_user (kill_user_request ''alice'') day_two response0))) = [5]"
  using kill_user_exact [OF day_two_ok(1) refl refl, of "kill_user_request ''alice''"]
  by (cases "handle_kill_user (kill_user_request ''alice'') day_two response0")
    (simp add: active_day_two registered_def CAALD_MAX_STR_def)

text \<open>
  C9. handle_client implements the abstract service: for any split of the request into reads
  and any pieces in which writes are taken, a complete request makes exactly the table change
  and effects of serve, and a peer that keeps reading receives exactly its answer bytes.
\<close>

theorem serving_a_client:
  assumes "wf_request req" and "avail (rx ch) = enc_request req @ rest"
    and "willing (length (daemon_answer (now, d) req)) ch"
  shows "fst (handle_client now d ch) = served now d req \<and>
    out (fst (snd (handle_client now d ch))) = out ch @ daemon_answer (now, d) req \<and>
    snd (snd (handle_client now d ch)) = snd (snd (serve now d req))"
  using handle_client_state [OF assms(1,2)] handle_client_bytes [OF assms(1,2)] assms(3)
  by (simp add: served_def daemon_answer_def)

theorem serving_a_client_witness:
  "fst (handle_client 7 day_one
     \<lparr>rx = [RData (enc_request (register_request ''alice'' ''c1'' 5)), RErr], tx = replicate 69 1, out = []\<rparr>) =
   served 7 day_one (register_request ''alice'' ''c1'' 5)"
proof -
  let ?r = "register_request ''alice'' ''c1'' 5"
  have a: "avail [RData (enc_request ?r), RErr] = enc_request ?r @ []" by simp
  have "length (daemon_answer (7, day_one) ?r) = 69"
    using answer_length [OF day_one_ok, of ?r 7] by (simp add: RESPONSE_SIZE_def type_byte_def)
  then have "willing (length (daemon_answer (7, day_one) ?r))
      \<lparr>rx = [RData (enc_request ?r), RErr], tx = replicate 69 1, out = []\<rparr>"
    by (simp add: willing_def)
  from serving_a_client [OF wf_requests(1) _ this, of "[]"] a show ?thesis by simp
qed





text \<open>
  C12. A reload, whatever the configuration file holds and whether or not memory is available,
  keeps every active session in its place, never shrinks the table, and changes the capacity
  only to the configured value.
\<close>

theorem reload_safe:
  assumes "wf_daemon d" and "reload_config cfg alloc_ok d = (d', es)"
  shows "wf_daemon d' \<and> active d' = active d \<and> max_sessions d \<le> max_sessions d' \<and>
    take (session_count d) (sessions d') = take (session_count d) (sessions d) \<and>
    (max_sessions d' \<noteq> max_sessions d \<longrightarrow>
      (\<exists>t. cfg = CfgOk t \<and> alloc_ok \<and> int (max_sessions d') = config_max t))"
proof -
  have "take (session_count d) (sessions d') = take (session_count d) (sessions d) \<and>
      (max_sessions d' \<noteq> max_sessions d \<longrightarrow>
        (\<exists>t. cfg = CfgOk t \<and> alloc_ok \<and> int (max_sessions d') = config_max t))"
    using assms(2) by (cases rule: reload_cases) (use assms(1) in \<open>auto simp: wf_daemon_def\<close>)
  then show ?thesis using reload_wf [OF assms] by blast
qed

theorem reload_safe_witness:
  "active (fst (reload_config (CfgOk (DTable 0 [(''max_sessions'', DInt64 0 1)])) True day_two)) = active day_two"
  using reload_safe [OF day_two_ok(1), of "CfgOk (DTable 0 [(''max_sessions'', DInt64 0 1)])" True]
  by (metis prod.collapse)



text \<open>
  C14. Reloading the configuration in memory, any number of times, whatever the files hold and
  whatever the allocator refuses: every reload returns, frees the file buffer and the whole
  parsed document, and leaves the daemon with exactly one block, the session table, which has
  room for as many slots as the daemon believes; the active sessions stay, the capacity never
  falls, no other block is touched, and without refusals the daemon and its log lines are
  those of reload_config.
\<close>

theorem reload_no_leak:
  assumes "heap_ok h" and "alive h = one_block sp + R" and "block_holds h sp (max_sessions d * SIZEOF_SESSION)"
    and "wf_daemon d"
  shows "\<exists>d' es sp' h'. mreloads srcs sp d h = Some (d', es, sp', h') \<and>
    heap_ok h' \<and> alive h' = one_block sp' + R \<and> block_holds h' sp' (max_sessions d' * SIZEOF_SESSION) \<and>
    keeps_blocks R h h' \<and> wf_daemon d' \<and> active d' = active d \<and> max_sessions d \<le> max_sessions d' \<and>
    (grants h = [] \<longrightarrow> (d', es) = reloads srcs d)"
  using mreloads_ok [of R h sp d srcs] assms by (auto simp: holds_table_def)

theorem reload_no_leak_witness:
  "\<exists>d es sp h'. mreloads [limit_file, None] 0 daemon0 heap_new = Some (d, es, sp, h') \<and>
     max_sessions d = 2 \<and> alive h' = one_block sp \<and> block_holds h' sp (2 * SIZEOF_SESSION)"
proof -
  have h: "alive heap_new = one_block 0 + {#}" "block_holds heap_new 0 (max_sessions daemon0 * SIZEOF_SESSION)" "wf_daemon daemon0"
    "grants heap_new = []"
    by (simp_all add: heap_new_def alive_def daemon0_def wf_daemon_def)
  from reload_no_leak [OF heap_new_ok h(1-3), of "[limit_file, None]"] h(4) obtain d es sp h' where
    r: "mreloads [limit_file, None] 0 daemon0 heap_new = Some (d, es, sp, h')" "alive h' = one_block sp + {#}"
      "block_holds h' sp (max_sessions d * SIZEOF_SESSION)" "(d, es) = reloads [limit_file, None] daemon0" by blast
  have "max_sessions d = 2" using limit_reloads unfolding r(4) [symmetric] by simp
  with r show ?thesis by auto
qed



text \<open>
  C16. toml_parse returns on every input: the bound on the calls of the main loop and of
  parse_val is never exhausted, whatever the bytes and the stated length are.
\<close>

theorem parse_total: "\<exists>r. toml_parse opt buf len = Some r"
  using toml_parse_total [of opt buf len] by simp

text \<open>
  C17. A successful parse yields a well-formed table: distinct keys in every table, every
  table and array within its limit, every value of a known type.
\<close>

theorem parse_wellformed:
  assumes "toml_parse opt buf len = Some (Inr t)"
  shows "dtype t = TOML_TABLE \<and> tree_ok t \<and> wf_datum t \<and> typed t"
  using toml_parse_ok [OF assms] tree_ok_wf by blast

theorem parse_wellformed_witness:
  "dtype (config_tree doc_ex) = TOML_TABLE \<and> wf_datum (config_tree doc_ex)"
  using parse_wellformed [OF doc_ex_parsed] by simp


text \<open>
  C19. For a user name of at most 32 bytes without dots, the shell admits the user exactly
  when the session limit is not reached, the user's section has a bundle that is a string
  starting with a slash, and enabled is not the boolean false.
\<close>

theorem admission:
  assumes "pw_name e = Some u" and "length u \<le> 32" and "NUL \<notin> set u" and "CHR ''.'' \<notin> set u"
    and "config e = CfgOk t"
  shows "admitted e \<noteq> None \<longleftrightarrow>
    (config_limit t \<le> 0 \<or> fst (count_active_sessions (count_conn e) (session_entries e)) < config_limit t) \<and>
    (\<exists>f s. toml_get (toml_get t u) ''bundle'' = DString f s \<and> take 1 (cstr s) = ''/'') \<and>
    (\<forall>f. toml_get (toml_get t u) ''enabled'' \<noteq> DBoolean f False)"
  using admission_iff [OF assms] .

theorem admission_witness:
  "admitted (shell_ex ''alice'') \<noteq> None \<and> admitted (shell_ex ''bob'') = None \<and> admitted (shell_ex ''carol'') = None"
  using admission [of "shell_ex ''alice''" "''alice''" cfg_ex] admission [of "shell_ex ''bob''" "''bob''" cfg_ex]
    admission [of "shell_ex ''carol''" "''carol''" cfg_ex]
  by (simp add: config_limit_ex count_ex del: not_None_eq)

text \<open>
  C20. From the bytes of the file to the decision: a configuration of settings and sections,
  written out as text and read back through toml_parse_file, makes caalsh decide about every
  user exactly as the configuration says (denied, disabled or admitted, with bundle, timeout
  and disk size), and gives both programs the session limit it states.
\<close>

theorem config_decides:
  assumes "valid_config d" and "''max_sessions'' \<notin> fst ` set (snd d)" and "length (show_config d) < 2 ^ 30"
    and "\<forall>n \<le> 2 ^ 31. alloc n" and "bare_key u" and "length u \<le> 32"
  shows "\<exists>t. read_config alloc (Some (config_stream (show_config d))) = Some (CfgOk t) \<and>
    check_bundle t u = intended_login d u \<and> config_limit t = intended_limit d \<and>
    (0 < intended_limit d \<longrightarrow> intended_limit d < 2 ^ 31 \<longrightarrow> config_max t = intended_limit d) \<and>
    (intended_limit d \<le> 0 \<longrightarrow> config_max t = 1024)"
  using read_config_text [OF assms(1,3,4)] login_decided [OF assms(1,5,6)] limits_decided [OF assms(1,2)] by blast

theorem config_decides_witness:
  "\<exists>t. read_config (\<lambda>n. True) (Some (config_stream (show_config doc_ex))) = Some (CfgOk t) \<and>
     check_bundle t ''bob'' = Inl ''[CaaLsh] user disabled, access denied'' \<and> config_limit t = 4"
proof -
  have "intended_login doc_ex ''bob'' = Inl ''[CaaLsh] user disabled, access denied''" "intended_limit doc_ex = 4"
    by (simp_all add: doc_ex_def intended_login_def intended_section_def intended_limit_def cstr_def)
  then show ?thesis
    using config_decides [OF doc_ex_valid _ doc_ex_length, of "\<lambda>n. True" "''bob''"] doc_ex_keys(2)
    by (auto simp: doc_ex_def)
qed

text \<open>
  C21. While no shell decides as long as another one is between its decision and its
  registration, and the daemon can be reached, the limit holds: in every state that any number
  of shells can reach in any order of their steps, with kill commands at any time between
  them, at most max_sessions shells run that the daemon has not signalled, and each of them is
  in its table, also when shells give up or go without unregistering and when killed ones run
  on.
\<close>

theorem serial_visits:
  assumes "wf_daemon d" and "live d = {#}" and "max_sessions d < 2 ^ 31"
    and "0 < config_limit t" and "config_limit t \<le> int (max_sessions d)" and "visits_reach True t d st"
  shows "finite (running_shells st) \<and> int (card (running_shells st)) \<le> config_limit t \<and>
    (\<forall>v \<in> running_shells st. \<exists>s \<in># live (h_table st). s_container_id s = shell_sid v)"
proof -
  note o = reached_orderly [OF assms(6,1-3,4,5)]
  show ?thesis using o running_card [OF reached_house [OF assms(6,1-3)] o] by (simp add: orderly_def)
qed

theorem serial_visits_witness:
  "\<exists>st. visits_reach True cfg_ex day_one st \<and> running_shells st = {Shell 100 7} \<and>
     (\<exists>s \<in># live (h_table st). s_container_id s = session_id 100 7)"
proof -
  obtain d' where d': "visits_reach True cfg_ex day_one (scene d' ''alice'' {Shell 100 7} {Shell 100 7})"
    using one_visit by blast
  have "0 < config_limit cfg_ex" "config_limit cfg_ex \<le> int (max_sessions day_one)" by (simp_all add: config_limit_ex)
  from serial_visits [OF day_one_ok(1) _ day_one_ok(2) this d'] d' show ?thesis
    by (intro exI [of _ "scene d' ''alice'' {Shell 100 7} {Shell 100 7}"]) (simp add: running_scene shell_sid_def)
qed






text \<open>
  C25. A decimal integer of fewer than 50 characters is read exactly when it fits 64 bits, as
  its two's-complement value; beyond that range the parse fails with an error instead of
  wrapping around or saturating.
\<close>

theorem integer_text:
  assumes "ends p" and "length (show_int i) < 50"
  shows "(- (2 ^ 63) \<le> i \<and> i < 2 ^ 63 \<longrightarrow>
      (\<exists>tok. scan_value (sp\<lparr>cur := show_int i @ p\<rparr>) = Inr (tok, sp\<lparr>cur := p\<rparr>) \<and>
        (\<exists>w. parse_val (Suc n) tok pp = Some (Inr (DInt64 0 w, pp)) \<and> sint w = i))) \<and>
    (i < - (2 ^ 63) \<or> 2 ^ 63 \<le> i \<longrightarrow>
      scan_value (sp\<lparr>cur := show_int i @ p\<rparr>) = Inl (seterror (lineno sp) ''error parsing integer''))"
  using scan_value_int [OF assms, of sp] sint_range [of i]
  by (auto simp: int64_range_def token_to_int64_def)

theorem integer_text_witness:
  "scan_value ((scan_init [])\<lparr>cur := show_int (2 ^ 63) @ [LF]\<rparr>) = Inl (seterror 1 ''error parsing integer'') \<and>
   (\<exists>tok sp. scan_value ((scan_init [])\<lparr>cur := show_int (- (2 ^ 63)) @ [LF]\<rparr>) = Inr (tok, sp))"
proof -
  have "length (show_int (- (2 ^ 63))) < 50" by (rule show_int_fits) (simp add: int64_range_def)
  moreover have "length (show_int (2 ^ 63)) < 50"
    using length_show_nat [of "2 ^ 63" 19] by (simp add: show_int_def)
  moreover have "ends [LF]" "lineno (scan_init []) = 1" by (simp_all add: scan_init_def)
  ultimately show ?thesis
    using integer_text [of "[LF]" "2 ^ 63" "scan_init []" 0 "parser_init []"]
      integer_text [of "[LF]" "- (2 ^ 63)" "scan_init []" 0 "parser_init []"]
    by (auto simp del: power_numeral parse_val.simps)
qed

text \<open>
  C26. A whole session of an admitted user, with no call refused and the daemon reachable with
  a free place: the shell exits with 0 after the proxy ends, directories, mounts, containers
  and all files but the console socket are as before, it sent exactly a REGISTER and an
  UNREGISTER for its own ID, and whatever other users asked of the daemon in between (short of
  ending this session), the UNREGISTER succeeds.
\<close>

theorem complete_visit:
  assumes "pid_range (getpid e)" and "time_range (time_now e)" and "admitted e = Some (u, lg)"
    and "fresh_session (getpid e) (time_now e) (lg_bundle lg) w"
    and "0 < image_bytes (lg_disk lg)" and "refusals w = 0"
    and "0 \<le> pty_bridge_recv (pty_hello e)" and "sh_exit (caalsh_main e w) \<noteq> None"
    and "sid = session_id (getpid e) (time_now e)" and "req = register_request u sid (word_of_int (getpid e))"
    and "wf_daemon d" and "max_sessions d < 2 ^ 31" and "size (live d) < max_sessions d"
    and "register_conn e = Some fd" and "connected now d req fd"
    and "\<forall>a \<in> set others. \<not> aimed_at sid (take 63 (cstr u)) (snd a)"
    and "unregister_conn e = Some fd'"
    and "connected later (serve_all others (served now d req)) (unregister_request sid) fd'"
  shows "sh_exit (caalsh_main e w) = Some 0 \<and>
    res (sh_os (caalsh_main e w)) =
      (dirs w, filter (\<lambda>f. fst f \<noteq> pty_sock_path (getpid e)) (files w), mnts w, containers w) \<and>
    map_option out (sh_register (caalsh_main e w)) = Some (out fd @ enc_request req) \<and>
    map_option out (sh_unregister (caalsh_main e w)) = Some (out fd' @ enc_request (unregister_request sid)) \<and>
    fst (caald_session_unregister fd' sid)"
  using visit_of_session [OF assms] .

theorem complete_visit_witness:
  "sh_exit (caalsh_main visit_ex os_ex) = Some 0 \<and>
   res (sh_os (caalsh_main visit_ex os_ex)) =
     (dirs os_ex, filter (\<lambda>f. fst f \<noteq> pty_sock_path 100) (files os_ex), mnts os_ex, containers os_ex)"
proof -
  have "fresh_session 100 7 ''/srv/alice'' os_ex" using visit_fresh [of "[]"] os_ex_verdicts by simp
  then show ?thesis
    using complete_visit [of visit_ex "''alice''" login_ex os_ex sid_ex req_ex day_one "served_by 7 day_one req_ex" 7 "[]"
        "served_by 9 (served 7 day_one req_ex) (unregister_request sid_ex)" 9]
      visit_ids visit_admitted visit_ends day_one_ok connected_served_by os_ex_verdicts
    by (simp add: image_16 sid_ex_def req_ex_def)
qed

text \<open>
  C27. No expression of a document changes what earlier ones have defined: every path of keys
  and indices still leads to a value of the same type, and to the very same value when it is
  not a table or array; and the tree stays well formed.
\<close>

theorem later_lines_keep:
  assumes "doc_ok pp" and "parse_expr n tok pp = Some (Inr pp')" and "reach (toptab pp) p = Some v"
  shows "doc_ok pp' \<and> (\<exists>v'. reach (toptab pp') p = Some v' \<and> dtype v' = dtype v \<and> (scalar v \<longrightarrow> v' = v))"
  using parse_expr_ok [OF assms(1,2)] assms(3) by (auto simp: keeps_def)

theorem later_lines_keep_witness:
  "\<exists>pp'. parse_expr 1 tok_ex parser_ex = Some (Inr pp') \<and> reach (toptab pp') [Key ''a''] = Some (DInt64 0 1)"
proof -
  have "reach (toptab parser_ex) [Key ''a''] = Some (DInt64 0 1)" by (simp add: parser_ex_def)
  from later_lines_keep [OF parser_ex_ok parser_ex_expr this] parser_ex_expr show ?thesis
    by (auto simp: scalar_def)
qed

text \<open>
  C28. toml_parse in memory, whatever the bytes and whatever the allocator refuses: it
  returns, touches only its own blocks and leaves all others as they were; a result that is ok
  is the document that the value model computes, owns its blocks, can be read and keeps its
  keys and strings in its own pool; a result that is not ok owns nothing, and its message is
  that of the value model unless a request was refused; toml_free then gives back exactly what
  the parse has taken.
\<close>

theorem parse_lifecycle:
  assumes "heap_ok h" and "len \<le> length buf"
  shows "\<exists>r h'. mtoml_parse opt buf len h = Some (r, h') \<and>
    heap_ok h' \<and> alive h' = blocks_of r + alive h \<and> keeps_blocks (alive h) h h' \<and>
    (if mr_ok r then toml_parse opt buf len = Some (mdoc r) \<and> usable h' r \<and> pools (mr_toptab r) \<subseteq> set_mset (blocks_of r)
     else blocks_of r = {#} \<and> (toml_parse opt buf len = Some (mdoc r) \<or> grants h \<noteq> [] \<and> refused (mr_errmsg r))) \<and>
    heap_ok (mtoml_free r h') \<and> alive (mtoml_free r h') = alive h \<and> keeps_blocks (alive h) h (mtoml_free r h')"
proof -
  obtain r h' where m: "mtoml_parse opt buf len h = Some (r, h')" and p: "parsed (toml_parse opt buf len) h (r, h')"
    using mtoml_parse_ok [OF assms, of opt] by auto
  then have "freed (alive h) h' (mtoml_free r h')" by (intro mtoml_free_ok) (simp_all add: parsed_def)
  with m p show ?thesis by (auto simp: parsed_def freed_def intro: keeps_blocks_trans)
qed

theorem parse_lifecycle_witness:
  "\<exists>r h'. mtoml_parse toml_default_option (show_config doc_ex) (length (show_config doc_ex)) heap_new = Some (r, h') \<and>
     mdoc r = Inr (config_tree doc_ex) \<and> alive h' = blocks_of r \<and> alive (mtoml_free r h') = {#}"
proof -
  have "grants heap_new = []" "alive heap_new = {#}" by (simp_all add: heap_new_def alive_def)
  with parse_lifecycle [OF heap_new_ok, of "length (show_config doc_ex)" "show_config doc_ex" toml_default_option] doc_ex_parsed
  show ?thesis by (auto simp: mdoc_def split: if_splits)
qed

text \<open>
  C29. toml_merge in memory, whatever the allocator refuses: a result that is ok is the merge
  that the value model computes, and readable; with nothing refused and enough room in the
  pool the two succeed on the same documents; both inputs keep their blocks, no block is used
  after or without its allocation or freed twice, the result owns exactly the blocks that are
  new, also when it is an error, and toml_free gives back exactly these.
\<close>

theorem merge_lifecycle:
  assumes "heap_ok h" and "usable h r1" and "usable h r2" and "mtoml_merge r1 r2 h = (r, h')"
  shows "heap_ok h' \<and> alive h' = blocks_of r + alive h \<and>
    heap_ok (mtoml_free r h') \<and> alive (mtoml_free r h') = alive h \<and> keeps_blocks (alive h) h (mtoml_free r h') \<and>
    (mr_ok r \<longrightarrow> usable h' r \<and> mdoc r = toml_merge (mdoc r1) (mdoc r2)) \<and>
    (grants h = [] \<and> room_for_both r1 r2 \<longrightarrow> (mr_ok r \<longleftrightarrow> (\<exists>d. toml_merge (mdoc r1) (mdoc r2) = Inr d)))"
proof -
  note m = mtoml_merge_ok [OF assms(1-3), unfolded assms(4) merged_def prod.case]
  then have "freed (alive h) h' (mtoml_free r h')" by (intro mtoml_free_ok) simp_all
  with m show ?thesis
    by (auto simp: freed_def mdoc_def intro: keeps_blocks_trans split: if_splits)
qed

theorem merge_lifecycle_witness:
  "\<exists>r h'. mtoml_merge mdoc1 mdoc2 heap_docs = (r, h') \<and> mr_ok r \<and>
     mdoc r = Inr (DTable 0 [(''a'', DInt64 0 1), (''b'', DString 0 ''x'')]) \<and>
     alive (mtoml_free r h') = {#1, 2, 3, 4, 5, 6, 7, 8#}"
proof -
  obtain r h' where m: "mtoml_merge mdoc1 mdoc2 heap_docs = (r, h')" by (cases "mtoml_merge mdoc1 mdoc2 heap_docs")
  from merge_lifecycle [OF docs_usable(1-3) m] docs_pure have "mr_ok r"
    "mdoc r = Inr (DTable 0 [(''a'', DInt64 0 1), (''b'', DString 0 ''x'')])" "alive (mtoml_free r h') = alive heap_docs"
    by simp_all
  moreover have "alive heap_docs = {#1, 2, 3, 4, 5, 6, 7, 8#}" by (simp add: alive_def heap_docs_def)
  ultimately show ?thesis using m by auto
qed

text \<open>
  C30. A container start that fails after its disk was set up, because of one refused call
  (overlay mount, console socket, bind, listen or fork), takes everything down again:
  directories, mounts and containers are as before, and so are all files but the console
  socket.
\<close>

theorem failed_start:
  assumes "pid_range pid" and "time_range now" and "fresh_session pid now b w"
    and "container_start pid now child ct_in b mb w = (False, ct, w')"
    and "fst (session_disk_setup (session_path pid now) (session_path pid now @ ''.img'') mb w)"
    and "refusals w \<le> 1"
  shows "dirs w' = dirs w \<and> mnts w' = mnts w \<and> containers w' = containers w \<and>
    filter (\<lambda>f. fst f \<noteq> pty_sock_path pid) (files w') = filter (\<lambda>f. fst f \<noteq> pty_sock_path pid) (files w)"
  using start_fail_restores [OF assms] .

theorem failed_start_witness:
  "dirs (snd (snd (container_start 100 7 101 ct0 ''/srv/alice'' 16 os_overlay_refused))) = dirs os_ex"
proof -
  obtain ct w' where r: "container_start 100 7 101 ct0 ''/srv/alice'' 16 os_overlay_refused = (False, ct, w')"
    using overlay_refused_run(1) by (cases "container_start 100 7 101 ct0 ''/srv/alice'' 16 os_overlay_refused") auto
  have "refusals os_overlay_refused \<le> 1" by (simp add: refusals_def os_overlay_refused_def)
  moreover have "fresh_session 100 7 ''/srv/alice'' os_overlay_refused"
    unfolding os_overlay_refused_def by (rule visit_fresh)
  ultimately have "dirs w' = dirs os_overlay_refused"
    using failed_start [OF visit_ids _ r overlay_refused_run(2)] by blast
  then show ?thesis using r by (simp add: os_overlay_refused_def)
qed

text \<open>
  C31. Two sessions at once on the same bundle are not isolated: the second overlay has the
  first one as its lower layer, and when the first session stops, its umount detaches the
  second session's overlay while its own stays mounted.
\<close>

theorem shared_bundle:
  assumes "pid_range pidA" and "time_range nowA" and "pid_range pidB" and "time_range nowB"
    and "fresh_session pidA nowA b w0" and "fresh_session pidB nowB b w1"
    and "container_start pidA nowA chA ct0 b mbA w0 = (True, ctA, w1)"
    and "container_start pidB nowB chB ct0 b mbB w1 = (True, ctB, w2)"
    and "refusals w2 = 0"
  shows "(\<exists>lower. top_kind (rootfs_of b) (mnts w2) =
      Some (Overlay (Some (Overlay lower (session_path pidA nowA @ ''/upper'') (session_path pidA nowA @ ''/work'')))
              (session_path pidB nowB @ ''/upper'') (session_path pidB nowB @ ''/work''))) \<and>
    (\<exists>lower. top_kind (rootfs_of b) (mnts (snd (container_stop ctA w2))) =
      Some (Overlay lower (session_path pidA nowA @ ''/upper'') (session_path pidA nowA @ ''/work'')))"
  using overlays_stack [OF assms] .

theorem shared_bundle_witness:
  "\<exists>ctA w1 ctB w2 lower. container_start 100 7 101 ct0 ''/srv/alice'' 16 os_ex = (True, ctA, w1) \<and>
    container_start 200 8 201 ct0 ''/srv/alice'' 16 w1 = (True, ctB, w2) \<and>
    top_kind ''/srv/alice/rootfs'' (mnts (snd (container_stop ctA w2))) =
      Some (Overlay lower (session_path 100 7 @ ''/upper'') (session_path 100 7 @ ''/work''))"
proof -
  obtain ctA w1 ctB w2 where w: "container_start 100 7 101 ct0 ''/srv/alice'' 16 os_ex = (True, ctA, w1)"
    "container_start 200 8 201 ct0 ''/srv/alice'' 16 w1 = (True, ctB, w2)" "refusals w2 = 0"
    "fresh_session 200 8 ''/srv/alice'' w1"
    using two_visits .
  have "fresh_session 100 7 ''/srv/alice'' os_ex" using visit_fresh [of "[]"] os_ex_verdicts by simp
  from shared_bundle [OF visit_ids visit_ids2 this w(4,1,2,3)] w(1,2)
  show ?thesis unfolding rootfs_alice by blast
qed







text \<open>
  C35. The entry that newcaal.sh appends is read as meant: after it the new user is admitted
  with the bundle, timeout and disk size given there (or denied as disabled), and every other
  user is decided as before.
\<close>

theorem new_user:
  assumes "valid_config d" and "bare_key u" and "length u \<le> 32"
    and "u \<notin> fst ` set (snd d)" and "u \<notin> fst ` set (settings (fst d))"
    and "length (settings (fst d)) + length (snd d) < TABLE_MAX"
    and "list_all plain_char b" and "take 1 b = ''/''" and "int64_range disk" and "int64_range tmo"
    and "length (show_config d @ newcaal_entry u b en disk tmo) < 2 ^ 30" and "\<forall>n \<le> 2 ^ 31. alloc n"
  shows "\<exists>t. read_config alloc (Some (config_stream (show_config d @ newcaal_entry u b en disk tmo))) = Some (CfgOk t) \<and>
    check_bundle t u =
      (if en then Inr \<lparr>lg_bundle = b, lg_timeout = word_of_int tmo, lg_disk = if 0 < disk then word_of_int disk else 1024\<rparr>
       else Inl ''[CaaLsh] user disabled, access denied'') \<and>
    (\<forall>u'. bare_key u' \<longrightarrow> length u' \<le> 32 \<longrightarrow> u' \<noteq> u \<longrightarrow> check_bundle t u' = intended_login d u')"
proof -
  let ?d = "add_user d u (user_lines b en disk tmo)"
  have v: "valid_config ?d"
    using user_lines_valid [OF assms(9,10)] by (rule valid_add_user [OF assms(1,2) _ assms(4-6)])
  have r: "read_config alloc (Some (config_stream (show_config d @ newcaal_entry u b en disk tmo))) =
      Some (CfgOk (config_tree ?d))"
    using read_config_text [OF v _ assms(12)] assms(11) by (simp add: show_add_user [OF assms(7)])
  show ?thesis
    unfolding r
    using login_decided [OF v] login_add_user(1) intended_new_user [OF assms(7,8)] login_add_user(2) [OF assms(4)] assms(2,3)
    by (simp add: intended_login_def [of ?d u])
qed

theorem new_user_witness:
  "\<exists>t. read_config (\<lambda>n. True)
       (Some (config_stream (show_config doc_ex @ newcaal_entry ''alice'' ''/srv/alice'' True 64 0))) = Some (CfgOk t) \<and>
     check_bundle t ''alice'' = Inr \<lparr>lg_bundle = ''/srv/alice'', lg_timeout = 0, lg_disk = 64\<rparr>"
proof -
  have "length (newcaal_entry ''alice'' ''/srv/alice'' True 64 0) = 80" by code_simp
  then have "length (show_config doc_ex @ newcaal_entry ''alice'' ''/srv/alice'' True 64 0) < 2 ^ 30"
    using doc_ex_length_exact by simp
  with new_user [OF doc_ex_valid doc_ex_keys(5), of "''/srv/alice''" 64 0 True "\<lambda>n. True"] plain_ex
  show ?thesis by (auto simp: doc_ex_def adds_def TABLE_MAX_def int64_range_def)
qed

text \<open>
  C36. toml_seek follows the dot-separated parts of its key through nested tables, for keys of
  up to 255 bytes, and finds nothing for longer ones; its loop ends on every input.
\<close>

theorem seek_is_path:
  assumes "NUL \<notin> set p"
  shows "toml_seek d p = (if length p \<le> 255 then path_get d (split_dots p) else DATUM_ZERO)"
  using toml_seek_eq [OF _ assms, of d] toml_seek_long [of p d] assms by simp

theorem seek_is_path_witness:
  "toml_seek cfg_ex ''alice.disk'' = path_get cfg_ex (split_dots ''alice.disk'')"
  using seek_is_path [of "''alice.disk''" cfg_ex] by simp

text \<open>
  C37. caalctl tells the truth about the daemon: count prints the number of active sessions,
  kill succeeds (exit 0) exactly when a session with that ID is active and killuser exactly
  when the user has one, and list prints one row per active session, up to 1024.
\<close>

theorem ctl_reports:
  assumes "wf_daemon d" and "max_sessions d < 2 ^ 31"
  shows "(connected now d count_request fd \<longrightarrow>
      ctl_main fmt clock prog (''count'' # args) (Some fd) = (0, nl (show_int (int (size (live d)))), [])) \<and>
    (connected now d (kill_request c) fd \<longrightarrow>
      (fst (ctl_main fmt clock prog (''kill'' # c # args) (Some fd)) = 0 \<longleftrightarrow>
        (\<exists>s \<in># live d. s_container_id s = take 63 (cstr c)))) \<and>
    (connected now d (kill_user_request u) fd \<longrightarrow>
      (fst (ctl_main fmt clock prog (''killuser'' # u # args) (Some fd)) = 0 \<longleftrightarrow>
        (\<exists>s \<in># live d. s_username s = take 63 (cstr u)))) \<and>
    (connected now d list_request fd \<longrightarrow> active d \<noteq> [] \<longrightarrow>
      ctl_main fmt clock prog (''list'' # args) (Some fd) =
        (0, list_header @ list_rows fmt clock 0 (take 1024 (map info_of (active d))), []))"
  by (intro conjI impI; simp add: ctl_count [OF assms] ctl_kill [OF assms] ctl_killuser [OF assms] ctl_list [OF assms])

theorem ctl_reports_witness:
  "ctl_main (\<lambda>t. ''now'') (\<lambda>k. 0) ''caalctl'' [''count''] (Some (served_by 9 day_two count_request)) = (0, nl ''1'', [])"
  using ctl_reports [OF day_two_ok, of 9 "served_by 9 day_two count_request" "\<lambda>t. ''now''" "\<lambda>k. 0" "''caalctl''" "[]"]
    connected_served_by [of 9 day_two count_request]
  by (simp add: size_live active_day_two show_1)

text \<open>
  C38. For every process ID and time that the system can produce, the container ID and the
  paths derived from it fit their buffers without truncation, and two sessions share an ID
  only if they were started by the same process ID in the same second; the root of the bundle
  is cut exactly when the bundle path is longer than 120 bytes.
\<close>

theorem session_paths:
  assumes "pid_range pid" and "time_range now" and "NUL \<notin> set b"
  shows "ct_container_id (derive_paths pid now b ct) = ''caalsh-'' @ show_int pid @ ''-'' @ show_int now \<and>
    ct_session_dir (derive_paths pid now b ct) = SESSION_DIR @ ''/'' @ ct_container_id (derive_paths pid now b ct) \<and>
    ct_image_path (derive_paths pid now b ct) = ct_session_dir (derive_paths pid now b ct) @ ''.img'' \<and>
    upper_path (derive_paths pid now b ct) = ct_session_dir (derive_paths pid now b ct) @ ''/upper'' \<and>
    work_path (derive_paths pid now b ct) = ct_session_dir (derive_paths pid now b ct) @ ''/work'' \<and>
    (ct_rootfs (derive_paths pid now b ct) = b @ ''/rootfs'' \<longleftrightarrow> length b \<le> 120) \<and>
    (\<forall>pid' now'. pid_range pid' \<longrightarrow> time_range now' \<longrightarrow> session_id pid' now' = session_id pid now \<longrightarrow>
      pid' = pid \<and> now' = now)"
  using paths_exact [OF assms(1,2)] session_id_exact(1) [OF assms(1,2)] rootfs_exact [OF assms(3)]
    session_id_inj [OF _ _ assms(1,2)]
  by (intro conjI) simp_all

theorem session_paths_witness:
  "ct_container_id (derive_paths 100 7 ''/srv/alice'' ct0) = ''caalsh-100-7''"
  using session_paths [OF visit_ids, of "''/srv/alice''" ct0] paths_exact(1) [OF visit_ids] by (simp add: sids)



text \<open>
  C40. The result of toml_merge borrows the keys of the first document: as long as both inputs
  live, a lookup reads only live memory and answers as the merged tree does, but once the
  first document has been freed every lookup in the result reads freed memory.
\<close>

theorem merge_borrows_keys:
  assumes "heap_ok h" and "usable h r1" and "usable h r2" and "alive h = blocks_of r1 + S"
    and "mr_toptab r1 = MTable f k l v ((s, d) # kvs)" and "mr_pool r1 = Some pl" and "fst s = pl_ptr pl"
    and "mtype (mr_toptab r2) = TOML_TABLE" and "mtoml_merge r1 r2 h = (r, h')" and "mr_ok r"
  shows "(\<exists>x. mtoml_get (mr_toptab r) key h' = (x, h') \<and> forget x = toml_get (forget (mr_toptab r)) key) \<and>
    \<not> fault (mtoml_free r1 h') \<and> fault (snd (mtoml_get (mr_toptab r) key (mtoml_free r1 h')))"
proof -
  note m = mtoml_merge_ok [OF assms(1-3), unfolded assms(9) merged_def prod.case]
  have u: "heap_ok h'" "usable h' r" "alive h' = blocks_of r + alive h" "keeps_blocks (alive h) h h'"
    using m assms(10) by simp_all
  have a: "alive h' = blocks_of r1 + (blocks_of r + S)" using u(3) assms(4) by (simp add: ac_simps)
  have rm: "roomy h' (mr_toptab r1)"
    by (rule roomy_keep [OF assms(1) _ _ u(4)]) (use assms(2) in \<open>simp_all add: usable_def blocks_of_def\<close>)
  have f: "freed (blocks_of r + S) h' (mtoml_free r1 h')" by (rule mtoml_free_ok [OF u(1) a rm])
  have "pl_ptr pl \<noteq> 0" using assms(2,5,6,7) alive_nonzero [OF assms(1)] by (auto simp: usable_def)
  then have "alive h' = {#pl_ptr pl#} + (owned (mr_toptab r1) + (blocks_of r + S))"
    using a assms(6) by (simp add: blocks_of_def ac_simps)
  from heap_ok_unique [OF u(1) this] have dead: "fst s \<notin># alive (mtoml_free r1 h')"
    using f assms(7) by (simp add: freed_def)
  obtain f' k' l' v' d' kvs' where t: "mr_toptab r = MTable f' k' l' v' ((s, d') # kvs')"
    using merge_first_key [OF assms(9,10,5,8), of h] assms(3) by (auto simp: usable_def)
  show ?thesis
    using mtoml_get_ok [OF u(1,2)] get_dead_key [OF dead] f
    by (simp add: t freed_def heap_ok_def del: mtoml_get.simps)
qed

theorem merge_borrows_keys_witness:
  "\<exists>r h'. mtoml_merge mdoc1 mdoc2 heap_docs = (r, h') \<and> \<not> fault h' \<and>
     fault (snd (mtoml_get (mr_toptab r) ''b'' (mtoml_free mdoc1 h')))"
proof -
  obtain r h' where m: "mtoml_merge mdoc1 mdoc2 heap_docs = (r, h')" by (cases "mtoml_merge mdoc1 mdoc2 heap_docs")
  note ok = docs_merged [OF m]
  have t: "mr_toptab mdoc1 = MTable 0 2 3 4 (((1, ''a''), MPlain (DInt64 0 1)) # [])"
    "mr_pool mdoc1 = Some \<lparr>pl_ptr = 1, pl_top = 10, pl_max = 40\<rparr>" "mtype (mr_toptab mdoc2) = TOML_TABLE"
    by (simp_all add: mdoc1_def mdoc2_def)
  from merge_borrows_keys [OF docs_usable t(1,2) _ t(3) m ok(1), of "''b''"] ok(2) m show ?thesis
    by (auto simp: heap_ok_def)
qed

end
